(* ===== verification/Prelude.thy ===== *)
theory Prelude
  imports Main "HOL-Library.Word" "HOL-Library.Monad_Syntax" "HOL-Library.Multiset"
begin

text \<open>
  Shared vocabulary of the development: Go's fixed-width integers as words, run-time panics as
  \<open>None\<close>, slice expressions and \<open>copy\<close>, decimal rendering of unsigned integers, retry loops,
  and the list and word lemmas every component uses.
\<close>

unbundle bit_operations_syntax

type_synonym byte = "8 word"
type_synonym u32 = "32 word"
type_synonym u64 = "64 word"

text \<open>A Go \<open>int64\<close> is a 64-bit word read with \<^const>\<open>sint\<close>.\<close>

type_synonym i64 = "64 word"

named_theorems slice_simps \<open>slice, copy and positional read/write equations\<close>
named_theorems codec_simps \<open>field access in encoded byte strings\<close>
named_theorems layout_simps \<open>arithmetic of the chunk and cell layout\<close>

lemma unat_lt64: "unat (x :: 64 word) < 2 ^ 64"
  using unsigned_less [of x, where 'a = nat] by simp

lemma unat_of_nat64: "n < 2 ^ 64 \<Longrightarrow> unat (word_of_nat n :: 64 word) = n"
  by (simp add: unsigned_of_nat take_bit_nat_eq_self)

text \<open>An \<open>int64\<close> is non-negative when its unsigned reading is below \<open>2 ^ 63\<close>.\<close>

lemma sint_nonneg_iff: "0 \<le> sint (x :: 64 word) \<longleftrightarrow> unat x < 2 ^ 63"
proof -
  have "0 \<le> sint x \<longleftrightarrow> \<not> bit x 63"
    by (simp add: sint_uint bit_simps signed_take_bit_nonnegative_iff)
  also have "bit x 63 \<longleftrightarrow> bit (unat x) 63"
    by (simp add: bit_unsigned_iff)
  also have "\<dots> \<longleftrightarrow> odd (unat x div 2 ^ 63)"
    by (simp only: bit_iff_odd)
  also have "unat x div 2 ^ 63 = (if unat x < 2 ^ 63 then 0 else 1)"
    using unat_lt64 [of x] by (auto simp: div_nat_eqI)
  finally show ?thesis by simp
qed

subsection \<open>Go slices\<close>

text \<open>\<open>b[lo:hi]\<close>; an index out of range is a run-time panic.\<close>

definition go_slice :: "nat \<Rightarrow> nat \<Rightarrow> 'a list \<Rightarrow> 'a list option" where
  "go_slice lo hi b = (if lo \<le> hi \<and> hi \<le> length b then Some (take (hi - lo) (drop lo b)) else None)"

text \<open>\<open>copy(dst, src)\<close> overwrites a prefix of \<open>dst\<close> with as much of \<open>src\<close> as fits.\<close>

definition go_copy :: "'a list \<Rightarrow> 'a list \<Rightarrow> 'a list" where
  "go_copy dst src = take (length dst) src @ drop (length src) dst"

text \<open>\<open>copy(dst[lo:hi], src)\<close>: the copy goes through to the array \<open>dst\<close> refers to.\<close>

definition go_copy_into :: "'a list \<Rightarrow> nat \<Rightarrow> nat \<Rightarrow> 'a list \<Rightarrow> 'a list option" where
  "go_copy_into dst lo hi src =
     map_option (\<lambda>mid. take lo dst @ go_copy mid src @ drop hi dst) (go_slice lo hi dst)"

lemma length_go_copy [simp]: "length (go_copy dst src) = length dst"
  by (simp add: go_copy_def)

lemma go_slice_Some [slice_simps]:
  "lo \<le> hi \<Longrightarrow> hi \<le> length b \<Longrightarrow> go_slice lo hi b = Some (take (hi - lo) (drop lo b))"
  by (simp add: go_slice_def)

lemma go_slice_None: "\<not> (lo \<le> hi \<and> hi \<le> length b) \<Longrightarrow> go_slice lo hi b = None"
  by (simp add: go_slice_def)

lemma length_go_slice: "go_slice lo hi b = Some m \<Longrightarrow> length m = hi - lo"
  by (auto simp: go_slice_def split: if_splits)

lemma go_slice_append_left [slice_simps]:
  "n = length xs \<Longrightarrow> go_slice 0 n (xs @ ys) = Some xs"
  by (simp add: go_slice_def)

lemma go_slice_append_right [slice_simps]:
  "length xs \<le> lo \<Longrightarrow> lo \<le> hi \<Longrightarrow>
   go_slice lo hi (xs @ ys) = go_slice (lo - length xs) (hi - length xs) ys"
  by (auto simp: go_slice_def)

lemma length_go_copy_into: "go_copy_into dst lo hi src = Some d \<Longrightarrow> length d = length dst"
  by (auto simp: go_copy_into_def go_slice_def split: if_splits)

lemma go_copy_full: "length src = length dst \<Longrightarrow> go_copy dst src = src"
  by (simp add: go_copy_def)

subsection \<open>Overwriting a range of a list\<close>

definition overwrite :: "'a list \<Rightarrow> nat \<Rightarrow> 'a list \<Rightarrow> 'a list" where
  "overwrite xs off ys = take off xs @ ys @ drop (off + length ys) xs"

lemma length_overwrite [simp]:
  "off + length ys \<le> length xs \<Longrightarrow> length (overwrite xs off ys) = length xs"
  by (simp add: overwrite_def)

lemma overwrite_read_same [slice_simps]:
  "off \<le> length xs \<Longrightarrow> take (length ys) (drop off (overwrite xs off ys)) = ys"
  by (simp add: overwrite_def)

lemma overwrite_read_before:
  "n + m \<le> off \<Longrightarrow> off \<le> length xs \<Longrightarrow> take m (drop n (overwrite xs off ys)) = take m (drop n xs)"
  by (auto simp: overwrite_def drop_take min_def)

lemma overwrite_read_after:
  assumes "off + length ys \<le> n" "off \<le> length xs"
  shows "take m (drop n (overwrite xs off ys)) = take m (drop n xs)"
proof -
  have "drop n (overwrite xs off ys) = drop (n - (off + length ys)) (drop (off + length ys) xs)"
    using assms by (simp add: overwrite_def)
  also have "\<dots> = drop n xs"
    using assms by simp
  finally show ?thesis by simp
qed

subsection \<open>Decimal rendering\<close>

definition digit_char :: "nat \<Rightarrow> char" where
  "digit_char d = char_of (48 + d)"

fun dec_digits :: "nat \<Rightarrow> string" where
  "dec_digits n = (if n < 10 then [digit_char n] else dec_digits (n div 10) @ [digit_char (n mod 10)])"

declare dec_digits.simps [simp del]

text \<open>\<open>strconv.FormatUint(i, 10)\<close>.\<close>

definition FormatUint :: "u64 \<Rightarrow> string" where
  "FormatUint i = dec_digits (unat i)"

fun undigits :: "nat \<Rightarrow> string \<Rightarrow> nat" where
  "undigits a [] = a"
| "undigits a (c # cs) = undigits (10 * a + (of_char c - 48)) cs"

lemma undigits_append: "undigits a (xs @ ys) = undigits (undigits a xs) ys"
  by (induction xs arbitrary: a) auto

lemma of_digit_char: "d < 10 \<Longrightarrow> of_char (digit_char d) = 48 + d"
  by (simp add: digit_char_def)

lemma undigits_dec_digits: "undigits 0 (dec_digits n) = n"
proof (induction n rule: dec_digits.induct)
  case (1 n)
  then show ?case
    by (cases "n < 10") (auto simp: dec_digits.simps [of n] undigits_append of_digit_char)
qed

lemma dec_digits_inject [simp]: "dec_digits m = dec_digits n \<longleftrightarrow> m = n"
  by (metis undigits_dec_digits)

lemma FormatUint_inject [simp]: "FormatUint i = FormatUint j \<longleftrightarrow> i = j"
  by (simp add: FormatUint_def word_unat_eq_iff)

lemma set_dec_digits: "c \<in> set (dec_digits n) \<Longrightarrow> c \<in> digit_char ` {..<10}"
proof (induction n rule: dec_digits.induct)
  case (1 n)
  then show ?case
    by (cases "n < 10") (auto simp: dec_digits.simps [of n])
qed

subsection \<open>Outcomes of handlers\<close>

text \<open>
  What a handler leaves behind: the state with its result, or the state at the moment a run-time
  panic stopped it.
\<close>

datatype ('s, 'a) outcome = Done 's 'a | Panicked 's

fun out_state :: "('s, 'a) outcome \<Rightarrow> 's" where
  "out_state (Done s _) = s"
| "out_state (Panicked s) = s"

subsection \<open>Retry loops\<close>

text \<open>
  \<open>for { err = f(); if err == nil { break } }\<close>: attempt \<open>n\<close>, \<open>n + 1\<close>, ... until one succeeds.
  The result is the number of the successful attempt, \<open>None\<close> when the loop never ends.
\<close>

partial_function (option) retry_from :: "(nat \<Rightarrow> bool) \<Rightarrow> nat \<Rightarrow> nat option" where
  "retry_from fails n = (if fails n then retry_from fails (Suc n) else Some n)"

lemma retry_from_ok [simp]: "\<not> fails n \<Longrightarrow> retry_from fails n = Some n"
  by (subst retry_from.simps) simp

lemma retry_from_returns:
  assumes "\<not> fails (n + k)"
  shows "\<exists>m. retry_from fails n = Some m \<and> n \<le> m \<and> m \<le> n + k \<and> \<not> fails m"
  using assms
proof (induction k arbitrary: n)
  case 0
  then show ?case by auto
next
  case (Suc k)
  show ?case
  proof (cases "fails n")
    case True
    from Suc.IH [of "Suc n"] Suc.prems
    obtain m where "retry_from fails (Suc n) = Some m" "Suc n \<le> m" "m \<le> Suc n + k" "\<not> fails m"
      by auto
    with True show ?thesis
      by (subst retry_from.simps) (auto intro!: exI [of _ m])
  next
    case False
    then show ?thesis by auto
  qed
qed

end
