(* ===== verification/OsFile.thy ===== *)
theory OsFile
  imports Prelude
begin

text \<open>
  The operating-system files a DataNode works on, as the Go package \<open>os\<close> presents them: a file is
  its byte contents, a disk maps path names to files. Every call may fail for reasons outside the
  program; the faults are an argument, numbered by the calls of one handler.
\<close>

type_synonym disk = "string \<rightharpoonup> byte list"

text \<open>
  \<open>write_err n = Some k\<close>: the \<open>n\<close>-th positional write of the handler fails after \<open>k\<close> bytes.
  \<open>open_err\<close>: opening an existing file fails (with an error other than \<open>fs.ErrNotExist\<close>).
\<close>

record os_faults =
  open_err :: bool
  create_err :: "nat \<Rightarrow> bool"
  write_err :: "nat \<Rightarrow> nat option"
  remove_err :: bool

definition no_faults :: os_faults where
  "no_faults = \<lparr>open_err = False, create_err = (\<lambda>_. False), write_err = (\<lambda>_. None),
     remove_err = False\<rparr>"

lemma no_faults_sel [simp]:
  "open_err no_faults = False" "create_err no_faults n = False"
  "write_err no_faults n = None" "remove_err no_faults = False"
  by (simp_all add: no_faults_def)

subsection \<open>Positional reads and writes\<close>

text \<open>Writing past the end of a file leaves a hole that reads as zero bytes.\<close>

definition pwrite :: "byte list \<Rightarrow> nat \<Rightarrow> byte list \<Rightarrow> byte list" where
  "pwrite f off data =
     (if data = [] then f else overwrite (f @ replicate (off - length f) 0) off data)"

text \<open>\<open>(*os.File).WriteAt\<close>; the offset is an \<open>int64\<close>, a negative one is an error.\<close>

definition WriteAt :: "os_faults \<Rightarrow> nat \<Rightarrow> byte list \<Rightarrow> byte list \<Rightarrow> i64 \<Rightarrow> byte list \<times> bool" where
  "WriteAt fl n f data off =
     (if sint off < 0 then (f, False)
      else case write_err fl n of
        None \<Rightarrow> (pwrite f (unat off) data, True)
      | Some k \<Rightarrow> (pwrite f (unat off) (take k data), False))"

text \<open>
  \<open>(*os.File).ReadAt\<close> into a fresh zeroed buffer of \<open>n\<close> bytes: the buffer, and whether all of it
  was read.
\<close>

definition ReadAt :: "byte list \<Rightarrow> nat \<Rightarrow> i64 \<Rightarrow> byte list \<times> bool" where
  "ReadAt f n off =
     (if sint off < 0 then (replicate n 0, False)
      else let got = take n (drop (unat off) f)
           in (got @ replicate (n - length got) 0, length got = n))"

lemma pwrite_Nil [simp]: "pwrite f off [] = f"
  by (simp add: pwrite_def)

lemma pwrite_inside:
  "off + length data \<le> length f \<Longrightarrow> pwrite f off data = overwrite f off data"
  by (cases "data = []") (auto simp: pwrite_def overwrite_def)

lemma pwrite_fresh: "pwrite [] 0 data = data"
  by (simp add: pwrite_def overwrite_def)

lemma pwrite_at_end: "pwrite f (length f) data = f @ data"
  by (simp add: pwrite_def overwrite_def)

lemma length_pwrite:
  "length (pwrite f off data) = (if data = [] then length f else max (length f) (off + length data))"
  by (auto simp: pwrite_def overwrite_def)

lemma ReadAt_inside:
  assumes "0 \<le> sint off" "unat off + n \<le> length f"
  shows "ReadAt f n off = (take n (drop (unat off) f), True)"
  using assms by (simp add: ReadAt_def)

lemma length_fst_ReadAt [simp]: "length (fst (ReadAt f n off)) = n"
  by (auto simp: ReadAt_def Let_def)

lemma WriteAt_ok [simp]:
  "write_err fl n = None \<Longrightarrow> 0 \<le> sint off \<Longrightarrow> WriteAt fl n f data off = (pwrite f (unat off) data, True)"
  by (simp add: WriteAt_def)

text \<open>Reading back what was written, inside or past the old end of the file.\<close>

lemma ReadAt_pwrite_same:
  assumes "0 \<le> sint off"
  shows "ReadAt (pwrite f (unat off) data) (length data) off = (data, True)"
proof (cases "data = []")
  case True
  with assms show ?thesis by (simp add: ReadAt_def)
next
  case False
  let ?f = "f @ replicate (unat off - length f) 0"
  have "take (length data) (drop (unat off) (overwrite ?f (unat off) data)) = data"
    by (rule overwrite_read_same) simp
  with False assms show ?thesis
    by (simp add: ReadAt_def pwrite_def Let_def)
qed

text \<open>
  \<open>for { _, err = file.WriteAt(data, off); if err == nil { break } }\<close>: retries from attempt \<open>n\<close>
  until a write succeeds; \<open>None\<close> when no attempt ever does.
\<close>

partial_function (option) write_loop ::
  "os_faults \<Rightarrow> nat \<Rightarrow> byte list \<Rightarrow> byte list \<Rightarrow> i64 \<Rightarrow> (nat \<times> byte list) option" where
  "write_loop fl n f data off =
     (case WriteAt fl n f data off of
        (f', ok) \<Rightarrow> if ok then Some (Suc n, f') else write_loop fl (Suc n) f' data off)"

lemma write_loop_ok [simp]:
  "write_err fl n = None \<Longrightarrow> 0 \<le> sint off \<Longrightarrow>
   write_loop fl n f data off = Some (Suc n, pwrite f (unat off) data)"
  by (subst write_loop.simps) simp

text \<open>
  The loop ends once an attempt succeeds, and whatever the failed attempts wrote is overwritten:
  the result is the file with the data at the offset, if the offset is inside it.
\<close>

lemma write_loop_returns:
  assumes "write_err fl (n + j) = None" "0 \<le> sint off" "unat off \<le> length f"
  shows "\<exists>m. write_loop fl n f data off = Some (m, pwrite f (unat off) data)"
  using assms
proof (induction j arbitrary: n f)
  case 0
  then show ?case by simp
next
  case (Suc j)
  show ?case
  proof (cases "write_err fl n")
    case None
    with Suc.prems show ?thesis by simp
  next
    case (Some k)
    let ?f = "pwrite f (unat off) (take k data)"
    have "unat off \<le> length ?f" using Suc.prems(3) by (auto simp: length_pwrite le_max_iff_disj)
    from Suc.IH [of "Suc n" ?f] this Suc.prems obtain m where
      "write_loop fl (Suc n) ?f data off = Some (m, pwrite ?f (unat off) data)" by auto
    moreover have "pwrite ?f (unat off) data = pwrite f (unat off) data"
      using Suc.prems(3) by (auto simp: pwrite_def overwrite_def min_def add.commute)
    ultimately show ?thesis
      using Some Suc.prems(2) by (subst write_loop.simps) (auto simp: WriteAt_def)
  qed
qed

subsection \<open>Path names\<close>

fun split_on :: "char \<Rightarrow> string \<Rightarrow> string list" where
  "split_on c [] = [[]]"
| "split_on c (x # xs) =
     (if x = c then [] # split_on c xs
      else case split_on c xs of [] \<Rightarrow> [[x]] | y # ys \<Rightarrow> (x # y) # ys)"

fun join_with :: "string \<Rightarrow> string list \<Rightarrow> string" where
  "join_with sep [] = []"
| "join_with sep [x] = x"
| "join_with sep (x # y # zs) = x @ sep @ join_with sep (y # zs)"

fun clean_step :: "bool \<Rightarrow> string list \<Rightarrow> string \<Rightarrow> string list" where
  "clean_step rooted st c =
     (if c = [] \<or> c = ''.'' then st
      else if c = ''..'' then
        (if st \<noteq> [] \<and> hd st \<noteq> ''..'' then tl st else if rooted then st else c # st)
      else c # st)"

text \<open>\<open>path.Clean\<close>: the stack of kept components, innermost first, and its rendering.\<close>

definition path_Clean :: "string \<Rightarrow> string" where
  "path_Clean p =
     (let rooted = (p \<noteq> [] \<and> hd p = CHR ''/'');
          st = foldl (clean_step rooted) [] (split_on CHR ''/'' p);
          body = join_with ''/'' (rev st)
      in if rooted then ''/'' @ body else if body = [] then ''.'' else body)"

text \<open>\<open>path.Join(a, b)\<close>; empty elements are ignored.\<close>

definition path_Join :: "string \<Rightarrow> string \<Rightarrow> string" where
  "path_Join a b =
     (if a = [] \<and> b = [] then []
      else if a = [] then path_Clean b
      else if b = [] then path_Clean a
      else path_Clean (a @ ''/'' @ b))"

lemma split_on_ne [simp]: "split_on c xs \<noteq> []"
  by (induction xs) (auto split: list.splits)

lemma split_on_notin: "c \<notin> set xs \<Longrightarrow> split_on c xs = [xs]"
  by (induction xs) auto

lemma split_on_sep: "split_on c (xs @ c # ys) = split_on c xs @ split_on c ys"
  by (induction xs) (auto split: list.splits simp: neq_Nil_conv)

lemma join_with_snoc:
  "join_with sep (xs @ [y]) = (if xs = [] then y else join_with sep xs @ sep @ y)"
  by (induction sep xs rule: join_with.induct) auto

text \<open>A plain last component survives cleaning, so it can be read off the result.\<close>

definition plain_component :: "string \<Rightarrow> bool" where
  "plain_component c \<longleftrightarrow> c \<noteq> [] \<and> c \<noteq> ''.'' \<and> c \<noteq> ''..'' \<and> CHR ''/'' \<notin> set c"

lemma path_Join_plain:
  assumes "plain_component c"
  shows "\<exists>pre. (pre = [] \<or> last pre = CHR ''/'') \<and> (\<forall>c'. plain_component c' \<longrightarrow> path_Join a c' = pre @ c')"
proof (cases "a = []")
  case True
  have "path_Join a c' = c'" if "plain_component c'" for c'
    using that True
    by (auto simp: path_Join_def path_Clean_def plain_component_def split_on_notin Let_def neq_Nil_conv)
  then show ?thesis by (intro exI [of _ "[]"]) simp
next
  case False
  define rooted where "rooted = (hd a = CHR ''/'')"
  define st where "st = foldl (clean_step rooted) [] (split_on CHR ''/'' a)"
  define pre where "pre = (if rooted then ''/'' else []) @
     (if st = [] then [] else join_with ''/'' (rev st) @ ''/'')"
  have "path_Join a c' = pre @ c'" if "plain_component c'" for c'
  proof -
    have "split_on CHR ''/'' (a @ ''/'' @ c') = split_on CHR ''/'' a @ [c']"
      using that by (simp add: split_on_sep split_on_notin plain_component_def)
    moreover have "foldl (clean_step rooted) [] (split_on CHR ''/'' a @ [c']) = c' # st"
      using that by (simp add: st_def plain_component_def)
    moreover have "(a @ ''/'' @ c' \<noteq> [] \<and> hd (a @ ''/'' @ c') = CHR ''/'') = rooted"
      using False by (simp add: rooted_def)
    moreover have "c' \<noteq> []" using that by (simp add: plain_component_def)
    ultimately show ?thesis
      using False unfolding path_Join_def path_Clean_def Let_def pre_def
      by (simp only: join_with_snoc rev.simps) simp
  qed
  moreover have "pre = [] \<or> last pre = CHR ''/''"
    by (simp add: pre_def)
  ultimately show ?thesis by blast
qed

lemma path_Join_inject:
  assumes "plain_component c" "plain_component d"
  shows "path_Join a c = path_Join a d \<longleftrightarrow> c = d"
  using path_Join_plain [OF assms(1), of a] assms by (metis append_same_eq same_append_eq)

end
