(* ===== verification/DataUtils.thy ===== *)
theory DataUtils
  imports OsFile
begin

text \<open>
  \<open>sheetfs/config\<close>, \<open>datanode/utils\<close>, \<open>datanode/buffmgr\<close> and \<open>datanode/journal\<close>: the constants of
  the chunk layout, the big-endian codecs, the padding helpers, the version field of a chunk file,
  and the journal entries of a DataNode.
\<close>

subsection \<open>Constants\<close>

definition BLOCK_SIZE :: u64 where "BLOCK_SIZE = push_bit 10 2"
definition FILE_SIZE :: u64 where "FILE_SIZE = push_bit 2 BLOCK_SIZE"
definition VERSION_START_LOCATION :: i64 where "VERSION_START_LOCATION = push_bit 2 BLOCK_SIZE"
definition ACK_MOST_TIMES :: nat where "ACK_MOST_TIMES = 5"
definition WRITE_LOG_FLAG :: u64 where "WRITE_LOG_FLAG = 1"
definition DELETE_LOG_FLAG :: u64 where "DELETE_LOG_FLAG = 2"

lemma layout_values [layout_simps]:
  "BLOCK_SIZE = 2048" "FILE_SIZE = 8192" "VERSION_START_LOCATION = 8192"
  by (simp_all add: BLOCK_SIZE_def FILE_SIZE_def VERSION_START_LOCATION_def)

subsection \<open>Byte codecs\<close>

text \<open>
  A fixed-width codec, as a journal entry uses it: the encoding has a fixed length, and decoding
  reads that many bytes and panics on a shorter slice.
\<close>

locale byte_codec =
  fixes enc :: "'a \<Rightarrow> byte list" and dec :: "byte list \<Rightarrow> 'a option" and width :: nat
  assumes length_enc: "length (enc x) = width"
    and dec_enc: "dec (enc x) = Some x"
    and dec_short: "length bs < width \<Longrightarrow> dec bs = None"
    and dec_long: "width \<le> length bs \<Longrightarrow> \<exists>x. dec bs = Some x"
begin

lemma enc_inject: "enc x = enc y \<longleftrightarrow> x = y"
  using dec_enc by (metis option.inject)

text \<open>A field that follows a prefix of known length is read back by slicing the entry.\<close>

lemma field_at:
  assumes "length pre = n"
  shows "go_slice n (n + width) (pre @ enc x @ post) = Some (enc x)"
  using assms by (simp add: go_slice_def length_enc)

lemma dec_field_at:
  assumes "length pre = n"
  shows "Option.bind (go_slice n (n + width) (pre @ enc x @ post)) dec = Some x"
  using field_at [OF assms] by (simp add: dec_enc)

end

definition Uint64ToBytes :: "u64 \<Rightarrow> byte list" where
  "Uint64ToBytes i =
     [ucast (drop_bit 56 i), ucast (drop_bit 48 i), ucast (drop_bit 40 i), ucast (drop_bit 32 i),
      ucast (drop_bit 24 i), ucast (drop_bit 16 i), ucast (drop_bit 8 i), ucast i]"

text \<open>\<open>binary.BigEndian.Uint64\<close>: an index panic on fewer than eight bytes, the first eight otherwise.\<close>

fun BytesToUint64 :: "byte list \<Rightarrow> u64 option" where
  "BytesToUint64 (b0 # b1 # b2 # b3 # b4 # b5 # b6 # b7 # _) =
     Some (ucast b7 OR push_bit 8 (ucast b6) OR push_bit 16 (ucast b5) OR push_bit 24 (ucast b4) OR
       push_bit 32 (ucast b3) OR push_bit 40 (ucast b2) OR push_bit 48 (ucast b1) OR push_bit 56 (ucast b0))"
| "BytesToUint64 _ = None"

definition Uint32ToBytes :: "u32 \<Rightarrow> byte list" where
  "Uint32ToBytes i = [ucast (drop_bit 24 i), ucast (drop_bit 16 i), ucast (drop_bit 8 i), ucast i]"

fun BytesToUint32 :: "byte list \<Rightarrow> u32 option" where
  "BytesToUint32 (b0 # b1 # b2 # b3 # _) =
     Some (ucast b3 OR push_bit 8 (ucast b2) OR push_bit 16 (ucast b1) OR push_bit 24 (ucast b0))"
| "BytesToUint32 _ = None"

text \<open>One byte at a time: the bits below \<open>k\<close> together with the byte at \<open>k\<close> are the bits below \<open>k + 8\<close>.\<close>

lemma byte_step:
  fixes i :: "'a::len word"
  shows "take_bit k i OR push_bit k (ucast (ucast (drop_bit k i) :: byte)) = take_bit (k + 8) i"
  by (rule bit_word_eqI) (auto simp: bit_simps)

lemma byte_first:
  fixes i :: "'a::len word"
  shows "ucast (ucast i :: byte) = take_bit 8 i"
  by (rule bit_word_eqI) (auto simp: bit_simps)

lemma BytesToUint64_Uint64ToBytes: "BytesToUint64 (Uint64ToBytes i) = Some i"
proof -
  have "take_bit 64 i = i" by (rule bit_word_eqI) (auto simp: bit_simps)
  then show ?thesis
    using byte_step [of 8 i] byte_step [of 16 i] byte_step [of 24 i] byte_step [of 32 i]
      byte_step [of 40 i] byte_step [of 48 i] byte_step [of 56 i]
    by (simp add: Uint64ToBytes_def byte_first flip: or.assoc)
qed

lemma BytesToUint32_Uint32ToBytes: "BytesToUint32 (Uint32ToBytes i) = Some i"
proof -
  have "take_bit 32 i = i" by (rule bit_word_eqI) (auto simp: bit_simps)
  then show ?thesis
    using byte_step [of 8 i] byte_step [of 16 i] byte_step [of 24 i]
    by (simp add: Uint32ToBytes_def byte_first flip: or.assoc)
qed

interpretation u64: byte_codec Uint64ToBytes BytesToUint64 8
proof
  show "length (Uint64ToBytes x) = 8" for x by (simp add: Uint64ToBytes_def)
  show "BytesToUint64 (Uint64ToBytes x) = Some x" for x by (rule BytesToUint64_Uint64ToBytes)
  show "length bs < 8 \<Longrightarrow> BytesToUint64 bs = None" for bs
    by (cases bs rule: BytesToUint64.cases) auto
  show "8 \<le> length bs \<Longrightarrow> \<exists>x. BytesToUint64 bs = Some x" for bs
    by (cases bs rule: BytesToUint64.cases) auto
qed

interpretation u32: byte_codec Uint32ToBytes BytesToUint32 4
proof
  show "length (Uint32ToBytes x) = 4" for x by (simp add: Uint32ToBytes_def)
  show "BytesToUint32 (Uint32ToBytes x) = Some x" for x by (rule BytesToUint32_Uint32ToBytes)
  show "length bs < 4 \<Longrightarrow> BytesToUint32 bs = None" for bs
    by (cases bs rule: BytesToUint32.cases) auto
  show "4 \<le> length bs \<Longrightarrow> \<exists>x. BytesToUint32 bs = Some x" for bs
    by (cases bs rule: BytesToUint32.cases) auto
qed

lemmas [codec_simps] = u64.length_enc u64.dec_enc u32.length_enc u32.dec_enc

subsection \<open>Padding\<close>

definition MIN64 :: "u64 \<Rightarrow> u64 \<Rightarrow> u64" where
  "MIN64 a b = (if a < b then a else b)"

definition TargetSizeWrapper :: "u64 \<Rightarrow> u64" where
  "TargetSizeWrapper targetSize = (if targetSize = 0 then BLOCK_SIZE else targetSize)"

text \<open>
  \<open>GetPaddedBytes\<close> panics on an empty padding string and on a length that is no \<open>int\<close>; the loop
  that stores the padding byte at every index is \<open>replicate\<close>.
\<close>

definition GetPaddedBytes :: "string \<Rightarrow> u64 \<Rightarrow> byte list option" where
  "GetPaddedBytes s sz =
     (case s of
        [] \<Rightarrow> None
      | c # _ \<Rightarrow> if sint sz < 0 then None else Some (replicate (unat sz) (of_char c)))"

definition GetPaddedData :: "byte list \<Rightarrow> u64 \<Rightarrow> u64 \<Rightarrow> string \<Rightarrow> byte list option" where
  "GetPaddedData data sz targetSize padding =
     (let writtenSize = MIN64 sz (TargetSizeWrapper targetSize)
      in case GetPaddedBytes padding (TargetSizeWrapper targetSize) of
           None \<Rightarrow> None
         | Some paddedData \<Rightarrow> go_copy_into paddedData 0 (unat writtenSize) data)"

definition GetPaddedFile :: "byte list \<Rightarrow> u64 \<Rightarrow> u64 \<Rightarrow> string \<Rightarrow> u64 \<Rightarrow> byte list option" where
  "GetPaddedFile data sz targetSize padding off =
     (case GetPaddedBytes padding FILE_SIZE of
        None \<Rightarrow> None
      | Some paddedData \<Rightarrow>
          let targetSize' = (if targetSize = 0 then BLOCK_SIZE else targetSize);
              writtenSize = MIN64 sz targetSize'
          in go_copy_into paddedData (unat off) (unat (off + writtenSize)) data)"

lemma unat_MIN64: "unat (MIN64 a b) = min (unat a) (unat b)"
  by (auto simp: MIN64_def word_less_nat_alt)

text \<open>The padded block: as much of the data as size and target allow, then the padding byte.\<close>

definition pad_block :: "byte list \<Rightarrow> nat \<Rightarrow> nat \<Rightarrow> byte \<Rightarrow> byte list" where
  "pad_block data sz target c =
     take (min sz target) data @ replicate (target - min (length data) (min sz target)) c"

lemma length_pad_block [simp]: "length (pad_block data sz target c) = target"
  by (simp add: pad_block_def)

lemma GetPaddedData_eq:
  assumes "padding = c # cs" "0 \<le> sint (TargetSizeWrapper targetSize)"
  shows "GetPaddedData data sz targetSize padding =
     Some (pad_block data (unat sz) (unat (TargetSizeWrapper targetSize)) (of_char c))"
proof -
  let ?T = "unat (TargetSizeWrapper targetSize)"
  let ?w = "min (unat sz) ?T"
  have "go_copy_into (replicate ?T (of_char c)) 0 ?w data =
     Some (take ?w data @ replicate (?w - length data) (of_char c) @ replicate (?T - ?w) (of_char c))"
    by (simp add: go_copy_into_def go_slice_def go_copy_def)
  also have "replicate (?w - length data) (of_char c) @ replicate (?T - ?w) (of_char c) =
     replicate (?T - min (length data) ?w) (of_char c :: byte)"
    by (simp add: min_def flip: replicate_add)
  finally show ?thesis
    using assms by (simp add: GetPaddedData_def GetPaddedBytes_def unat_MIN64 pad_block_def Let_def)
qed

lemma GetPaddedData_panics [simp]: "GetPaddedData data sz targetSize [] = None"
  by (simp add: GetPaddedData_def GetPaddedBytes_def)

lemma length_GetPaddedData:
  assumes "GetPaddedData data sz targetSize padding = Some d"
  shows "length d = unat (TargetSizeWrapper targetSize)"
  using assms length_go_copy_into
  by (fastforce simp: GetPaddedData_def GetPaddedBytes_def Let_def split: list.splits if_splits)

text \<open>
  The initial contents of a chunk file: the padding byte everywhere, the data at its offset. The
  slice expression panics exactly when the written range does not fit in the data area; a sum of
  offset and size that wraps around is below the offset and panics too.
\<close>

lemma GetPaddedFile_eq:
  assumes "padding = c # cs"
    and w_def: "w = min (unat sz) (unat (TargetSizeWrapper targetSize))"
  shows "GetPaddedFile data sz targetSize padding off =
     (if unat off + w \<le> 8192
      then Some (overwrite (replicate 8192 (of_char c)) (unat off) (take w data)) else None)"
proof -
  let ?W = "MIN64 sz (TargetSizeWrapper targetSize)"
  have w: "unat ?W = w" by (simp add: unat_MIN64 w_def)
  have wrap: "unat (off + ?W) = (if unat off + w < 2 ^ 64 then unat off + w else unat off + w - 2 ^ 64)"
    by (simp add: unat_plus_if_size w word_size)
  have wlt: "w < 2 ^ 64" using unat_lt64 [of ?W] w by simp
  have slice: "(unat off \<le> unat (off + ?W) \<and> unat (off + ?W) \<le> 8192) = (unat off + w \<le> 8192)"
    using wlt unat_lt64 [of off] by (auto simp: wrap)
  have eq: "GetPaddedFile data sz targetSize padding off =
      go_copy_into (replicate 8192 (of_char c)) (unat off) (unat (off + ?W)) data"
    using assms(1)
    by (simp add: GetPaddedFile_def GetPaddedBytes_def TargetSizeWrapper_def layout_simps)
  show ?thesis
  proof (cases "unat off + w \<le> 8192")
    case True
    then have "unat (off + ?W) = unat off + w" by (simp add: wrap)
    with True show ?thesis
      by (auto simp: eq go_copy_into_def go_slice_def go_copy_def overwrite_def min_def add.commute
            simp flip: replicate_add)
  next
    case False
    then show ?thesis by (simp add: eq go_copy_into_def go_slice_None slice)
  qed
qed

subsection \<open>The version field\<close>

text \<open>The write of the version ignores its error, as the code does.\<close>

definition SyncAndUpdateVersion :: "os_faults \<Rightarrow> nat \<Rightarrow> byte list \<Rightarrow> u64 \<Rightarrow> byte list" where
  "SyncAndUpdateVersion fl n f version =
     fst (WriteAt fl n f (Uint64ToBytes version) VERSION_START_LOCATION)"

definition GetVersion :: "byte list \<Rightarrow> u64 option" where
  "GetVersion f = BytesToUint64 (fst (ReadAt f 8 VERSION_START_LOCATION))"

text \<open>The buffer always has eight bytes, so reading the version never panics.\<close>

lemma GetVersion_total: "\<exists>v. GetVersion f = Some v"
  unfolding GetVersion_def by (rule u64.dec_long) simp

lemma GetVersion_SyncAndUpdateVersion:
  assumes "write_err fl n = None"
  shows "GetVersion (SyncAndUpdateVersion fl n f v) = Some v"
proof -
  have "ReadAt (pwrite f (unat VERSION_START_LOCATION) (Uint64ToBytes v)) (length (Uint64ToBytes v))
      VERSION_START_LOCATION = (Uint64ToBytes v, True)"
    by (rule ReadAt_pwrite_same) (simp add: layout_simps)
  with assms show ?thesis
    by (simp add: GetVersion_def SyncAndUpdateVersion_def codec_simps layout_simps)
qed

lemma GetVersion_empty [simp]: "length f \<le> 8192 \<Longrightarrow> GetVersion f = Some 0"
proof -
  have "BytesToUint64 (replicate 8 0) = Some 0" by (simp add: numeral_eq_Suc)
  then show "length f \<le> 8192 \<Longrightarrow> ?thesis" by (simp add: GetVersion_def ReadAt_def layout_simps)
qed

subsection \<open>Checksums\<close>

definition Crc32q_poly :: u32 where "Crc32q_poly = 0xD5828281"

text \<open>One table entry of \<open>crc32.MakeTable\<close>, and \<open>crc32.Checksum\<close> for a simple table.\<close>

definition crc_bit :: "u32 \<Rightarrow> u32" where
  "crc_bit crc = (if crc AND 1 = 1 then drop_bit 1 crc XOR Crc32q_poly else drop_bit 1 crc)"

definition Crc32q :: "byte \<Rightarrow> u32" where
  "Crc32q i = (crc_bit ^^ 8) (ucast i)"

definition crc32_Checksum :: "byte list \<Rightarrow> u32" where
  "crc32_Checksum data =
     NOT (foldl (\<lambda>crc v. Crc32q (ucast crc XOR v) XOR drop_bit 8 crc) (NOT 0) data)"

subsection \<open>Requests and journal entries\<close>

record WriteChunkRequest =
  wr_Id :: u64
  wr_Offset :: u64
  wr_Size :: u64
  wr_TargetSize :: u64
  wr_Version :: u64
  wr_Padding :: string
  wr_Data :: "byte list"

record ReadChunkRequest =
  rd_Id :: u64
  rd_Offset :: u64
  rd_Size :: u64
  rd_Version :: u64

record DeleteChunkRequest =
  del_Id :: u64

definition ConstructWriteEntry :: "WriteChunkRequest \<Rightarrow> byte list \<Rightarrow> byte list" where
  "ConstructWriteEntry request paddedData =
     Uint64ToBytes WRITE_LOG_FLAG @ Uint64ToBytes (wr_Version request) @
     Uint64ToBytes (wr_Id request) @ Uint64ToBytes (wr_Offset request) @
     Uint64ToBytes (word_of_nat (length paddedData)) @
     Uint32ToBytes (crc32_Checksum paddedData) @ paddedData"

definition ConstructDeleteEntry :: "DeleteChunkRequest \<Rightarrow> byte list" where
  "ConstructDeleteEntry request = Uint64ToBytes DELETE_LOG_FLAG @ Uint64ToBytes (del_Id request)"

end
