(* ===== verification/CommonJournal.thy ===== *)
theory CommonJournal
  imports Prelude
begin

text \<open>
  \<open>sheetfs/common_journal\<close>: the \<open>Writer\<close> a primary commits journal entries with and the
  \<open>Receiver\<close> a secondary fetches them with. The Kafka client is an argument of the operations
  (\<open>kafka\<close> for the producer side, \<open>kreader\<close> for the consumer side), and so are the generated
  protobuf functions for the checkpoint message. Offsets are Kafka offsets, far below the range of
  \<open>int64\<close>, and are kept as integers.
\<close>

subsection \<open>The Kafka client\<close>

datatype kafka_error = Canceled | KafkaFailure string

text \<open>
  \<open>k_write\<close>: one synchronous \<open>WriteMessages\<close> of a single message (\<open>BatchSize: 1\<close>,
  \<open>Async: false\<close>); the offset the broker assigned to the message, or the error.
\<close>

record 'k kafka =
  k_write :: "'k \<Rightarrow> string \<Rightarrow> byte list \<Rightarrow> 'k \<times> (kafka_error + int)"

record 'r kreader =
  kr_read :: "'r \<Rightarrow> 'r \<times> (kafka_error + string \<times> byte list)"
  kr_lag :: "'r \<Rightarrow> kafka_error + int"
  kr_set_offset :: "'r \<Rightarrow> int \<Rightarrow> 'r \<times> kafka_error option"

text \<open>
  The guarantee the code relies on, over the partition's log of (key, value) messages: an
  acknowledged message is the last one of the log and its offset is its position there; a message
  whose write failed may or may not have reached the log.
\<close>

definition kafka_log_ok :: "'k kafka \<Rightarrow> ('k \<Rightarrow> (string \<times> byte list) list) \<Rightarrow> bool" where
  "kafka_log_ok K plog \<longleftrightarrow>
     (\<forall>k key v. case k_write K k key v of
        (k', Inr off) \<Rightarrow> plog k' = plog k @ [(key, v)] \<and> off = int (length (plog k))
      | (k', Inl _) \<Rightarrow> plog k' = plog k \<or> plog k' = plog k @ [(key, v)])"

subsection \<open>Writer\<close>

record Checkpoint =
  LastEntryOffset :: int
  NextEntryOffset :: int

record Writer =
  lastWriteOffset :: int
  entriesKey :: string
  checkpointsKey :: string

text \<open>\<open>NewWriter\<close>; \<open>topic_err\<close> is the outcome of \<open>ensureJournalTopicCreated\<close>.\<close>

definition NewWriter :: "string \<Rightarrow> kafka_error option \<Rightarrow> kafka_error + Writer" where
  "NewWriter topic topic_err =
     (case topic_err of
        Some e \<Rightarrow> Inl e
      | None \<Rightarrow> Inr \<lparr>lastWriteOffset = 0, entriesKey = topic @ ''-entries'',
                    checkpointsKey = topic @ ''-ckpts''\<rparr>)"

text \<open>The \<open>Completion\<close> callback of the Kafka writer.\<close>

definition Completion :: "Writer \<Rightarrow> int list \<Rightarrow> kafka_error option \<Rightarrow> Writer" where
  "Completion w offs err =
     (if err \<noteq> None \<or> offs = [] then w
      else if lastWriteOffset w < last offs then w\<lparr>lastWriteOffset := last offs\<rparr>
      else w)"

definition WriteMessages ::
  "'k kafka \<Rightarrow> Writer \<Rightarrow> 'k \<Rightarrow> string \<Rightarrow> byte list \<Rightarrow> Writer \<times> 'k \<times> kafka_error option" where
  "WriteMessages K w k key v =
     (case k_write K k key v of
        (k', Inl e) \<Rightarrow> (Completion w [] (Some e), k', Some e)
      | (k', Inr off) \<Rightarrow> (Completion w [off] None, k', None))"

definition CommitEntry ::
  "'k kafka \<Rightarrow> Writer \<Rightarrow> 'k \<Rightarrow> byte list \<Rightarrow> Writer \<times> 'k \<times> kafka_error option" where
  "CommitEntry K w k entry = WriteMessages K w k (entriesKey w) entry"

definition PrepareCheckpoint :: "Writer \<Rightarrow> int" where
  "PrepareCheckpoint w = lastWriteOffset w"

definition Writer_Checkpoint ::
  "'k kafka \<Rightarrow> (Checkpoint \<Rightarrow> byte list) \<Rightarrow> Writer \<Rightarrow> 'k \<Rightarrow> Writer \<times> 'k \<times> int \<times> kafka_error option" where
  "Writer_Checkpoint K marshal w k =
     (let ckptOffset = lastWriteOffset w + 1;
          ckpt = \<lparr>LastEntryOffset = ckptOffset - 1, NextEntryOffset = ckptOffset + 1\<rparr>;
          (w', k', err) = WriteMessages K w k (checkpointsKey w) (marshal ckpt)
      in (w', k', NextEntryOffset ckpt, err))"

text \<open>
  The loop of the DataNode handlers, \<open>for i := 0; i < ACK_MOST_TIMES; i++\<close> around
  \<open>CommitEntry\<close>, stopping at the first success; the error is the one of the last attempt.
\<close>

fun commit_retry ::
  "nat \<Rightarrow> 'k kafka \<Rightarrow> Writer \<Rightarrow> 'k \<Rightarrow> byte list \<Rightarrow> kafka_error option \<Rightarrow> Writer \<times> 'k \<times> kafka_error option" where
  "commit_retry 0 K w k entry err = (w, k, err)"
| "commit_retry (Suc n) K w k entry err =
     (case CommitEntry K w k entry of
        (w', k', None) \<Rightarrow> (w', k', None)
      | (w', k', Some e) \<Rightarrow> commit_retry n K w' k' entry (Some e))"

subsection \<open>Receiver\<close>

datatype fetch_error = FetchKafka kafka_error | FetchUnmarshal | NoMoreMessageError

record Receiver =
  r_entriesKey :: string
  r_checkpointsKey :: string

definition NewReceiver :: "string \<Rightarrow> kafka_error option \<Rightarrow> kafka_error + Receiver" where
  "NewReceiver topic topic_err =
     (case topic_err of
        Some e \<Rightarrow> Inl e
      | None \<Rightarrow> Inr \<lparr>r_entriesKey = topic @ ''-entries'', r_checkpointsKey = topic @ ''-ckpts''\<rparr>)"

definition FetchEntry ::
  "'r kreader \<Rightarrow> (byte list \<Rightarrow> Checkpoint option) \<Rightarrow> Receiver \<Rightarrow> 'r \<Rightarrow>
   'r \<times> (fetch_error + byte list \<times> Checkpoint option)" where
  "FetchEntry R unmarshal r s =
     (case kr_read R s of
        (s', Inl e) \<Rightarrow> (s', Inl (FetchKafka e))
      | (s', Inr (key, v)) \<Rightarrow>
          if key = r_checkpointsKey r then
            (case unmarshal v of
               None \<Rightarrow> (s', Inl FetchUnmarshal)
             | Some ckpt \<Rightarrow> (s', Inr (v, Some ckpt)))
          else (s', Inr (v, None)))"

definition TryFetchEntry ::
  "'r kreader \<Rightarrow> (byte list \<Rightarrow> Checkpoint option) \<Rightarrow> Receiver \<Rightarrow> 'r \<Rightarrow>
   'r \<times> (fetch_error + byte list \<times> Checkpoint option)" where
  "TryFetchEntry R unmarshal r s =
     (case kr_lag R s of
        Inl e \<Rightarrow> (s, Inl (FetchKafka e))
      | Inr lag \<Rightarrow> if lag = 0 then (s, Inl NoMoreMessageError) else FetchEntry R unmarshal r s)"

definition Receiver_SetOffset :: "'r kreader \<Rightarrow> 'r \<Rightarrow> int \<Rightarrow> 'r \<times> kafka_error option" where
  "Receiver_SetOffset R s off = kr_set_offset R s off"

subsection \<open>A broker that satisfies the guarantee\<close>

text \<open>
  An in-memory partition: the log, and a supply of failures (\<open>True\<close>: the next write is lost).
  A reader is the log with a position.
\<close>

type_synonym mem_broker = "(string \<times> byte list) list \<times> bool list"
type_synonym mem_reader = "(string \<times> byte list) list \<times> nat"

definition mem_kafka :: "mem_broker kafka" where
  "mem_kafka = \<lparr>k_write = (\<lambda>(l, fs) key v.
     case fs of True # fs' \<Rightarrow> ((l, fs'), Inl (KafkaFailure ''timeout''))
     | _ \<Rightarrow> ((l @ [(key, v)], tl fs), Inr (int (length l))))\<rparr>"

definition mem_kreader :: "mem_reader kreader" where
  "mem_kreader = \<lparr>
     kr_read = (\<lambda>(l, p). if p < length l then ((l, Suc p), Inr (l ! p)) else ((l, p), Inl Canceled)),
     kr_lag = (\<lambda>(l, p). Inr (int (length l - p))),
     kr_set_offset = (\<lambda>(l, p) off. ((l, nat off), None))\<rparr>"

lemma mem_kafka_log_ok: "kafka_log_ok mem_kafka fst"
  by (auto simp: kafka_log_ok_def mem_kafka_def split: list.splits bool.splits)

subsection \<open>Lemmas on the writer\<close>

lemma WriteMessages_keys:
  assumes "WriteMessages K w k key v = (w', k', err)"
  shows "entriesKey w' = entriesKey w \<and> checkpointsKey w' = checkpointsKey w"
  using assms by (auto simp: WriteMessages_def Completion_def split: prod.splits sum.splits if_splits)

lemma WriteMessages_log:
  assumes "kafka_log_ok K plog" "WriteMessages K w k key v = (w', k', err)"
  shows "plog k' = plog k @ [(key, v)] \<or> err \<noteq> None \<and> plog k' = plog k"
proof -
  have "case k_write K k key v of
        (k', Inr off) \<Rightarrow> plog k' = plog k @ [(key, v)] \<and> off = int (length (plog k))
      | (k', Inl _) \<Rightarrow> plog k' = plog k \<or> plog k' = plog k @ [(key, v)]"
    using assms(1) by (simp add: kafka_log_ok_def)
  with assms(2) show ?thesis
    by (auto simp: WriteMessages_def split: prod.splits sum.splits)
qed

text \<open>
  The writer's offset is exact when it names the last message of the log; this is what
  \<open>Checkpoint\<close> computes from.
\<close>

definition offset_exact :: "Writer \<Rightarrow> 'm list \<Rightarrow> bool" where
  "offset_exact w l \<longleftrightarrow> lastWriteOffset w + 1 = int (length l)"

lemma WriteMessages_ok_offset:
  assumes "kafka_log_ok K plog" "WriteMessages K w k key v = (w', k', None)"
    and "lastWriteOffset w \<le> int (length (plog k))"
  shows "offset_exact w' (plog k')"
proof -
  have "case k_write K k key v of
        (k', Inr off) \<Rightarrow> plog k' = plog k @ [(key, v)] \<and> off = int (length (plog k))
      | (k', Inl _) \<Rightarrow> plog k' = plog k \<or> plog k' = plog k @ [(key, v)]"
    using assms(1) by (simp add: kafka_log_ok_def)
  with assms(2,3) show ?thesis
    by (auto simp: WriteMessages_def Completion_def offset_exact_def split: prod.splits sum.splits)
qed

text \<open>
  A retried commit leaves only copies of its own entry at the end of the log, and at least one
  of them when it reports success.
\<close>

lemma commit_retry_log:
  assumes "kafka_log_ok K plog" "commit_retry n K w k entry e0 = (w', k', err)"
  shows "\<exists>m. plog k' = plog k @ replicate m (entriesKey w, entry) \<and> m \<le> n \<and>
             (err = None \<and> e0 \<noteq> None \<longrightarrow> 0 < m) \<and> (err = None \<and> 0 < n \<longrightarrow> 0 < m) \<and>
             entriesKey w' = entriesKey w"
  using assms(2)
proof (induction n arbitrary: w k e0)
  case 0
  then show ?case by (auto intro: exI [of _ 0])
next
  case (Suc n)
  obtain w1 k1 e1 where c: "CommitEntry K w k entry = (w1, k1, e1)" by (cases "CommitEntry K w k entry")
  note l = WriteMessages_log [OF assms(1) c [unfolded CommitEntry_def]]
  note ks = WriteMessages_keys [OF c [unfolded CommitEntry_def]]
  show ?case
  proof (cases e1)
    case None
    with Suc.prems c l ks show ?thesis by (auto intro!: exI [of _ 1])
  next
    case (Some e)
    with Suc.prems c have "commit_retry n K w1 k1 entry (Some e) = (w', k', err)" by simp
    from Suc.IH [OF this] ks obtain m where
      m: "plog k' = plog k1 @ replicate m (entriesKey w, entry)" "m \<le> n"
         "err = None \<longrightarrow> 0 < m" "entriesKey w' = entriesKey w" by auto
    from l show ?thesis
    proof
      assume "plog k1 = plog k @ [(entriesKey w, entry)]"
      with m show ?thesis by (intro exI [of _ "Suc m"]) auto
    next
      assume "e1 \<noteq> None \<and> plog k1 = plog k"
      with m show ?thesis by (intro exI [of _ m]) auto
    qed
  qed
qed

end
