(* ===== verification/VersionedStore.thy ===== *)
theory VersionedStore
  imports Prelude
begin

text \<open>
  The contract a chunk store offers to its clients: every object carries a version, a write names
  the version it produces, and it is accepted only when that is the successor of the current one.
  The consequences for a whole history of writes are proved here once.
\<close>

fun puts :: "('s \<Rightarrow> 'r \<Rightarrow> 's \<times> bool) \<Rightarrow> 's \<Rightarrow> 'r list \<Rightarrow> 's \<times> 'r list" where
  "puts put s [] = (s, [])"
| "puts put s (r # rs) =
     (case put s r of (s1, ok) \<Rightarrow>
      case puts put s1 rs of (s2, acc) \<Rightarrow> (s2, if ok then r # acc else acc))"

locale versioned_store =
  fixes put :: "'s \<Rightarrow> 'r \<Rightarrow> 's \<times> bool"
    and wf :: "'s \<Rightarrow> bool" and good :: "'r \<Rightarrow> bool"
    and rid :: "'r \<Rightarrow> 'i" and rver :: "'r \<Rightarrow> u64"
    and ver :: "'s \<Rightarrow> 'i \<Rightarrow> u64" and content :: "'s \<Rightarrow> 'i \<Rightarrow> 'c" and upd :: "'c \<Rightarrow> 'r \<Rightarrow> 'c"
  assumes put_wf: "wf s \<Longrightarrow> good r \<Longrightarrow> put s r = (s', ok) \<Longrightarrow> wf s'"
    and put_accept: "wf s \<Longrightarrow> good r \<Longrightarrow> put s r = (s', True) \<Longrightarrow>
      rver r = ver s (rid r) + 1 \<and> ver s' (rid r) = rver r \<and>
      content s' (rid r) = upd (content s (rid r)) r"
    and put_reject: "wf s \<Longrightarrow> good r \<Longrightarrow> put s r = (s', False) \<Longrightarrow>
      ver s' i = ver s i \<and> content s' i = content s i"
    and put_frame: "wf s \<Longrightarrow> good r \<Longrightarrow> put s r = (s', ok) \<Longrightarrow> i \<noteq> rid r \<Longrightarrow>
      ver s' i = ver s i \<and> content s' i = content s i"
begin

lemma puts_wf:
  "wf s \<Longrightarrow> (\<And>r. r \<in> set rs \<Longrightarrow> good r) \<Longrightarrow> puts put s rs = (s', acc) \<Longrightarrow> wf s'"
  by (induction rs arbitrary: s acc) (auto split: prod.splits, metis put_wf)

text \<open>
  The accepted writes of an object carry consecutive versions, and the object is what these
  writes, in this order, make of the initial one.
\<close>

lemma puts_serial:
  assumes "wf s" "\<And>r. r \<in> set rs \<Longrightarrow> good r" "puts put s rs = (s', acc)"
    and mine_def: "mine = filter (\<lambda>r. rid r = i) acc"
  shows "map rver mine = map (\<lambda>k. ver s i + word_of_nat (Suc k)) [0..<length mine] \<and>
         ver s' i = ver s i + word_of_nat (length mine) \<and>
         content s' i = foldl upd (content s i) mine"
  using assms(1-3) unfolding mine_def
proof (induction rs arbitrary: s acc)
  case Nil
  then show ?case by simp
next
  case (Cons r rs)
  obtain s1 ok where p: "put s r = (s1, ok)" by (cases "put s r")
  obtain acc1 where q: "puts put s1 rs = (s', acc1)" and acc: "acc = (if ok then r # acc1 else acc1)"
    using Cons.prems(3) p by (auto split: prod.splits)
  have g: "good r" "wf s1" using Cons.prems put_wf [OF _ _ p] by auto
  let ?m = "filter (\<lambda>r. rid r = i) acc1"
  from Cons.IH [OF g(2) _ q] Cons.prems(2) have
    ih: "map rver ?m = map (\<lambda>k. ver s1 i + word_of_nat (Suc k)) [0..<length ?m]"
        "ver s' i = ver s1 i + word_of_nat (length ?m)" "content s' i = foldl upd (content s1 i) ?m"
    by auto
  show ?case
  proof (cases "ok \<and> rid r = i")
    case True
    with put_accept [OF Cons.prems(1) g(1)] p have
      a: "rver r = ver s i + 1" "ver s1 i = rver r" "content s1 i = upd (content s i) r" by auto
    have "map (\<lambda>k. ver s i + word_of_nat (Suc k)) [0..<Suc n] =
       (ver s i + 1) # map (\<lambda>k. (ver s i + 1) + word_of_nat (Suc k)) [0..<n]" for n
      by (simp add: upt_conv_Cons map_Suc_upt [symmetric] o_def ac_simps del: upt_Suc)
    with True a ih acc show ?thesis by (simp add: ac_simps del: upt_Suc)
  next
    case False
    then have "ver s1 i = ver s i \<and> content s1 i = content s i"
      using put_reject [OF Cons.prems(1) g(1)] put_frame [OF Cons.prems(1) g(1) p] p by (cases ok) auto
    with False ih acc show ?thesis by auto
  qed
qed

text \<open>Two writes of one version of an object: once one is accepted, the other is rejected.\<close>

lemma put_once:
  assumes "wf s" "good r" "good r'" "put s r = (s1, True)" "put s1 r' = (s2, ok)"
    and "rid r' = rid r" "rver r' = rver r"
  shows "\<not> ok"
proof
  assume ok
  with put_accept [OF put_wf [OF assms(1,2,4)] assms(3)] assms(5-7)
  have "rver r = ver s1 (rid r) + 1" by simp
  with put_accept [OF assms(1,2,4)] show False by simp
qed

end

end
