(* ===== verification/Replication.thy ===== *)
theory Replication
  imports Prelude
begin

text \<open>
  The primary-backup contract of both server kinds: a primary journals an operation that changes
  replicated state (\<open>entry\<close>; \<open>None\<close> for an operation that changes none), a secondary applies the
  journal. Kafka may hold several copies of an entry whose commit was retried. The contract asks
  that applying the entry of an executed operation re-establishes the relation between the two
  states, and that applying it once more keeps it; the consequence is that a secondary that has
  applied the whole journal is related to the primary.
\<close>

fun exec_all :: "('s \<Rightarrow> 'op \<Rightarrow> 's \<times> bool) \<Rightarrow> 's \<Rightarrow> 'op list \<Rightarrow> 's option" where
  "exec_all exec s [] = Some s"
| "exec_all exec s (x # xs) = (case exec s x of (s', ok) \<Rightarrow> if ok then exec_all exec s' xs else None)"

fun all_admissible :: "('s \<Rightarrow> 'op \<Rightarrow> 's \<times> bool) \<Rightarrow> ('s \<Rightarrow> 'op \<Rightarrow> bool) \<Rightarrow> 's \<Rightarrow> 'op list \<Rightarrow> bool" where
  "all_admissible exec adm s [] = True"
| "all_admissible exec adm s (x # xs) = (adm s x \<and> all_admissible exec adm (fst (exec s x)) xs)"

fun log_of :: "('s \<Rightarrow> 'op \<Rightarrow> 's \<times> bool) \<Rightarrow> ('s \<Rightarrow> 'op \<Rightarrow> 'e option) \<Rightarrow> 's \<Rightarrow> 'op list \<Rightarrow> 'e list" where
  "log_of exec entry s [] = []"
| "log_of exec entry s (x # xs) =
     (case entry s x of None \<Rightarrow> [] | Some e \<Rightarrow> [e]) @ log_of exec entry (fst (exec s x)) xs"

fun apply_all :: "('d \<Rightarrow> 'e \<Rightarrow> 'd option) \<Rightarrow> 'd \<Rightarrow> 'e list \<Rightarrow> 'd option" where
  "apply_all appl d [] = Some d"
| "apply_all appl d (e # es) = (case appl d e of None \<Rightarrow> None | Some d' \<Rightarrow> apply_all appl d' es)"

inductive stutters :: "'e list \<Rightarrow> 'e list \<Rightarrow> bool" where
  stutters_Nil: "stutters [] []"
| stutters_Cons: "stutters es es' \<Longrightarrow> 0 < m \<Longrightarrow> stutters (e # es) (replicate m e @ es')"

inductive_cases stutters_ConsE: "stutters (e # es) l"
inductive_cases stutters_NilE: "stutters [] l"

lemma apply_all_append:
  "apply_all appl d (xs @ ys) = Option.bind (apply_all appl d xs) (\<lambda>d'. apply_all appl d' ys)"
  by (induction xs arbitrary: d) (auto split: option.splits)

lemma stutters_refl: "stutters es es"
proof (induction es)
  case (Cons e es)
  then show ?case using stutters_Cons [of es es 1 e] by simp
qed (rule stutters_Nil)

locale journaled =
  fixes exec :: "'s \<Rightarrow> 'op \<Rightarrow> 's \<times> bool" and entry :: "'s \<Rightarrow> 'op \<Rightarrow> 'e option"
    and rel :: "'s \<Rightarrow> 'd \<Rightarrow> bool" and appl :: "'d \<Rightarrow> 'e \<Rightarrow> 'd option"
    and inv :: "'s \<Rightarrow> bool" and admissible :: "'s \<Rightarrow> 'op \<Rightarrow> bool"
  assumes exec_inv: "inv s \<Longrightarrow> admissible s x \<Longrightarrow> exec s x = (s', True) \<Longrightarrow> inv s'"
    and exec_silent: "inv s \<Longrightarrow> admissible s x \<Longrightarrow> exec s x = (s', True) \<Longrightarrow> entry s x = None \<Longrightarrow>
      rel s d \<Longrightarrow> rel s' d"
    and exec_apply: "inv s \<Longrightarrow> admissible s x \<Longrightarrow> exec s x = (s', True) \<Longrightarrow> entry s x = Some e \<Longrightarrow>
      rel s d \<Longrightarrow> \<exists>d'. appl d e = Some d' \<and> rel s' d'"
    and exec_again: "inv s \<Longrightarrow> admissible s x \<Longrightarrow> exec s x = (s', True) \<Longrightarrow> entry s x = Some e \<Longrightarrow>
      rel s' d' \<Longrightarrow> \<exists>d''. appl d' e = Some d'' \<and> rel s' d''"
begin

lemma apply_again:
  assumes "inv s" "admissible s x" "exec s x = (s', True)" "entry s x = Some e" "rel s' d'"
  shows "\<exists>d''. apply_all appl d' (replicate m e) = Some d'' \<and> rel s' d''"
  using assms(5)
proof (induction m arbitrary: d')
  case (Suc m)
  from exec_again [OF assms(1-4) Suc.prems] obtain d'' where "appl d' e = Some d''" "rel s' d''" by blast
  with Suc.IH show ?case by simp
qed simp

lemma apply_copies:
  assumes "inv s" "admissible s x" "exec s x = (s', True)" "entry s x = Some e" "rel s d" "0 < m"
  shows "\<exists>d'. apply_all appl d (replicate m e) = Some d' \<and> rel s' d'"
  using assms(6) exec_apply [OF assms(1-5)] apply_again [OF assms(1-4)] by (cases m) fastforce+

lemma secondary_catches_up:
  assumes "inv s" "rel s d" "all_admissible exec admissible s xs" "exec_all exec s xs = Some s'"
    and "stutters (log_of exec entry s xs) l"
  shows "\<exists>d'. apply_all appl d l = Some d' \<and> rel s' d' \<and> inv s'"
  using assms
proof (induction xs arbitrary: s d l)
  case Nil
  then show ?case by (auto elim: stutters_NilE)
next
  case (Cons x xs)
  obtain s1 where e: "exec s x = (s1, True)" and rest: "exec_all exec s1 xs = Some s'"
    using Cons.prems(4) by (auto split: prod.splits if_splits)
  have a: "admissible s x" "all_admissible exec admissible s1 xs" using Cons.prems(3) e by auto
  note i = exec_inv [OF Cons.prems(1) a(1) e]
  show ?case
  proof (cases "entry s x")
    case None
    with Cons.prems(5) e have "stutters (log_of exec entry s1 xs) l" by simp
    with Cons.IH [OF i _ a(2) rest] exec_silent [OF Cons.prems(1) a(1) e None Cons.prems(2)] show ?thesis by blast
  next
    case (Some en)
    with Cons.prems(5) e obtain m l' where
      l: "l = replicate m en @ l'" "0 < m" "stutters (log_of exec entry s1 xs) l'"
      by (auto elim: stutters_ConsE)
    from apply_copies [OF Cons.prems(1) a(1) e Some Cons.prems(2) l(2)] obtain d1 where
      d1: "apply_all appl d (replicate m en) = Some d1" "rel s1 d1" by blast
    from Cons.IH [OF i d1(2) a(2) rest l(3)] d1(1) show ?thesis by (simp add: l(1) apply_all_append)
  qed
qed

end

end
