(* ===== verification/DataNode.thy ===== *)
theory DataNode
  imports DataUtils CommonJournal VersionedStore Replication
begin

text \<open>
  \<open>sheetfs/datanode/server\<close>: the chunk server. \<open>DeleteChunk\<close>, \<open>ReadChunk\<close> and \<open>WriteChunk\<close> are the
  RPC handlers of a primary; \<open>HandleWriteMsg\<close>, \<open>HandleDeleteMsg\<close> and \<open>HandleMsg\<close> apply journal
  entries on a secondary. A handler takes the faults of the operating system and the Kafka client,
  and returns the new server state with its reply, or the state at a run-time panic.
\<close>

datatype Status =
  Status_OK | Status_Exist | Status_NotFound | Status_WrongVersion | Status_Invalid | Status_Unavailable

record 'k Server =
  dataPath :: string
  disk :: disk
  writer :: Writer
  broker :: 'k

definition getFilename :: "string \<Rightarrow> u64 \<Rightarrow> string" where
  "getFilename dp cid = path_Join dp (''chunk_'' @ FormatUint cid)"

definition NewServer :: "string \<Rightarrow> disk \<Rightarrow> Writer \<Rightarrow> 'k \<Rightarrow> 'k Server" where
  "NewServer path d w k = \<lparr>dataPath = path, disk = d, writer = w, broker = k\<rparr>"

definition set_file :: "'k Server \<Rightarrow> string \<Rightarrow> byte list \<Rightarrow> 'k Server" where
  "set_file s name f = s\<lparr>disk := (disk s)(name \<mapsto> f)\<rparr>"

subsection \<open>The primary's handlers\<close>

definition DeleteChunk ::
  "os_faults \<Rightarrow> 'k kafka \<Rightarrow> 'k Server \<Rightarrow> DeleteChunkRequest \<Rightarrow> 'k Server \<times> Status" where
  "DeleteChunk fl K s request =
     (case commit_retry ACK_MOST_TIMES K (writer s) (broker s) (ConstructDeleteEntry request) None of
        (w, k, Some _) \<Rightarrow> (s\<lparr>writer := w, broker := k\<rparr>, Status_Unavailable)
      | (w, k, None) \<Rightarrow>
          let s1 = s\<lparr>writer := w, broker := k\<rparr>;
              name = getFilename (dataPath s) (del_Id request)
          in (if remove_err fl then s1 else s1\<lparr>disk := (disk s1)(name := None)\<rparr>, Status_OK))"

definition ReadChunk ::
  "os_faults \<Rightarrow> 'k Server \<Rightarrow> ReadChunkRequest \<Rightarrow> (Status \<times> byte list) option" where
  "ReadChunk fl s request =
     (case (if open_err fl then None else disk s (getFilename (dataPath s) (rd_Id request))) of
        None \<Rightarrow> Some (Status_NotFound, [])
      | Some f \<Rightarrow> do {
          curVersion \<leftarrow> GetVersion f;
          if rd_Version request \<le> curVersion then
            if sint (rd_Size request) < 0 then None
            else case ReadAt f (unat (rd_Size request)) (rd_Offset request) of
              (data, ok) \<Rightarrow> Some (if ok then (Status_OK, data) else (Status_NotFound, []))
          else Some (Status_WrongVersion, [])
        })"

definition WriteChunk ::
  "os_faults \<Rightarrow> 'k kafka \<Rightarrow> 'k Server \<Rightarrow> WriteChunkRequest \<Rightarrow> ('k Server, Status) outcome" where
  "WriteChunk fl K s request =
     (case GetPaddedData (wr_Data request) (wr_Size request) (wr_TargetSize request) (wr_Padding request) of
        None \<Rightarrow> Panicked s
      | Some PaddedData \<Rightarrow>
        (case commit_retry ACK_MOST_TIMES K (writer s) (broker s) (ConstructWriteEntry request PaddedData) None of
          (w, k, err) \<Rightarrow>
          let s1 = s\<lparr>writer := w, broker := k\<rparr>; name = getFilename (dataPath s) (wr_Id request) in
          if err \<noteq> None then Done s1 Status_Unavailable
          else if open_err fl then Done s1 Status_Unavailable
          else case disk s name of
            None \<Rightarrow>
              if wr_Version request \<noteq> 1 then Done s1 Status_WrongVersion
              else if create_err fl 0 then Done s1 Status_Unavailable
              else (case GetPaddedFile (wr_Data request) (wr_Size request) (wr_TargetSize request)
                           (wr_Padding request) (wr_Offset request) of
                None \<Rightarrow> Panicked (set_file s1 name [])
              | Some contents \<Rightarrow>
                  (case WriteAt fl 0 [] contents 0 of
                     (f, ok) \<Rightarrow>
                       if \<not> ok then Done (set_file s1 name f) Status_Unavailable
                       else Done (set_file s1 name (SyncAndUpdateVersion fl 1 f (wr_Version request))) Status_OK))
          | Some f \<Rightarrow>
              (case GetVersion f of
                None \<Rightarrow> Panicked s1
              | Some curVersion \<Rightarrow>
                  if curVersion + 1 = wr_Version request then
                    (case WriteAt fl 0 f PaddedData (wr_Offset request) of
                       (f', ok) \<Rightarrow>
                         if \<not> ok then Done (set_file s1 name f') Status_NotFound
                         else Done (set_file s1 name (SyncAndUpdateVersion fl 1 f' (wr_Version request))) Status_OK)
                  else Done s1 Status_WrongVersion)))"

subsection \<open>The secondary's journal handlers\<close>

text \<open>
  The result is \<open>None\<close> when a retry loop never ends, otherwise the disk with whether the handler
  returned a nil error.
\<close>

definition u64_at :: "nat \<Rightarrow> byte list \<Rightarrow> u64 option" where
  "u64_at lo msg = Option.bind (go_slice lo (lo + 8) msg) BytesToUint64"

definition u32_at :: "nat \<Rightarrow> byte list \<Rightarrow> u32 option" where
  "u32_at lo msg = Option.bind (go_slice lo (lo + 4) msg) BytesToUint32"

definition HandleWriteMsg ::
  "os_faults \<Rightarrow> string \<Rightarrow> disk \<Rightarrow> byte list \<Rightarrow> (disk, bool) outcome option" where
  "HandleWriteMsg fl dp d msg =
     (case (u64_at 0 msg, u64_at 8 msg, u64_at 16 msg, u64_at 24 msg) of
        (Some version, Some chunkid, Some offset, Some sz) \<Rightarrow>
          let name = getFilename dp chunkid in
          (case (if open_err fl then None else d name) of
             None \<Rightarrow>
               (case retry_from (create_err fl) 0 of
                  None \<Rightarrow> None
                | Some _ \<Rightarrow>
                    (case Option.bind (go_slice 36 (length msg) msg)
                            (\<lambda>data. GetPaddedFile data sz sz '' '' offset) of
                       None \<Rightarrow> Some (Panicked (d(name \<mapsto> [])))
                     | Some contents \<Rightarrow>
                         (case write_loop fl 0 [] contents 0 of
                            None \<Rightarrow> None
                          | Some (n, f) \<Rightarrow>
                              Some (Done (d(name \<mapsto> SyncAndUpdateVersion fl n f version)) True))))
           | Some f \<Rightarrow>
               if sint sz < 0 then Some (Panicked d)
               else (case ReadAt f (unat sz) offset of (oldData, ok) \<Rightarrow>
                 if \<not> ok then Some (Done d False)
                 else (case (u32_at 32 msg, GetVersion f) of
                    (Some cks, Some curVersion) \<Rightarrow>
                      if cks \<noteq> crc32_Checksum oldData \<or> version \<noteq> curVersion then
                        (case go_slice 36 (length msg) msg of
                           None \<Rightarrow> Some (Panicked d)
                         | Some data \<Rightarrow>
                             (case write_loop fl 0 f data offset of
                                None \<Rightarrow> None
                              | Some (n, f') \<Rightarrow>
                                  Some (Done (d(name \<mapsto> SyncAndUpdateVersion fl n f' version)) True)))
                      else Some (Done d True)
                  | _ \<Rightarrow> Some (Panicked d))))
      | _ \<Rightarrow> Some (Panicked d))"

definition HandleDeleteMsg ::
  "os_faults \<Rightarrow> string \<Rightarrow> disk \<Rightarrow> byte list \<Rightarrow> (disk, bool) outcome option" where
  "HandleDeleteMsg fl dp d msg =
     (case u64_at 0 msg of
        None \<Rightarrow> Some (Panicked d)
      | Some chunkid \<Rightarrow>
          Some (Done (if remove_err fl then d else d(getFilename dp chunkid := None)) True))"

definition HandleMsg ::
  "os_faults \<Rightarrow> string \<Rightarrow> disk \<Rightarrow> byte list \<Rightarrow> (disk, bool) outcome option" where
  "HandleMsg fl dp d msg =
     (case (u64_at 0 msg, go_slice 8 (length msg) msg) of
        (Some logType, Some rest) \<Rightarrow>
          if logType = WRITE_LOG_FLAG then HandleWriteMsg fl dp d rest
          else if logType = DELETE_LOG_FLAG then HandleDeleteMsg fl dp d rest
          else Some (Done d True)
      | _ \<Rightarrow> Some (Panicked d))"

subsection \<open>File names\<close>

lemma plain_chunk_name: "plain_component (''chunk_'' @ FormatUint cid)"
proof -
  have "CHR ''/'' \<notin> set (FormatUint cid)"
  proof
    assume "CHR ''/'' \<in> set (FormatUint cid)"
    then obtain d where "d < 10" "CHR ''/'' = digit_char d"
      using set_dec_digits by (auto simp: FormatUint_def)
    then have "(of_char (CHR ''/'') :: nat) = 48 + d"
      using of_digit_char by metis
    then show False by simp
  qed
  then show ?thesis by (simp add: plain_component_def)
qed

lemma getFilename_inject [simp]: "getFilename dp i = getFilename dp j \<longleftrightarrow> i = j"
  by (simp add: getFilename_def path_Join_inject plain_chunk_name del: append.simps) 

lemma set_file_sel [simp]:
  "dataPath (set_file s name f) = dataPath s" "disk (set_file s name f) = (disk s)(name \<mapsto> f)"
  "writer (set_file s name f) = writer s" "broker (set_file s name f) = broker s"
  by (simp_all add: set_file_def)

subsection \<open>The layout of a chunk file\<close>

text \<open>
  A chunk file is its data area of \<open>FILE_SIZE\<close> bytes followed by its version. A request respects the
  layout when the block it writes lies in the data area; the clients of the file system only send
  such requests.
\<close>

definition chunk_file :: "byte list \<Rightarrow> u64 \<Rightarrow> byte list" where
  "chunk_file d v = d @ Uint64ToBytes v"

definition wf_server :: "'k Server \<Rightarrow> bool" where
  "wf_server s \<longleftrightarrow> (\<forall>i f. disk s (getFilename (dataPath s) i) = Some f \<longrightarrow> length f = 8200)"

definition target_len :: "WriteChunkRequest \<Rightarrow> nat" where
  "target_len r = unat (TargetSizeWrapper (wr_TargetSize r))"

definition layout_ok :: "WriteChunkRequest \<Rightarrow> bool" where
  "layout_ok r \<longleftrightarrow> wr_Padding r \<noteq> [] \<and> unat (wr_Offset r) + target_len r \<le> 8192"

definition pad_byte :: "WriteChunkRequest \<Rightarrow> byte" where
  "pad_byte r = of_char (hd (wr_Padding r))"

definition block :: "WriteChunkRequest \<Rightarrow> byte list" where
  "block r = pad_block (wr_Data r) (unat (wr_Size r)) (target_len r) (pad_byte r)"

definition chunk_version :: "'k Server \<Rightarrow> u64 \<Rightarrow> u64" where
  "chunk_version s i =
     (case disk s (getFilename (dataPath s) i) of None \<Rightarrow> 0 | Some f \<Rightarrow> the (GetVersion f))"

definition chunk_data :: "'k Server \<Rightarrow> u64 \<Rightarrow> byte list option" where
  "chunk_data s i = map_option (take 8192) (disk s (getFilename (dataPath s) i))"

definition write_block :: "byte list option \<Rightarrow> WriteChunkRequest \<Rightarrow> byte list" where
  "write_block d r =
     overwrite (case d of None \<Rightarrow> replicate 8192 (pad_byte r) | Some c \<Rightarrow> c) (unat (wr_Offset r)) (block r)"

lemma length_block [simp]: "length (block r) = target_len r"
  by (simp add: block_def)

lemma block_Nil [simp]: "block r = [] \<longleftrightarrow> target_len r = 0"
  by (metis length_0_conv length_block)

lemma length_chunk_file [simp]: "length (chunk_file d v) = length d + 8"
  by (simp add: chunk_file_def codec_simps)

lemma GetVersion_not_next [simp]: "GetVersion f \<noteq> Some (the (GetVersion f) + 1)"
  by (cases "GetVersion f") auto

lemma GetVersion_chunk_file [simp]:
  "length d = 8192 \<Longrightarrow> GetVersion (chunk_file d v) = Some v"
  by (simp add: GetVersion_def ReadAt_def chunk_file_def layout_simps codec_simps)

lemma take_chunk_file [simp]: "length d = 8192 \<Longrightarrow> take 8192 (chunk_file d v) = d"
  by (simp add: chunk_file_def)

lemma overwrite_pad_block:
  assumes "off + T \<le> n"
  shows "overwrite (replicate n c) off (take (min sz T) data) = overwrite (replicate n c) off (pad_block data sz T c)"
proof -
  let ?l = "min (length data) (min sz T)"
  have "replicate (n - (off + ?l)) c = replicate (T - ?l) c @ replicate (n - (off + T)) c"
    using assms by (simp flip: replicate_add)
  then show ?thesis
    by (simp add: overwrite_def pad_block_def min.commute min.left_commute)
qed

lemma SyncAndUpdateVersion_new:
  "length d = 8192 \<Longrightarrow> SyncAndUpdateVersion no_faults n d v = chunk_file d v"
  using pwrite_at_end [of d "Uint64ToBytes v"]
  by (simp add: SyncAndUpdateVersion_def layout_simps chunk_file_def)

lemma SyncAndUpdateVersion_existing:
  "length f = 8200 \<Longrightarrow> SyncAndUpdateVersion no_faults n f v = chunk_file (take 8192 f) v"
  by (simp add: SyncAndUpdateVersion_def layout_simps chunk_file_def pwrite_inside codec_simps
      overwrite_def)

lemma layout_ok_signed:
  assumes "layout_ok r"
  shows "0 \<le> sint (wr_Offset r)" "0 \<le> sint (TargetSizeWrapper (wr_TargetSize r))"
  using assms by (simp_all add: layout_ok_def target_len_def sint_nonneg_iff)

lemma layout_padded:
  assumes "layout_ok r"
  shows "GetPaddedData (wr_Data r) (wr_Size r) (wr_TargetSize r) (wr_Padding r) = Some (block r)"
proof -
  obtain c cs where "wr_Padding r = c # cs" using assms by (cases "wr_Padding r") (auto simp: layout_ok_def)
  with GetPaddedData_eq [OF this layout_ok_signed(2) [OF assms]] show ?thesis
    by (simp add: block_def pad_byte_def target_len_def)
qed

lemma layout_padded_file:
  assumes "layout_ok r"
  shows "GetPaddedFile (wr_Data r) (wr_Size r) (wr_TargetSize r) (wr_Padding r) (wr_Offset r) =
     Some (write_block None r)"
proof -
  obtain c cs where p: "wr_Padding r = c # cs" using assms by (cases "wr_Padding r") (auto simp: layout_ok_def)
  have "unat (wr_Offset r) + min (unat (wr_Size r)) (target_len r) \<le> 8192"
    using assms by (auto simp: layout_ok_def min_def)
  with GetPaddedFile_eq [OF p refl] p assms show ?thesis
    by (simp add: write_block_def block_def pad_byte_def overwrite_pad_block layout_ok_def
          flip: target_len_def)
qed

lemma length_write_block:
  "layout_ok r \<Longrightarrow> (\<And>c. d = Some c \<Longrightarrow> length c = 8192) \<Longrightarrow> length (write_block d r) = 8192"
  by (cases d) (auto simp: write_block_def layout_ok_def)

lemma write_existing_file:
  assumes "layout_ok r" "length f = 8200"
  shows "SyncAndUpdateVersion no_faults n (pwrite f (unat (wr_Offset r)) (block r)) v =
     chunk_file (write_block (Some (take 8192 f)) r) v"
proof -
  have "pwrite f (unat (wr_Offset r)) (block r) = overwrite f (unat (wr_Offset r)) (block r)"
    using assms by (intro pwrite_inside) (simp add: layout_ok_def)
  moreover have "take 8192 (overwrite f (unat (wr_Offset r)) (block r)) =
      overwrite (take 8192 f) (unat (wr_Offset r)) (block r)"
    using assms
    by (cases "unat (wr_Offset r) = 8192") (auto simp: overwrite_def layout_ok_def take_drop min_def)
  ultimately show ?thesis
    using assms by (simp add: SyncAndUpdateVersion_existing write_block_def layout_ok_def)
qed

subsection \<open>Writing a chunk\<close>

abbreviation commit :: "'k kafka \<Rightarrow> 'k Server \<Rightarrow> byte list \<Rightarrow> Writer \<times> 'k \<times> kafka_error option" where
  "commit K s entry \<equiv> commit_retry ACK_MOST_TIMES K (writer s) (broker s) entry None"

text \<open>
  \<open>WriteChunk\<close> on a well-formed server without disk faults, for a request in the layout. A missing
  chunk counts as version 0, so one condition decides both branches of the code.
\<close>

lemma WriteChunk_eq:
  assumes "wf_server s" "layout_ok r"
    and "commit K s (ConstructWriteEntry r (block r)) = (w, k, err)"
  shows "WriteChunk no_faults K s r =
    (let s1 = s\<lparr>writer := w, broker := k\<rparr>; i = wr_Id r in
     if err \<noteq> None then Done s1 Status_Unavailable
     else if wr_Version r = chunk_version s i + 1 then
       Done (set_file s1 (getFilename (dataPath s) i)
               (chunk_file (write_block (chunk_data s i) r) (wr_Version r))) Status_OK
     else Done s1 Status_WrongVersion)"
proof (cases "disk s (getFilename (dataPath s) (wr_Id r))")
  case None
  with assms length_write_block [of r None] show ?thesis
    by (auto simp: WriteChunk_def layout_padded layout_padded_file Let_def chunk_version_def
        chunk_data_def pwrite_fresh SyncAndUpdateVersion_new)
next
  case (Some f)
  then have f: "length f = 8200" using assms(1) by (auto simp: wf_server_def)
  obtain v where v: "GetVersion f = Some v" using GetVersion_total by blast
  from Some f v assms(2,3) show ?thesis
    by (auto simp: WriteChunk_def layout_padded layout_ok_signed Let_def chunk_version_def
        chunk_data_def write_existing_file)
qed

lemma length_chunk_data:
  assumes "wf_server s" "chunk_data s i = Some c"
  shows "length c = 8192"
  using assms by (auto simp: chunk_data_def wf_server_def)

lemma length_write_chunk:
  assumes "wf_server s" "layout_ok r"
  shows "length (write_block (chunk_data s i) r) = 8192"
  using assms length_chunk_data by (intro length_write_block) auto

text \<open>The handler as a store operation: the new state and whether the write was accepted.\<close>

definition dn_put :: "'k kafka \<Rightarrow> 'k Server \<Rightarrow> WriteChunkRequest \<Rightarrow> 'k Server \<times> bool" where
  "dn_put K s r =
     (case WriteChunk no_faults K s r of Done s' st \<Rightarrow> (s', st = Status_OK) | Panicked s' \<Rightarrow> (s', False))"

lemma dn_put_cases:
  assumes "wf_server s" "layout_ok r" "dn_put K s r = (s', ok)"
  shows "dataPath s' = dataPath s \<and>
    (if ok then wr_Version r = chunk_version s (wr_Id r) + 1 \<and>
       disk s' = (disk s)(getFilename (dataPath s) (wr_Id r) \<mapsto>
         chunk_file (write_block (chunk_data s (wr_Id r)) r) (wr_Version r))
     else disk s' = disk s)"
proof -
  obtain w k err where c: "commit K s (ConstructWriteEntry r (block r)) = (w, k, err)"
    by (cases "commit K s (ConstructWriteEntry r (block r))")
  from assms WriteChunk_eq [OF assms(1,2) c] show ?thesis
    by (auto simp: dn_put_def Let_def split: if_splits)
qed

interpretation dn: versioned_store "dn_put K" wf_server layout_ok wr_Id wr_Version chunk_version
  chunk_data "\<lambda>d r. Some (write_block d r)" for K :: "'k kafka"
proof
  fix s s' :: "'k Server" and r ok and i :: u64
  assume a: "wf_server s" "layout_ok r"
  note w = length_write_chunk [OF a]
  show "wf_server s'" if "dn_put K s r = (s', ok)"
    using dn_put_cases [OF a that] a(1) w [of "wr_Id r"]
    by (auto simp: wf_server_def split: if_splits)
  show "wr_Version r = chunk_version s (wr_Id r) + 1 \<and> chunk_version s' (wr_Id r) = wr_Version r \<and>
      chunk_data s' (wr_Id r) = Some (write_block (chunk_data s (wr_Id r)) r)"
    if "dn_put K s r = (s', True)"
    using dn_put_cases [OF a that] w [of "wr_Id r"]
    by (auto simp: chunk_version_def [of s'] chunk_data_def [of s'])
  show "chunk_version s' i = chunk_version s i \<and> chunk_data s' i = chunk_data s i"
    if "dn_put K s r = (s', False)"
    using dn_put_cases [OF a that] by (auto simp: chunk_version_def chunk_data_def)
  show "chunk_version s' i = chunk_version s i \<and> chunk_data s' i = chunk_data s i"
    if "dn_put K s r = (s', ok)" "i \<noteq> wr_Id r"
    using dn_put_cases [OF a that(1)] that(2)
    by (auto simp: chunk_version_def chunk_data_def split: if_splits)
qed

subsection \<open>Reading a chunk\<close>

lemma ReadChunk_eq:
  assumes "wf_server s" "unat (rd_Offset q) + unat (rd_Size q) \<le> 8192"
  shows "ReadChunk no_faults s q =
    Some (case chunk_data s (rd_Id q) of
        None \<Rightarrow> (Status_NotFound, [])
      | Some c \<Rightarrow>
          if rd_Version q \<le> chunk_version s (rd_Id q)
          then (Status_OK, take (unat (rd_Size q)) (drop (unat (rd_Offset q)) c))
          else (Status_WrongVersion, []))"
proof (cases "disk s (getFilename (dataPath s) (rd_Id q))")
  case None
  then show ?thesis by (simp add: ReadChunk_def chunk_data_def)
next
  case (Some f)
  then have f: "length f = 8200" using assms(1) by (auto simp: wf_server_def)
  obtain v where v: "GetVersion f = Some v" using GetVersion_total by blast
  have "0 \<le> sint (rd_Offset q)" "0 \<le> sint (rd_Size q)"
    using assms(2) by (simp_all add: sint_nonneg_iff)
  with f assms(2) have "ReadAt f (unat (rd_Size q)) (rd_Offset q) =
      (take (unat (rd_Size q)) (drop (unat (rd_Offset q)) f), True)"
    by (intro ReadAt_inside) auto
  moreover have "take (unat (rd_Size q)) (drop (unat (rd_Offset q)) (take 8192 f)) =
      take (unat (rd_Size q)) (drop (unat (rd_Offset q)) f)"
    using assms(2) by (auto simp: drop_take min_def)
  ultimately show ?thesis
    using Some v \<open>0 \<le> sint (rd_Size q)\<close>
    by (simp add: ReadChunk_def chunk_data_def chunk_version_def)
qed

subsection \<open>Decoding a journal entry\<close>

definition write_msg :: "u64 \<Rightarrow> u64 \<Rightarrow> u64 \<Rightarrow> byte list \<Rightarrow> byte list" where
  "write_msg v i off data =
     Uint64ToBytes v @ Uint64ToBytes i @ Uint64ToBytes off @ Uint64ToBytes (word_of_nat (length data)) @
     Uint32ToBytes (crc32_Checksum data) @ data"

lemma ConstructWriteEntry_msg:
  "ConstructWriteEntry r data =
     Uint64ToBytes WRITE_LOG_FLAG @ write_msg (wr_Version r) (wr_Id r) (wr_Offset r) data"
  by (simp add: ConstructWriteEntry_def write_msg_def)

lemma u64_at_prefix:
  "length pre = n \<Longrightarrow> u64_at n (pre @ Uint64ToBytes x @ post) = Some x"
  by (simp only: u64_at_def u64.dec_field_at)

lemma u32_at_prefix:
  "length pre = n \<Longrightarrow> u32_at n (pre @ Uint32ToBytes x @ post) = Some x"
  by (simp only: u32_at_def u32.dec_field_at)

lemma write_msg_fields [codec_simps]:
  "u64_at 0 (write_msg v i off data) = Some v"
  "u64_at 8 (write_msg v i off data) = Some i"
  "u64_at 16 (write_msg v i off data) = Some off"
  "u64_at 24 (write_msg v i off data) = Some (word_of_nat (length data))"
  "u32_at 32 (write_msg v i off data) = Some (crc32_Checksum data)"
  "go_slice 36 (length (write_msg v i off data)) (write_msg v i off data) = Some data"
  using u64_at_prefix [of "[]" 0 v] u64_at_prefix [of "Uint64ToBytes v" 8 i]
    u64_at_prefix [of "Uint64ToBytes v @ Uint64ToBytes i" 16 off]
    u64_at_prefix [of "Uint64ToBytes v @ Uint64ToBytes i @ Uint64ToBytes off" 24]
    u32_at_prefix [of "Uint64ToBytes v @ Uint64ToBytes i @ Uint64ToBytes off @
      Uint64ToBytes (word_of_nat (length data))" 32]
  by (simp_all add: write_msg_def codec_simps go_slice_def)

lemma HandleMsg_write:
  "HandleMsg fl dp d (ConstructWriteEntry r data) =
     HandleWriteMsg fl dp d (write_msg (wr_Version r) (wr_Id r) (wr_Offset r) data)"
  using u64_at_prefix [of "[]" 0 WRITE_LOG_FLAG]
  by (simp add: HandleMsg_def ConstructWriteEntry_msg go_slice_def codec_simps)

lemma HandleMsg_delete:
  "HandleMsg no_faults dp d (ConstructDeleteEntry q) =
     Some (Done (d(getFilename dp (del_Id q) := None)) True)"
  using u64_at_prefix [of "[]" 0 DELETE_LOG_FLAG] u64_at_prefix [of "[]" 0 "del_Id q" "[]"]
  by (simp add: HandleMsg_def HandleDeleteMsg_def ConstructDeleteEntry_def go_slice_def codec_simps
      WRITE_LOG_FLAG_def DELETE_LOG_FLAG_def)

subsection \<open>Applying an entry on a secondary\<close>

definition wf_disk :: "string \<Rightarrow> disk \<Rightarrow> bool" where
  "wf_disk dp d \<longleftrightarrow> (\<forall>i f. d (getFilename dp i) = Some f \<longrightarrow> length f = 8200)"

lemma secondary_padded_file:
  assumes "layout_ok r"
  shows "GetPaddedFile (block r) (word_of_nat (target_len r)) (word_of_nat (target_len r)) '' '' (wr_Offset r) =
      Some (overwrite (replicate 8192 32) (unat (wr_Offset r)) (block r))"
proof -
  have t: "unat (word_of_nat (target_len r) :: u64) = target_len r"
    by (simp add: target_len_def)
  have "word_of_nat (target_len r) = TargetSizeWrapper (wr_TargetSize r)"
    by (simp add: target_len_def)
  then have "TargetSizeWrapper (word_of_nat (target_len r)) = word_of_nat (target_len r)"
    by (auto simp: TargetSizeWrapper_def layout_simps)
  then show ?thesis
    using GetPaddedFile_eq [OF refl refl, of "block r" "word_of_nat (target_len r)" "word_of_nat (target_len r)"
        "CHR '' ''" "[]" "wr_Offset r"] assms t
    by (simp add: layout_ok_def)
qed

text \<open>
  The file a secondary makes of a missing chunk is padded with spaces whatever the request said;
  an existing chunk is left alone exactly when it has the entry's version and a block with the
  entry's checksum.
\<close>

lemma HandleMsg_write_eq:
  assumes "wf_disk dp d" "layout_ok r"
  shows "HandleMsg no_faults dp d (ConstructWriteEntry r (block r)) =
    Some (Done
      (let name = getFilename dp (wr_Id r) in
       case d name of
         None \<Rightarrow> d(name \<mapsto> chunk_file (overwrite (replicate 8192 32) (unat (wr_Offset r)) (block r)) (wr_Version r))
       | Some f \<Rightarrow>
           if crc32_Checksum (take (target_len r) (drop (unat (wr_Offset r)) f)) = crc32_Checksum (block r) \<and>
              GetVersion f = Some (wr_Version r) then d
           else d(name \<mapsto> chunk_file (write_block (Some (take 8192 f)) r) (wr_Version r))) True)"
proof (cases "d (getFilename dp (wr_Id r))")
  case None
  have len: "length (overwrite (replicate 8192 (32::byte)) (unat (wr_Offset r)) (block r)) = 8192"
    using assms(2) by (simp add: layout_ok_def)
  note secondary_padded_file [OF assms(2)]
  with None len show ?thesis
    by (simp add: HandleMsg_write HandleWriteMsg_def codec_simps pwrite_fresh SyncAndUpdateVersion_new Let_def)
next
  case (Some f)
  then have f: "length f = 8200" using assms(1) by (auto simp: wf_disk_def)
  have t: "unat (word_of_nat (target_len r) :: u64) = target_len r" "target_len r \<le> 8192"
    using assms(2) by (simp_all add: target_len_def layout_ok_def)
  then have s: "0 \<le> sint (word_of_nat (target_len r) :: u64)" by (simp add: sint_nonneg_iff)
  obtain v where v: "GetVersion f = Some v" using GetVersion_total by blast
  have "ReadAt f (target_len r) (wr_Offset r) = (take (target_len r) (drop (unat (wr_Offset r)) f), True)"
    using f assms(2) by (intro ReadAt_inside layout_ok_signed) (auto simp: layout_ok_def)
  with Some f v s t assms(2) show ?thesis
    by (auto simp: HandleMsg_write HandleWriteMsg_def codec_simps layout_ok_signed write_existing_file Let_def)
qed

subsection \<open>A secondary follows the primary\<close>

datatype dn_op = DnWrite WriteChunkRequest | DnDelete DeleteChunkRequest

definition dn_delete :: "'k kafka \<Rightarrow> 'k Server \<Rightarrow> DeleteChunkRequest \<Rightarrow> 'k Server \<times> bool" where
  "dn_delete K s q = (case DeleteChunk no_faults K s q of (s', st) \<Rightarrow> (s', st = Status_OK))"

fun dn_exec :: "'k kafka \<Rightarrow> 'k Server \<Rightarrow> dn_op \<Rightarrow> 'k Server \<times> bool" where
  "dn_exec K s (DnWrite r) = dn_put K s r"
| "dn_exec K s (DnDelete q) = dn_delete K s q"

fun dn_entry :: "dn_op \<Rightarrow> byte list" where
  "dn_entry (DnWrite r) = ConstructWriteEntry r (block r)"
| "dn_entry (DnDelete q) = ConstructDeleteEntry q"

fun dn_admissible :: "dn_op \<Rightarrow> bool" where
  "dn_admissible (DnWrite r) = (layout_ok r \<and> pad_byte r = 32)"
| "dn_admissible (DnDelete q) = True"

definition dn_apply :: "string \<times> disk \<Rightarrow> byte list \<Rightarrow> (string \<times> disk) option" where
  "dn_apply pd e =
     (case HandleMsg no_faults (fst pd) (snd pd) e of
        Some (Done d' True) \<Rightarrow> Some (fst pd, d') | _ \<Rightarrow> None)"

lemma wf_server_disk: "wf_server s \<longleftrightarrow> wf_disk (dataPath s) (disk s)"
  by (simp add: wf_server_def wf_disk_def)

lemma dn_delete_disk:
  assumes "dn_delete K s q = (s', True)"
  shows "dataPath s' = dataPath s \<and> disk s' = (disk s)(getFilename (dataPath s) (del_Id q) := None)"
  using assms by (auto simp: dn_delete_def DeleteChunk_def Let_def split: prod.splits option.splits)

lemma replica_write:
  assumes "wf_server s" "layout_ok r" "pad_byte r = 32" "dn_put K s r = (s', True)"
  shows "HandleMsg no_faults (dataPath s) (disk s) (ConstructWriteEntry r (block r)) =
     Some (Done (disk s') True)"
proof -
  from dn_put_cases [OF assms(1,2,4)] have
    v: "wr_Version r = chunk_version s (wr_Id r) + 1" and
    d: "disk s' = (disk s)(getFilename (dataPath s) (wr_Id r) \<mapsto>
         chunk_file (write_block (chunk_data s (wr_Id r)) r) (wr_Version r))" by auto
  have "wf_disk (dataPath s) (disk s)" using assms(1) by (simp add: wf_server_disk)
  from HandleMsg_write_eq [OF this assms(2)] v d assms(3) show ?thesis
    by (auto simp: Let_def chunk_version_def chunk_data_def write_block_def split: option.splits)
qed

text \<open>Applying the entry of a write whose effect is already there changes nothing.\<close>

lemma replica_write_again:
  assumes "wf_server s" "layout_ok r" "dn_put K s r = (s', True)"
  shows "HandleMsg no_faults (dataPath s') (disk s') (ConstructWriteEntry r (block r)) =
     Some (Done (disk s') True)"
proof -
  from dn_put_cases [OF assms] have
    d: "disk s' (getFilename (dataPath s') (wr_Id r)) =
         Some (chunk_file (write_block (chunk_data s (wr_Id r)) r) (wr_Version r))" by auto
  note w = length_write_chunk [OF assms(1,2), of "wr_Id r"]
  let ?base = "case chunk_data s (wr_Id r) of None \<Rightarrow> replicate 8192 (pad_byte r) | Some c \<Rightarrow> c"
  have "length ?base = 8192"
    using length_chunk_data [OF assms(1), of "wr_Id r"] by (auto split: option.splits)
  then have "take (target_len r) (drop (unat (wr_Offset r)) (write_block (chunk_data s (wr_Id r)) r)) = block r"
    using assms(2) overwrite_read_same [of "unat (wr_Offset r)" ?base "block r"]
    by (simp add: write_block_def layout_ok_def)
  then have "take (target_len r) (drop (unat (wr_Offset r))
      (chunk_file (write_block (chunk_data s (wr_Id r)) r) (wr_Version r))) = block r"
    using w assms(2) by (simp add: chunk_file_def layout_ok_def)
  moreover have "wf_disk (dataPath s') (disk s')"
    using dn.put_wf [OF assms] by (simp add: wf_server_disk)
  ultimately show ?thesis
    using HandleMsg_write_eq [OF _ assms(2), of "dataPath s'" "disk s'"] d w by (simp add: Let_def)
qed

interpretation dnj: journaled "dn_exec K" "\<lambda>_ x. Some (dn_entry x)" "\<lambda>s d. d = (dataPath s, disk s)" dn_apply
  wf_server "\<lambda>_. dn_admissible" for K :: "'k kafka"
proof
  fix s s' :: "'k Server" and x e d
  assume a: "wf_server s" "dn_admissible x" "dn_exec K s x = (s', True)"
  show "wf_server s'"
  proof (cases x)
    case (DnWrite r)
    with a show ?thesis using dn.put_wf [of s r] by simp
  next
    case (DnDelete q)
    with a dn_delete_disk [of K s q s'] show ?thesis by (auto simp: wf_server_def)
  qed
  have "dn_apply (dataPath s, disk s) (dn_entry x) = Some (dataPath s', disk s')"
  proof (cases x)
    case (DnWrite r)
    with a dn_put_cases [of s r K s' True] replica_write [of s r K s'] show ?thesis
      by (simp add: dn_apply_def)
  next
    case (DnDelete q)
    with a dn_delete_disk [of K s q s'] show ?thesis by (simp add: dn_apply_def HandleMsg_delete)
  qed
  then show "\<exists>d'. dn_apply d e = Some d' \<and> d' = (dataPath s', disk s')"
    if "Some (dn_entry x) = Some e" "d = (dataPath s, disk s)" using that by simp
  have "dn_apply (dataPath s', disk s') (dn_entry x) = Some (dataPath s', disk s')"
  proof (cases x)
    case (DnWrite r)
    with a replica_write_again [of s r K s'] show ?thesis by (simp add: dn_apply_def)
  next
    case (DnDelete q)
    with a dn_delete_disk [of K s q s'] show ?thesis by (simp add: dn_apply_def HandleMsg_delete)
  qed
  then show "\<exists>d''. dn_apply d e = Some d'' \<and> d'' = (dataPath s', disk s')"
    if "Some (dn_entry x) = Some e" "d = (dataPath s', disk s')" using that by simp
qed simp

subsection \<open>The journal a history of writes leaves\<close>

lemma dn_put_broker:
  assumes "kafka_log_ok K plog" "layout_ok r" "dn_put K s r = (s', True)"
  shows "\<exists>m>0. plog (broker s') = plog (broker s) @ replicate m (entriesKey (writer s), dn_entry (DnWrite r)) \<and>
     entriesKey (writer s') = entriesKey (writer s)"
proof -
  obtain w k err where c: "commit K s (ConstructWriteEntry r (block r)) = (w, k, err)"
    by (cases "commit K s (ConstructWriteEntry r (block r))")
  from assms(2,3) c have "err = None \<and> writer s' = w \<and> broker s' = k"
    by (auto simp: dn_put_def WriteChunk_def layout_padded Let_def split: if_splits option.splits prod.splits)
  with commit_retry_log [OF assms(1) c] show ?thesis by (auto simp: ACK_MOST_TIMES_def)
qed

lemma dn_delete_broker:
  assumes "kafka_log_ok K plog" "dn_delete K s q = (s', True)"
  shows "\<exists>m>0. plog (broker s') = plog (broker s) @ replicate m (entriesKey (writer s), dn_entry (DnDelete q)) \<and>
     entriesKey (writer s') = entriesKey (writer s)"
proof -
  obtain w k err where c: "commit K s (ConstructDeleteEntry q) = (w, k, err)"
    by (cases "commit K s (ConstructDeleteEntry q)")
  from assms(2) c have "err = None \<and> writer s' = w \<and> broker s' = k"
    by (auto simp: dn_delete_def DeleteChunk_def Let_def split: option.splits)
  with commit_retry_log [OF assms(1) c] show ?thesis by (auto simp: ACK_MOST_TIMES_def)
qed

lemma dn_run_broker:
  assumes "kafka_log_ok K plog" "\<And>x. x \<in> set xs \<Longrightarrow> dn_admissible x"
    and "exec_all (dn_exec K) s xs = Some s'"
  shows "\<exists>es. plog (broker s') = plog (broker s) @ map (Pair (entriesKey (writer s))) es \<and>
     stutters (log_of (dn_exec K) (\<lambda>_ x. Some (dn_entry x)) s xs) es"
  using assms(2,3)
proof (induction xs arbitrary: s)
  case Nil
  then show ?case by (auto intro: stutters_Nil)
next
  case (Cons x xs)
  obtain s1 where e: "dn_exec K s x = (s1, True)" and rest: "exec_all (dn_exec K) s1 xs = Some s'"
    using Cons.prems(2) by (auto split: prod.splits if_splits)
  have "\<exists>m>0. plog (broker s1) = plog (broker s) @ replicate m (entriesKey (writer s), dn_entry x) \<and>
     entriesKey (writer s1) = entriesKey (writer s)"
    using Cons.prems(1) [of x] e dn_put_broker [OF assms(1)] dn_delete_broker [OF assms(1)]
    by (cases x) auto
  then obtain m where m: "m > 0" "entriesKey (writer s1) = entriesKey (writer s)"
     "plog (broker s1) = plog (broker s) @ replicate m (entriesKey (writer s), dn_entry x)" by auto
  from Cons.IH [OF _ rest] Cons.prems(1) m(2) obtain es where
    "plog (broker s') = plog (broker s1) @ map (Pair (entriesKey (writer s))) es"
    "stutters (log_of (dn_exec K) (\<lambda>_ x. Some (dn_entry x)) s1 xs) es" by auto
  with m e show ?case
    by (intro exI [of _ "replicate m (dn_entry x) @ es"]) (auto intro: stutters_Cons)
qed

lemma dn_all_admissible:
  "(\<And>x. x \<in> set xs \<Longrightarrow> dn_admissible x) \<Longrightarrow> all_admissible (dn_exec K) (\<lambda>_. dn_admissible) s xs"
  by (induction xs arbitrary: s) auto

end
