(* ===== verification/Alloc.thy ===== *)
theory Alloc
  imports Prelude
begin

text \<open>
  \<open>sheetfs/master/datanode_alloc\<close>: the round-robin allocator of DataNode groups. The position is
  a \<open>uint\<close> below the number of nodes, so its successor cannot overflow; it is a natural number here.
\<close>

record dataNode =
  address :: string

record DataNodeAllocator =
  dataNodes :: "dataNode list"
  dataNodesSet :: "string set"
  curPos :: nat

datatype NoDataNodeError = NoDataNodeError

definition NewDataNodeAllocator :: DataNodeAllocator where
  "NewDataNodeAllocator = \<lparr>dataNodes = [\<lparr>address = []\<rparr>], dataNodesSet = {}, curPos = 0\<rparr>"

definition NewDataNodeAllocatorWithGroups :: "string list \<Rightarrow> DataNodeAllocator" where
  "NewDataNodeAllocatorWithGroups dataNodeGroups =
     (case foldl (\<lambda>(ns, st) grp. (ns @ [\<lparr>address = grp\<rparr>], insert grp st)) ([], {}) dataNodeGroups of
        (ns, st) \<Rightarrow> \<lparr>dataNodes = ns, dataNodesSet = st, curPos = 0\<rparr>)"

definition AddDataNode :: "DataNodeAllocator \<Rightarrow> string \<Rightarrow> DataNodeAllocator" where
  "AddDataNode c addr =
     (if addr \<in> dataNodesSet c then c
      else let ns = dataNodes c @ [\<lparr>address = addr\<rparr>]
           in c\<lparr>dataNodes := ns, curPos := length ns - 1, dataNodesSet := insert addr (dataNodesSet c)\<rparr>)"

text \<open>\<open>None\<close>: the index of the next node is out of range, a run-time panic.\<close>

definition AllocateNode :: "DataNodeAllocator \<Rightarrow> (DataNodeAllocator \<times> (NoDataNodeError + string)) option" where
  "AllocateNode c =
     (if length (dataNodes c) = 0 then Some (c, Inl NoDataNodeError)
      else if length (dataNodes c) \<le> curPos c then None
      else Some (c\<lparr>curPos := (curPos c + 1) mod length (dataNodes c)\<rparr>, Inr (address (dataNodes c ! curPos c))))"

subsection \<open>Invariant\<close>

definition alloc_ok :: "DataNodeAllocator \<Rightarrow> bool" where
  "alloc_ok c \<longleftrightarrow> (dataNodes c = [] \<longrightarrow> curPos c = 0) \<and> (dataNodes c \<noteq> [] \<longrightarrow> curPos c < length (dataNodes c))"

lemma foldl_groups:
  "foldl (\<lambda>(ns, st) grp. (ns @ [\<lparr>address = grp\<rparr>], insert grp st)) (ns0, st0) gs =
     (ns0 @ map (\<lambda>g. \<lparr>address = g\<rparr>) gs, set gs \<union> st0)"
  by (induction gs arbitrary: ns0 st0) auto

lemma NewDataNodeAllocatorWithGroups_eq:
  "NewDataNodeAllocatorWithGroups gs =
     \<lparr>dataNodes = map (\<lambda>g. \<lparr>address = g\<rparr>) gs, dataNodesSet = set gs, curPos = 0\<rparr>"
  by (simp add: NewDataNodeAllocatorWithGroups_def foldl_groups)

lemma alloc_ok_new [intro]: "alloc_ok NewDataNodeAllocator" "alloc_ok (NewDataNodeAllocatorWithGroups gs)"
  by (auto simp: alloc_ok_def NewDataNodeAllocator_def NewDataNodeAllocatorWithGroups_eq)

lemma alloc_ok_add [intro]: "alloc_ok c \<Longrightarrow> alloc_ok (AddDataNode c addr)"
  by (auto simp: alloc_ok_def AddDataNode_def Let_def)

lemma AllocateNode_ok:
  assumes "alloc_ok c"
  shows "\<exists>c' r. AllocateNode c = Some (c', r) \<and> alloc_ok c' \<and> dataNodes c' = dataNodes c \<and>
     (r = Inl NoDataNodeError \<longleftrightarrow> dataNodes c = []) \<and> (\<forall>a. r = Inr a \<longrightarrow> a \<in> address ` set (dataNodes c))"
  using assms by (auto simp: AllocateNode_def alloc_ok_def)

subsection \<open>Round robin\<close>

fun allocs :: "nat \<Rightarrow> DataNodeAllocator \<Rightarrow> (DataNodeAllocator \<times> string list) option" where
  "allocs 0 c = Some (c, [])"
| "allocs (Suc n) c =
     (case AllocateNode c of
        Some (c1, Inr a) \<Rightarrow> map_option (\<lambda>(c2, as). (c2, a # as)) (allocs n c1)
      | _ \<Rightarrow> None)"

lemma allocs_round_robin:
  assumes "curPos c < length (dataNodes c)"
  shows "\<exists>c'. allocs n c =
     Some (c', map (\<lambda>k. address (dataNodes c ! ((curPos c + k) mod length (dataNodes c)))) [0..<n])"
  using assms
proof (induction n arbitrary: c)
  case 0
  then show ?case by simp
next
  case (Suc n)
  let ?L = "length (dataNodes c)"
  define c1 where "c1 = c\<lparr>curPos := (curPos c + 1) mod ?L\<rparr>"
  have L: "0 < ?L" using Suc.prems by (cases "dataNodes c") auto
  have c1: "dataNodes c1 = dataNodes c" "curPos c1 = (curPos c + 1) mod ?L" "curPos c1 < ?L"
    using L by (simp_all add: c1_def)
  from Suc.IH [of c1] c1 obtain c' where
    "allocs n c1 = Some (c', map (\<lambda>k. address (dataNodes c ! (((curPos c + 1) mod ?L + k) mod ?L))) [0..<n])"
    by auto
  moreover have "((curPos c + 1) mod ?L + k) mod ?L = (curPos c + Suc k) mod ?L" for k
    by (simp add: mod_simps)
  moreover have "AllocateNode c = Some (c1, Inr (address (dataNodes c ! curPos c)))"
    using Suc.prems L by (simp add: AllocateNode_def c1_def)
  ultimately show ?case
    using Suc.prems by (simp add: upt_conv_Cons map_Suc_upt [symmetric] o_def del: upt_Suc)
qed

text \<open>
  C36: with configured groups the allocator hands the groups out in turn: the \<open>k\<close>-th allocation
  returns group \<open>k\<close> modulo their number, it never runs out and never panics.
\<close>

theorem allocator_round_robin:
  assumes "gs \<noteq> []"
  shows "\<exists>c'. allocs n (NewDataNodeAllocatorWithGroups gs) =
     Some (c', map (\<lambda>k. gs ! (k mod length gs)) [0..<n])"
  using allocs_round_robin [of "NewDataNodeAllocatorWithGroups gs" n] assms
  by (simp add: NewDataNodeAllocatorWithGroups_eq)

theorem allocator_round_robin_witness:
  "\<exists>c'. allocs 3 (NewDataNodeAllocatorWithGroups [''a'', ''b'']) = Some (c', [''a'', ''b'', ''a''])"
  using allocator_round_robin [of "[''a'', ''b'']" 3] by (simp add: numeral_eq_Suc upt_rec)

end
