(* ===== verification/Database.thy ===== *)
theory Database
  imports Prelude
begin

text \<open>
  The models \<open>sheetfs/master\<close> keeps in sqlite through gorm (cells, chunks, directory entries) and the
  queries it issues, as a record of functions that the operations take as an argument. At the end a
  small in-memory database that implements the queries, for evaluation.
\<close>

text \<open>\<open>c_ID\<close>, \<open>ch_ID\<close> and \<open>m_ID\<close> are the primary keys of the embedded models; 0 before the first insert.\<close>

record Cell =
  c_ID :: u64
  CellID :: i64
  c_Offset :: u64
  c_Size :: u64
  c_ChunkID :: u64
  SheetName :: string

record Chunk =
  ch_ID :: u64
  ch_DataNode :: string
  ch_Version :: u64
  ch_Cells :: "Cell list"

text \<open>Times are nanoseconds since the Unix epoch, without a bound; Go's zero time is in the year 1.\<close>

record MapEntry =
  m_ID :: u64
  FileName :: string
  CellsTableName :: string
  Recycled :: bool
  RecycledAt :: int

text \<open>
  \<open>g_has_table\<close>: the query of \<open>sqlite_master\<close> (\<open>None\<close>: it failed); \<open>g_create_table\<close>: the statements
  of \<open>create_tmpl\<close>, and whether they succeeded; \<open>g_put_chunk\<close>, \<open>g_put_cell\<close> and \<open>g_save_entry\<close>: an
  insert that updates on conflict, with the row's primary key; \<open>g_cells\<close>: all rows of a cell table
  (none if the query fails); \<open>g_chunk\<close>: a chunk by id with its cells of a table preloaded;
  \<open>g_entries\<close>: all directory entries; \<open>g_ckpt\<close> and \<open>g_save_ckpt\<close>: the start offset in checkpoint row
  1; \<open>g_tx_ok\<close>: whether a transaction that reached this state commits.
\<close>

record 'db gorm =
  g_has_table :: "'db \<Rightarrow> string \<Rightarrow> bool option"
  g_create_table :: "'db \<Rightarrow> string \<Rightarrow> 'db \<times> bool"
  g_put_chunk :: "'db \<Rightarrow> Chunk \<Rightarrow> 'db \<times> u64"
  g_put_cell :: "'db \<Rightarrow> string \<Rightarrow> Cell \<Rightarrow> 'db \<times> u64"
  g_cells :: "'db \<Rightarrow> string \<Rightarrow> Cell list"
  g_chunk :: "'db \<Rightarrow> string \<Rightarrow> u64 \<Rightarrow> Chunk"
  g_save_entry :: "'db \<Rightarrow> MapEntry \<Rightarrow> 'db \<times> u64"
  g_entries :: "'db \<Rightarrow> MapEntry list"
  g_ckpt :: "'db \<Rightarrow> int option"
  g_save_ckpt :: "'db \<Rightarrow> int \<Rightarrow> 'db"
  g_tx_ok :: "'db \<Rightarrow> bool"

subsection \<open>An in-memory database\<close>

text \<open>The row with primary key \<open>k + 1\<close> of a table is the \<open>k\<close>-th of its list.\<close>

record mem_db =
  md_chunks :: "Chunk list"
  md_tables :: "(string \<times> Cell list) list"
  md_entries :: "MapEntry list"
  md_ckpt :: "int option"

definition mem_db0 :: mem_db where
  "mem_db0 = \<lparr>md_chunks = [], md_tables = [], md_entries = [], md_ckpt = None\<rparr>"

definition put_row :: "'a list \<Rightarrow> u64 \<Rightarrow> (u64 \<Rightarrow> 'a) \<Rightarrow> 'a list \<times> u64" where
  "put_row rows key mk =
     (if key = 0 \<or> length rows < unat key
      then let k = word_of_nat (length rows + 1) in (rows @ [mk k], k)
      else (rows[unat key - 1 := mk key], key))"

definition mem_table :: "mem_db \<Rightarrow> string \<Rightarrow> Cell list" where
  "mem_table db t = (case map_of (md_tables db) t of None \<Rightarrow> [] | Some rows \<Rightarrow> rows)"

definition mem_gorm :: "mem_db gorm" where
  "mem_gorm = \<lparr>
     g_has_table = (\<lambda>db t. Some (map_of (md_tables db) t \<noteq> None)),
     g_create_table = (\<lambda>db t. (db\<lparr>md_tables := (t, []) # md_tables db\<rparr>, True)),
     g_put_chunk = (\<lambda>db c. case put_row (md_chunks db) (ch_ID c) (\<lambda>k. c\<lparr>ch_ID := k, ch_Cells := []\<rparr>) of
        (rows, k) \<Rightarrow> (db\<lparr>md_chunks := rows\<rparr>, k)),
     g_put_cell = (\<lambda>db t c. case put_row (mem_table db t) (c_ID c) (\<lambda>k. c\<lparr>c_ID := k, SheetName := []\<rparr>) of
        (rows, k) \<Rightarrow> (db\<lparr>md_tables := (t, rows) # filter (\<lambda>p. fst p \<noteq> t) (md_tables db)\<rparr>, k)),
     g_cells = mem_table,
     g_chunk = (\<lambda>db t i.
        if i = 0 \<or> length (md_chunks db) < unat i
        then \<lparr>ch_ID = 0, ch_DataNode = [], ch_Version = 0, ch_Cells = []\<rparr>
        else (md_chunks db ! (unat i - 1))\<lparr>ch_Cells := filter (\<lambda>c. c_ChunkID c = i) (mem_table db t)\<rparr>),
     g_save_entry = (\<lambda>db e. case put_row (md_entries db) (m_ID e) (\<lambda>k. e\<lparr>m_ID := k\<rparr>) of
        (rows, k) \<Rightarrow> (db\<lparr>md_entries := rows\<rparr>, k)),
     g_entries = md_entries,
     g_ckpt = md_ckpt,
     g_save_ckpt = (\<lambda>db i. db\<lparr>md_ckpt := Some i\<rparr>),
     g_tx_ok = (\<lambda>_. True)\<rparr>"

lemma mem_gorm_sel [simp]:
  "g_has_table mem_gorm db t = Some (map_of (md_tables db) t \<noteq> None)"
  "g_create_table mem_gorm db t = (db\<lparr>md_tables := (t, []) # md_tables db\<rparr>, True)"
  "g_put_chunk mem_gorm db c =
     (case put_row (md_chunks db) (ch_ID c) (\<lambda>k. c\<lparr>ch_ID := k, ch_Cells := []\<rparr>) of
        (rows, k) \<Rightarrow> (db\<lparr>md_chunks := rows\<rparr>, k))"
  "g_cells mem_gorm db t = mem_table db t"
  "g_entries mem_gorm db = md_entries db"
  "g_ckpt mem_gorm db = md_ckpt db"
  "g_save_ckpt mem_gorm db i = db\<lparr>md_ckpt := Some i\<rparr>"
  "g_tx_ok mem_gorm db"
  by (simp_all add: mem_gorm_def)

end
