(* ===== verification/SheetFile.thy ===== *)
theory SheetFile
  imports Alloc Database
begin

text \<open>
  \<open>sheetfs/master/sheetfile\<close>: cells, chunks and sheet files, the metadata a MasterNode keeps. The
  maps of a sheet file hold the values its pointers refer to: cells never change on a primary once
  created, a chunk is only reached through \<open>Chunks\<close> and \<open>LastAvailableChunk\<close>, which names an entry of
  \<open>Chunks\<close>, so the latter is kept as the chunk's id. A snapshot is the value itself. The database is
  an argument: a record of the queries the code issues.
\<close>

subsection \<open>Configuration\<close>

definition MaxCellsPerChunk :: u64 where "MaxCellsPerChunk = 4"
definition BytesPerChunk :: u64 where "BytesPerChunk = 8192"
definition MaxBytesPerCell :: u64 where "MaxBytesPerCell = BytesPerChunk div MaxCellsPerChunk"
definition SheetMetaCellRow :: u32 where "SheetMetaCellRow = - 1"
definition SheetMetaCellCol :: u32 where "SheetMetaCellCol = - 1"
definition SheetMetaCellID :: i64 where "SheetMetaCellID = - 1"

lemma config_values [layout_simps]:
  "BytesPerChunk = 8192" "MaxBytesPerCell = 2048"
  by (simp_all add: BytesPerChunk_def MaxBytesPerCell_def MaxCellsPerChunk_def)

subsection \<open>Cells and chunks\<close>

definition NewCell :: "i64 \<Rightarrow> u64 \<Rightarrow> u64 \<Rightarrow> u64 \<Rightarrow> string \<Rightarrow> Cell" where
  "NewCell cellID off sz chunkID sheetName =
     \<lparr>c_ID = 0, CellID = cellID, c_Offset = off, c_Size = sz, c_ChunkID = chunkID, SheetName = sheetName\<rparr>"

definition GetCellTableName :: "string \<Rightarrow> string" where
  "GetCellTableName sheetName = ''cells_'' @ sheetName"

definition Cell_TableName :: "Cell \<Rightarrow> string" where
  "Cell_TableName c = GetCellTableName (SheetName c)"

definition GetCellID :: "u32 \<Rightarrow> u32 \<Rightarrow> i64" where
  "GetCellID row col = push_bit 32 (ucast row) OR ucast col"

definition IsMeta :: "Cell \<Rightarrow> bool" where
  "IsMeta c \<longleftrightarrow> CellID c = SheetMetaCellID"

definition isAvailable :: "Chunk \<Rightarrow> u64 \<Rightarrow> bool" where
  "isAvailable c sz =
     (let used = foldl (\<lambda>used cell. used + c_Size cell) 0 (ch_Cells c);
          remains = BytesPerChunk - used
      in sz \<le> remains)"

subsection \<open>Queries\<close>

definition CreateCellTableIfNotExists :: "'db gorm \<Rightarrow> 'db \<Rightarrow> string \<Rightarrow> 'db \<times> bool" where
  "CreateCellTableIfNotExists G db sheetName =
     (case g_has_table G db (GetCellTableName sheetName) of
        None \<Rightarrow> (db, False)
      | Some True \<Rightarrow> (db, True)
      | Some False \<Rightarrow> g_create_table G db (GetCellTableName sheetName))"

definition GetSheetCellsAll :: "'db gorm \<Rightarrow> 'db \<Rightarrow> string \<Rightarrow> Cell list" where
  "GetSheetCellsAll G db sheetName = g_cells G db (GetCellTableName sheetName)"

definition Chunk_Persistent :: "'db gorm \<Rightarrow> 'db \<Rightarrow> Chunk \<Rightarrow> 'db \<times> Chunk" where
  "Chunk_Persistent G db c = (case g_put_chunk G db c of (db', i) \<Rightarrow> (db', c\<lparr>ch_ID := i\<rparr>))"

definition Cell_Persistent :: "'db gorm \<Rightarrow> 'db \<Rightarrow> Cell \<Rightarrow> 'db \<times> Cell" where
  "Cell_Persistent G db c =
     (case g_put_cell G db (Cell_TableName c) c of (db', i) \<Rightarrow> (db', c\<lparr>c_ID := i\<rparr>))"

definition loadChunkForFile :: "'db gorm \<Rightarrow> 'db \<Rightarrow> string \<Rightarrow> u64 \<Rightarrow> Chunk" where
  "loadChunkForFile G db fname i = g_chunk G db (GetCellTableName fname) i"

subsection \<open>Sheet files\<close>

record SheetFile =
  Chunks :: "u64 \<rightharpoonup> Chunk"
  Cells :: "i64 \<rightharpoonup> Cell"
  LastAvailableChunk :: "u64 option"
  sf_filename :: string

datatype fs_error =
    FileNotFoundError string
  | FileExistsError string
  | FdNotFoundError u64
  | CellNotFoundError u32 u32
  | NoDataNode
  | DBError
  | JournalError

text \<open>\<open>None\<close>: the allocator panics.\<close>

definition CreateSheetFile ::
  "'db gorm \<Rightarrow> 'db \<Rightarrow> DataNodeAllocator \<Rightarrow> string \<Rightarrow>
   ('db \<times> DataNodeAllocator \<times> (fs_error + SheetFile \<times> Cell \<times> Chunk)) option" where
  "CreateSheetFile G db alloc fname =
     (case CreateCellTableIfNotExists G db fname of
        (db1, False) \<Rightarrow> Some (db1, alloc, Inl DBError)
      | (db1, True) \<Rightarrow>
        (case AllocateNode alloc of
           None \<Rightarrow> None
         | Some (alloc1, Inl _) \<Rightarrow> Some (db1, alloc1, Inl NoDataNode)
         | Some (alloc1, Inr node) \<Rightarrow>
           (case Chunk_Persistent G db1 \<lparr>ch_ID = 0, ch_DataNode = node, ch_Version = 0, ch_Cells = []\<rparr> of
              (db2, chunk) \<Rightarrow>
              let metaCell = NewCell SheetMetaCellID 0 BytesPerChunk (ch_ID chunk) fname;
                  chunk1 = chunk\<lparr>ch_Cells := [metaCell]\<rparr>;
                  f = \<lparr>Chunks = [ch_ID chunk \<mapsto> chunk1], Cells = [CellID metaCell \<mapsto> metaCell],
                       LastAvailableChunk = None, sf_filename = fname\<rparr>
              in Some (db2, alloc1, Inr (f, metaCell, chunk1)))))"

definition load_cell :: "'db gorm \<Rightarrow> 'db \<Rightarrow> string \<Rightarrow> SheetFile \<Rightarrow> Cell \<Rightarrow> SheetFile" where
  "load_cell G db fname f cell =
     (let cell1 = cell\<lparr>SheetName := fname\<rparr>;
          f1 = f\<lparr>Cells := (Cells f)(CellID cell \<mapsto> cell1)\<rparr>
      in if c_ChunkID cell \<in> dom (Chunks f) then f1
         else let dataChunk = loadChunkForFile G db fname (c_ChunkID cell);
                  f2 = f1\<lparr>Chunks := (Chunks f1)(c_ChunkID cell \<mapsto> dataChunk)\<rparr>
              in if LastAvailableChunk f = None \<and> isAvailable dataChunk MaxBytesPerCell
                 then f2\<lparr>LastAvailableChunk := Some (c_ChunkID cell)\<rparr> else f2)"

definition LoadSheetFile :: "'db gorm \<Rightarrow> 'db \<Rightarrow> string \<Rightarrow> SheetFile" where
  "LoadSheetFile G db fname =
     foldl (load_cell G db fname)
       \<lparr>Chunks = Map.empty, Cells = Map.empty, LastAvailableChunk = None, sf_filename = fname\<rparr>
       (GetSheetCellsAll G db fname)"

text \<open>The order in which Go iterates over the map \<open>Chunks\<close> is an argument.\<close>

definition GetAllChunks :: "u64 list \<Rightarrow> SheetFile \<Rightarrow> Chunk list" where
  "GetAllChunks ord s = map (\<lambda>i. the (Chunks s i)) ord"

text \<open>\<open>None\<close>: the chunk of the cell is missing, a nil dereference.\<close>

definition GetCellChunk :: "SheetFile \<Rightarrow> u32 \<Rightarrow> u32 \<Rightarrow> (fs_error + Cell \<times> Chunk) option" where
  "GetCellChunk s row col =
     (case Cells s (GetCellID row col) of
        None \<Rightarrow> Some (Inl (CellNotFoundError row col))
      | Some cell \<Rightarrow>
          (case Chunks s (c_ChunkID cell) of None \<Rightarrow> None | Some chunk \<Rightarrow> Some (Inr (cell, chunk))))"

definition getCellOffset :: "Chunk \<Rightarrow> u64" where
  "getCellOffset chunk = word_of_nat (length (ch_Cells chunk)) * MaxBytesPerCell"

definition addCellToLastAvailable :: "SheetFile \<Rightarrow> u32 \<Rightarrow> u32 \<Rightarrow> u64 \<Rightarrow> (SheetFile \<times> Cell \<times> Chunk) option" where
  "addCellToLastAvailable s row col sz =
     do {
       k \<leftarrow> LastAvailableChunk s;
       chunk \<leftarrow> Chunks s k;
       let cell = NewCell (GetCellID row col) (getCellOffset chunk) sz (ch_ID chunk) (sf_filename s);
       let chunk1 = chunk\<lparr>ch_Cells := ch_Cells chunk @ [cell], ch_Version := ch_Version chunk + 1\<rparr>;
       Some (s\<lparr>Cells := (Cells s)(CellID cell \<mapsto> cell), Chunks := (Chunks s)(k \<mapsto> chunk1)\<rparr>, cell, chunk1)
     }"

definition WriteCellChunk ::
  "'db gorm \<Rightarrow> 'db \<Rightarrow> DataNodeAllocator \<Rightarrow> SheetFile \<Rightarrow> u32 \<Rightarrow> u32 \<Rightarrow>
   ('db \<times> DataNodeAllocator \<times> SheetFile \<times> (fs_error + Cell \<times> Chunk)) option" where
  "WriteCellChunk G db alloc s row col =
     (case Cells s (GetCellID row col) of
        Some cell \<Rightarrow>
          (case Chunks s (c_ChunkID cell) of
             None \<Rightarrow> None
           | Some dataChunk \<Rightarrow>
               let dataChunk1 = dataChunk\<lparr>ch_Version := ch_Version dataChunk + 1\<rparr>
               in Some (db, alloc, s\<lparr>Chunks := (Chunks s)(c_ChunkID cell \<mapsto> dataChunk1)\<rparr>, Inr (cell, dataChunk1)))
      | None \<Rightarrow>
          let newCellSize = (if row = SheetMetaCellRow \<and> col = SheetMetaCellCol then BytesPerChunk else MaxBytesPerCell)
          in if (case LastAvailableChunk s of
                   None \<Rightarrow> False
                 | Some k \<Rightarrow> (case Chunks s k of None \<Rightarrow> False | Some c \<Rightarrow> isAvailable c newCellSize))
             then (case addCellToLastAvailable s row col newCellSize of
                     None \<Rightarrow> None | Some (s1, cell, chunk) \<Rightarrow> Some (db, alloc, s1, Inr (cell, chunk)))
             else (case AllocateNode alloc of
                 None \<Rightarrow> None
               | Some (alloc1, Inl _) \<Rightarrow> Some (db, alloc1, s, Inl NoDataNode)
               | Some (alloc1, Inr datanode) \<Rightarrow>
                   (case Chunk_Persistent G db \<lparr>ch_ID = 0, ch_DataNode = datanode, ch_Version = 0, ch_Cells = []\<rparr> of
                      (db1, newChunk) \<Rightarrow>
                      let s1 = s\<lparr>Chunks := (Chunks s)(ch_ID newChunk \<mapsto> newChunk),
                                 LastAvailableChunk := Some (ch_ID newChunk)\<rparr>
                      in (case addCellToLastAvailable s1 row col newCellSize of
                            None \<Rightarrow> None | Some (s2, cell, chunk) \<Rightarrow> Some (db1, alloc1, s2, Inr (cell, chunk))))))"

text \<open>
  \<open>persistentData\<close> stores every cell and then every chunk, in the iteration orders of the two maps;
  the rows' keys are written back into the objects.
\<close>

definition persist_cell :: "'db gorm \<Rightarrow> 'db \<times> SheetFile \<Rightarrow> i64 \<Rightarrow> 'db \<times> SheetFile" where
  "persist_cell G st i =
     (case st of (db, s) \<Rightarrow>
      case Cells s i of None \<Rightarrow> (db, s)
      | Some c \<Rightarrow> (case Cell_Persistent G db c of (db', c') \<Rightarrow> (db', s\<lparr>Cells := (Cells s)(i \<mapsto> c')\<rparr>)))"

definition persist_chunk :: "'db gorm \<Rightarrow> 'db \<times> SheetFile \<Rightarrow> u64 \<Rightarrow> 'db \<times> SheetFile" where
  "persist_chunk G st i =
     (case st of (db, s) \<Rightarrow>
      case Chunks s i of None \<Rightarrow> (db, s)
      | Some c \<Rightarrow> (case Chunk_Persistent G db c of (db', c') \<Rightarrow> (db', s\<lparr>Chunks := (Chunks s)(i \<mapsto> c')\<rparr>)))"

definition persistentData :: "'db gorm \<Rightarrow> i64 list \<Rightarrow> u64 list \<Rightarrow> 'db \<Rightarrow> SheetFile \<Rightarrow> 'db \<times> SheetFile" where
  "persistentData G cells chunks db s =
     (if Cells s = Map.empty then (db, s)
      else foldl (persist_chunk G) (foldl (persist_cell G) (db, s) cells) chunks)"

definition SheetFile_Persistent ::
  "'db gorm \<Rightarrow> i64 list \<Rightarrow> u64 list \<Rightarrow> 'db \<Rightarrow> SheetFile \<Rightarrow> 'db \<times> SheetFile \<times> bool" where
  "SheetFile_Persistent G cells chunks db s =
     (case persistentData G cells chunks db s of
        (db', s') \<Rightarrow> if g_tx_ok G db' then (db', s', True) else (db, s', False))"

subsection \<open>Cell identifiers\<close>

lemma GetCellID_row: "ucast (drop_bit 32 (GetCellID row col)) = row"
  by (rule bit_word_eqI) (auto simp: GetCellID_def bit_simps dest: bit_imp_le_length)

lemma GetCellID_col: "ucast (GetCellID row col) = col"
  by (rule bit_word_eqI) (auto simp: GetCellID_def bit_simps)

lemma GetCellID_inject [simp]: "GetCellID r c = GetCellID r' c' \<longleftrightarrow> r = r' \<and> c = c'"
  by (metis GetCellID_row GetCellID_col)

lemma GetCellID_meta_cell: "GetCellID SheetMetaCellRow SheetMetaCellCol = SheetMetaCellID"
  by (rule bit_word_eqI)
     (auto simp: GetCellID_def SheetMetaCellRow_def SheetMetaCellCol_def SheetMetaCellID_def bit_simps)

lemma GetCellID_meta_iff:
  "GetCellID row col = SheetMetaCellID \<longleftrightarrow> row = SheetMetaCellRow \<and> col = SheetMetaCellCol"
  by (metis GetCellID_meta_cell GetCellID_inject)

subsection \<open>The layout invariant\<close>

text \<open>
  What fixes a cell's place. The copies of a cell in \<open>Cells\<close> and in its chunk agree on it; they may
  differ in the row key and the sheet name.
\<close>

definition slot :: "Cell \<Rightarrow> i64 \<times> u64 \<times> u64 \<times> u64" where
  "slot c = (CellID c, c_Offset c, c_Size c, c_ChunkID c)"

text \<open>A chunk holds the meta cell alone, or at most four cells, one per slot of 2048 bytes.\<close>

definition meta_chunk :: "Chunk \<Rightarrow> bool" where
  "meta_chunk ch \<longleftrightarrow> (\<exists>m. ch_Cells ch = [m] \<and> CellID m = SheetMetaCellID \<and> c_Offset m = 0 \<and> c_Size m = 8192)"

definition slot_chunk :: "Chunk \<Rightarrow> bool" where
  "slot_chunk ch \<longleftrightarrow> length (ch_Cells ch) \<le> 4 \<and>
     (\<forall>j < length (ch_Cells ch).
        c_Offset (ch_Cells ch ! j) = word_of_nat (j * 2048) \<and> c_Size (ch_Cells ch ! j) = 2048)"

definition chunk_ok :: "SheetFile \<Rightarrow> u64 \<Rightarrow> Chunk \<Rightarrow> bool" where
  "chunk_ok f k ch \<longleftrightarrow> ch_ID ch = k \<and> (meta_chunk ch \<or> slot_chunk ch) \<and> distinct (map CellID (ch_Cells ch)) \<and>
     (\<forall>c\<in>set (ch_Cells ch). c_ChunkID c = k \<and> map_option slot (Cells f (CellID c)) = Some (slot c))"

definition cell_ok :: "SheetFile \<Rightarrow> i64 \<Rightarrow> Cell \<Rightarrow> bool" where
  "cell_ok f i c \<longleftrightarrow> CellID c = i \<and>
     (\<exists>ch. Chunks f (c_ChunkID c) = Some ch \<and> slot c \<in> slot ` set (ch_Cells ch))"

definition sheet_ok :: "SheetFile \<Rightarrow> bool" where
  "sheet_ok f \<longleftrightarrow>
     (\<forall>k ch. Chunks f k = Some ch \<longrightarrow> chunk_ok f k ch) \<and>
     (\<forall>i c. Cells f i = Some c \<longrightarrow> cell_ok f i c) \<and>
     (\<forall>k. LastAvailableChunk f = Some k \<longrightarrow> k \<in> dom (Chunks f)) \<and>
     SheetMetaCellID \<in> dom (Cells f)"

lemma used_sum: "foldl (\<lambda>used cell. used + c_Size cell) u cs = u + sum_list (map c_Size cs)"
  by (induction cs arbitrary: u) (auto simp: ac_simps)

lemma slot_chunk_used:
  assumes "slot_chunk ch"
  shows "sum_list (map c_Size (ch_Cells ch)) = word_of_nat (length (ch_Cells ch) * 2048)"
proof -
  have "map c_Size (ch_Cells ch) = replicate (length (ch_Cells ch)) 2048"
    using assms by (intro replicate_eqI) (auto simp: slot_chunk_def in_set_conv_nth)
  then show ?thesis by (simp add: sum_list_replicate)
qed

lemma isAvailable_slot:
  assumes "slot_chunk ch"
  shows "isAvailable ch 2048 \<longleftrightarrow> length (ch_Cells ch) < 4"
proof -
  have "n \<le> 4 \<Longrightarrow> n \<in> {0, 1, 2, 3, 4}" for n :: nat by auto
  then have "length (ch_Cells ch) \<in> {0, 1, 2, 3, 4}" using assms unfolding slot_chunk_def by blast
  then show ?thesis
    using slot_chunk_used [OF assms]
    by (auto simp: isAvailable_def used_sum layout_simps)
qed

lemma isAvailable_meta: "meta_chunk ch \<Longrightarrow> \<not> isAvailable ch 2048"
  by (auto simp: meta_chunk_def isAvailable_def layout_simps)

lemma slot_inject: "slot c = slot d \<Longrightarrow> CellID c = CellID d \<and> c_ChunkID c = c_ChunkID d"
  by (simp add: slot_def)

lemma sheet_okD:
  assumes "sheet_ok f"
  shows "\<And>k ch. Chunks f k = Some ch \<Longrightarrow> chunk_ok f k ch"
    and "\<And>i c. Cells f i = Some c \<Longrightarrow> cell_ok f i c"
    and "\<And>k. LastAvailableChunk f = Some k \<Longrightarrow> \<exists>ch. Chunks f k = Some ch"
    and "\<exists>m. Cells f SheetMetaCellID = Some m"
  using assms by (auto simp: sheet_ok_def)

text \<open>Bumping a version keeps the invariant.\<close>

lemma sheet_ok_version:
  assumes "sheet_ok f" "Chunks f k = Some ch"
  shows "sheet_ok (f\<lparr>Chunks := (Chunks f)(k \<mapsto> ch\<lparr>ch_Version := v\<rparr>)\<rparr>)"
  (is "sheet_ok ?f")
proof -
  have "chunk_ok ?f k' c \<longleftrightarrow> chunk_ok f k' c" for k' c by (simp add: chunk_ok_def)
  moreover have "chunk_ok f k (ch\<lparr>ch_Version := v\<rparr>) \<longleftrightarrow> chunk_ok f k ch"
    by (simp add: chunk_ok_def meta_chunk_def slot_chunk_def)
  moreover have "cell_ok f i c \<Longrightarrow> cell_ok ?f i c" for i c
    using assms(2) by (auto simp: cell_ok_def)
  ultimately show ?thesis
    using assms by (auto simp: sheet_ok_def)
qed

text \<open>So does a new empty chunk with a fresh id.\<close>

lemma sheet_ok_new_chunk:
  assumes "sheet_ok f" "Chunks f k = None" "ch_ID ch = k" "ch_Cells ch = []"
  shows "sheet_ok (f\<lparr>Chunks := (Chunks f)(k \<mapsto> ch), LastAvailableChunk := Some k\<rparr>)"
  (is "sheet_ok ?f")
proof -
  have "chunk_ok ?f k' c \<longleftrightarrow> chunk_ok f k' c" for k' c by (simp add: chunk_ok_def)
  moreover have "chunk_ok f k ch" using assms(3,4) by (simp add: chunk_ok_def slot_chunk_def)
  moreover have "cell_ok f i c \<Longrightarrow> cell_ok ?f i c" for i c
    using assms(2) by (auto simp: cell_ok_def)
  ultimately show ?thesis
    using assms by (auto simp: sheet_ok_def)
qed

text \<open>Adding a cell to a chunk with a free slot.\<close>

lemma addCell_eq:
  assumes "LastAvailableChunk s = Some k" "Chunks s k = Some ch"
  shows "addCellToLastAvailable s row col sz =
    (let cell = NewCell (GetCellID row col) (getCellOffset ch) sz (ch_ID ch) (sf_filename s);
         ch1 = ch\<lparr>ch_Cells := ch_Cells ch @ [cell], ch_Version := ch_Version ch + 1\<rparr>
     in Some (s\<lparr>Cells := (Cells s)(GetCellID row col \<mapsto> cell), Chunks := (Chunks s)(k \<mapsto> ch1)\<rparr>, cell, ch1))"
  using assms by (simp add: addCellToLastAvailable_def NewCell_def Let_def)

lemma slot_chunk_snoc:
  assumes "slot_chunk ch" "length (ch_Cells ch) < 4"
    and "c_Offset c = word_of_nat (length (ch_Cells ch) * 2048)" "c_Size c = 2048"
  shows "slot_chunk (ch\<lparr>ch_Cells := ch_Cells ch @ [c], ch_Version := v\<rparr>)"
  using assms by (auto simp: slot_chunk_def nth_append less_Suc_eq)

lemma sheet_ok_add:
  assumes ok: "sheet_ok s" and ch: "Chunks s k = Some ch" and av: "isAvailable ch 2048"
    and new: "Cells s i = None"
    and cell: "cell = NewCell i (getCellOffset ch) 2048 (ch_ID ch) fname"
  shows "sheet_ok (s\<lparr>Cells := (Cells s)(i \<mapsto> cell),
     Chunks := (Chunks s)(k \<mapsto> ch\<lparr>ch_Cells := ch_Cells ch @ [cell], ch_Version := v\<rparr>)\<rparr>)"
  (is "sheet_ok ?f")
proof -
  let ?ch = "ch\<lparr>ch_Cells := ch_Cells ch @ [cell], ch_Version := v\<rparr>"
  note D = sheet_okD [OF ok]
  have ck: "chunk_ok s k ch" by (rule D(1) [OF ch])
  with av have sc: "slot_chunk ch" by (auto simp: chunk_ok_def isAvailable_meta)
  have lt: "length (ch_Cells ch) < 4" using av sc by (simp add: isAvailable_slot)
  have "getCellOffset ch = word_of_nat (length (ch_Cells ch) * 2048)"
    by (simp add: getCellOffset_def layout_simps)
  then have cs: "CellID cell = i" "c_ChunkID cell = k" "c_Size cell = 2048"
    "c_Offset cell = word_of_nat (length (ch_Cells ch) * 2048)"
    using cell ck by (simp_all add: NewCell_def chunk_ok_def)
  have sc': "slot_chunk ?ch" using slot_chunk_snoc [OF sc lt cs(4,3)] .
  have fresh: "CellID c \<noteq> i" if "chunk_ok s k' c'" "c \<in> set (ch_Cells c')" for k' c' c
    using that new by (auto simp: chunk_ok_def)
  have "chunk_ok ?f k' c' " if "chunk_ok s k' c'" for k' c'
    using that fresh [OF that] by (auto simp: chunk_ok_def)
  moreover have "chunk_ok ?f k ?ch"
  proof -
    have "i \<notin> CellID ` set (ch_Cells ch)" using fresh [OF ck] by auto
    moreover have "map_option slot (Cells ?f (CellID c)) = Some (slot c)"
      if "c \<in> set (ch_Cells ch)" for c
      using that ck fresh [OF ck that] by (simp add: chunk_ok_def)
    ultimately show ?thesis using ck sc' cs by (auto simp: chunk_ok_def)
  qed
  moreover have "cell_ok ?f j c" if "cell_ok s j c" for j c
    using that ch by (auto simp: cell_ok_def)
  moreover have "cell_ok ?f i cell" using cs by (simp add: cell_ok_def)
  ultimately show ?thesis
    using ok ch by (auto simp: sheet_ok_def)
qed

subsection \<open>Writing a cell\<close>

text \<open>
  The id of a chunk created in the database is not one of the sheet's: primary keys are assigned by
  auto-increment.
\<close>

definition fresh_chunk_ids :: "'db gorm \<Rightarrow> 'db \<Rightarrow> SheetFile \<Rightarrow> bool" where
  "fresh_chunk_ids G db s \<longleftrightarrow> (\<forall>c. ch_ID c = 0 \<longrightarrow> Chunks s (snd (g_put_chunk G db c)) = None)"

definition version_of :: "SheetFile \<Rightarrow> u64 \<Rightarrow> u64" where
  "version_of s k = (case Chunks s k of None \<Rightarrow> 0 | Some ch \<Rightarrow> ch_Version ch)"

definition cells_of :: "SheetFile \<Rightarrow> u64 \<Rightarrow> Cell list" where
  "cells_of s k = (case Chunks s k of None \<Rightarrow> [] | Some ch \<Rightarrow> ch_Cells ch)"

text \<open>
  The effect of a granted write: the cell exists, its chunk's version went up by one, a new cell is
  the last of its chunk, the rest is unchanged.
\<close>

definition granted :: "SheetFile \<Rightarrow> i64 \<Rightarrow> SheetFile \<Rightarrow> Cell \<Rightarrow> Chunk \<Rightarrow> bool" where
  "granted s i s' cell ch \<longleftrightarrow>
     CellID cell = i \<and> Cells s' = (Cells s)(i \<mapsto> cell) \<and>
     Chunks s' = (Chunks s)(c_ChunkID cell \<mapsto> ch) \<and>
     ch_Version ch = version_of s (c_ChunkID cell) + 1 \<and> ch_ID ch = c_ChunkID cell \<and>
     (case Cells s i of
        Some c \<Rightarrow> cell = c \<and> ch_Cells ch = cells_of s (c_ChunkID cell) \<and> c_ChunkID cell \<in> dom (Chunks s)
      | None \<Rightarrow> c_ID cell = 0 \<and> SheetName cell = sf_filename s \<and>
          ch_Cells ch = cells_of s (c_ChunkID cell) @ [cell]) \<and>
     sf_filename s' = sf_filename s"

lemma WriteCellChunk_existing:
  assumes "sheet_ok s" "Cells s (GetCellID row col) = Some cell"
  shows "\<exists>s' ch. WriteCellChunk G db al s row col = Some (db, al, s', Inr (cell, ch)) \<and>
     sheet_ok s' \<and> granted s (GetCellID row col) s' cell ch"
proof -
  from sheet_okD(2) [OF assms] obtain ch where
    c: "Chunks s (c_ChunkID cell) = Some ch" "CellID cell = GetCellID row col"
    by (auto simp: cell_ok_def)
  have "ch_ID ch = c_ChunkID cell" using sheet_okD(1) [OF assms(1) c(1)] by (simp add: chunk_ok_def)
  with c assms sheet_ok_version [OF assms(1) c(1)] show ?thesis
    by (auto simp: WriteCellChunk_def granted_def version_of_def cells_of_def Let_def fun_upd_idem)
qed

lemma WriteCellChunk_append:
  assumes "sheet_ok s" "Cells s (GetCellID row col) = None"
    and "LastAvailableChunk s = Some k" "Chunks s k = Some ch" "isAvailable ch 2048"
  shows "\<exists>s' cell ch'. addCellToLastAvailable s row col 2048 = Some (s', cell, ch') \<and>
     sheet_ok s' \<and> granted s (GetCellID row col) s' cell ch' \<and> c_ChunkID cell = k"
proof -
  let ?cell = "NewCell (GetCellID row col) (getCellOffset ch) 2048 (ch_ID ch) (sf_filename s)"
  have "ch_ID ch = k" using sheet_okD(1) [OF assms(1,4)] by (simp add: chunk_ok_def)
  then show ?thesis
    using sheet_ok_add [OF assms(1,4,5,2) refl, where fname = "sf_filename s" and v = "ch_Version ch + 1"] assms(2,4)
    by (auto simp: addCell_eq [OF assms(3,4)] Let_def granted_def version_of_def cells_of_def NewCell_def)
qed

lemma not_meta_size:
  assumes "sheet_ok s" "Cells s (GetCellID row col) = None"
  shows "(if row = SheetMetaCellRow \<and> col = SheetMetaCellCol then BytesPerChunk else MaxBytesPerCell) = 2048"
  using sheet_okD(4) [OF assms(1)] assms(2) by (auto simp: layout_simps GetCellID_meta_cell)

text \<open>\<open>WriteCellChunk\<close> on every branch; it never panics.\<close>

lemma WriteCellChunk_cases:
  assumes ok: "sheet_ok s" and al: "alloc_ok al" and fr: "fresh_chunk_ids G db s"
  obtains (granted) db' al' s' cell ch where
      "WriteCellChunk G db al s row col = Some (db', al', s', Inr (cell, ch))"
      "sheet_ok s'" "alloc_ok al'" "granted s (GetCellID row col) s' cell ch"
      "db' = db \<and> c_ChunkID cell \<in> dom (Chunks s) \<or>
       (\<exists>c. ch_ID c = 0 \<and> g_put_chunk G db c = (db', c_ChunkID cell))"
  | (no_node) "WriteCellChunk G db al s row col = Some (db, al, s, Inl NoDataNode)" "dataNodes al = []"
proof (cases "Cells s (GetCellID row col)")
  case (Some cell)
  from WriteCellChunk_existing [OF ok Some, of G db al] obtain s' ch where
    w: "WriteCellChunk G db al s row col = Some (db, al, s', Inr (cell, ch))" "sheet_ok s'"
      "granted s (GetCellID row col) s' cell ch" by blast
  have "c_ChunkID cell \<in> dom (Chunks s)" using w(3) Some by (simp add: granted_def)
  with w al show ?thesis by (intro granted [of db al s' cell ch]) auto
next
  case None
  note sz = not_meta_size [OF ok None]
  show ?thesis
  proof (cases "\<exists>k ch. LastAvailableChunk s = Some k \<and> Chunks s k = Some ch \<and> isAvailable ch 2048")
    case True
    then obtain k ch where k: "LastAvailableChunk s = Some k" "Chunks s k = Some ch" "isAvailable ch 2048" by auto
    from WriteCellChunk_append [OF ok None k] obtain s' cell ch' where
      w: "addCellToLastAvailable s row col 2048 = Some (s', cell, ch')" "sheet_ok s'"
        "granted s (GetCellID row col) s' cell ch'" "c_ChunkID cell = k" by blast
    with k None sz al show ?thesis
      by (intro granted [of db al s' cell ch']) (auto simp: WriteCellChunk_def Let_def)
  next
    case False
    then have not_av: "\<not> (case LastAvailableChunk s of None \<Rightarrow> False
        | Some k \<Rightarrow> (case Chunks s k of None \<Rightarrow> False | Some c \<Rightarrow> isAvailable c 2048))"
      by (auto split: option.splits)
    show ?thesis
    proof (cases "dataNodes al = []")
      case True
      with None not_av sz show ?thesis
        by (intro no_node) (auto simp: WriteCellChunk_def AllocateNode_def Let_def)
    next
      case nodes: False
      from AllocateNode_ok [OF al] nodes obtain al1 node where
        a: "AllocateNode al = Some (al1, Inr node)" "alloc_ok al1"
        by (auto split: sum.splits) (metis NoDataNodeError.exhaust sum.exhaust)
      let ?c = "\<lparr>ch_ID = 0, ch_DataNode = node, ch_Version = 0, ch_Cells = []\<rparr>"
      obtain db1 k where p: "g_put_chunk G db ?c = (db1, k)" by (cases "g_put_chunk G db ?c")
      have new: "Chunks s k = None" using fr p unfolding fresh_chunk_ids_def
        by (metis Chunk.select_convs(1) snd_conv)
      let ?s1 = "s\<lparr>Chunks := (Chunks s)(k \<mapsto> ?c\<lparr>ch_ID := k\<rparr>), LastAvailableChunk := Some k\<rparr>"
      have ok1: "sheet_ok ?s1" using ok new by (intro sheet_ok_new_chunk) auto
      have av: "isAvailable (?c\<lparr>ch_ID := k\<rparr>) 2048" by (simp add: isAvailable_def layout_simps)
      from WriteCellChunk_append [OF ok1 _ _ _ av, of row col k] None obtain s2 cell ch where
        w: "addCellToLastAvailable ?s1 row col 2048 = Some (s2, cell, ch)" "sheet_ok s2"
          "granted ?s1 (GetCellID row col) s2 cell ch" "c_ChunkID cell = k" by auto
      have "granted s (GetCellID row col) s2 cell ch"
        using w(3,4) new None by (simp add: granted_def version_of_def cells_of_def)
      with None not_av sz a p w show ?thesis
        by (intro granted [of db1 al1 s2 cell ch])
           (auto simp: WriteCellChunk_def Chunk_Persistent_def Let_def intro!: exI [of _ ?c])
    qed
  qed
qed

end
