(* ===== verification/JournalEntry.thy ===== *)
theory JournalEntry
  imports SheetFile
begin

text \<open>
  \<open>sheetfs/master/journal/journal_entry\<close>: the entries of the master's journal and their conversions
  from and to the in-memory models. An \<open>Empty\<close> alternative of a \<open>oneof\<close> field is \<open>None\<close>.
\<close>

datatype State = PRESENT | ABSENT

record CellEntry =
  ce_TargetState :: State
  ce_CellId :: i64
  ce_Offset :: u64
  ce_Size :: u64
  ce_ChunkId :: u64
  ce_SheetName :: string

record ChunkEntry =
  che_TargetState :: State
  che_Id :: u64
  che_Version :: u64
  che_Datanode :: string

record FileMapEntry =
  fe_TargetState :: State
  fe_Filename :: string
  fe_CellsTableName :: string
  fe_Recycled :: bool
  fe_RecycledTimestamp :: i64

record MasterEntry =
  XCell :: "CellEntry option"
  XChunk :: "ChunkEntry option"
  XFileMap :: "FileMapEntry option"

text \<open>
  \<open>time.Time.UnixNano\<close> wraps a time that does not fit an \<open>int64\<close>; \<open>time.Unix(0, n)\<close> reads it back.
  Go's zero time is January 1 of the year 1.
\<close>

definition UnixNano :: "int \<Rightarrow> i64" where
  "UnixNano t = word_of_int t"

definition time_Unix :: "i64 \<Rightarrow> int" where
  "time_Unix n = sint n"

definition zero_time :: int where
  "zero_time = - 62135596800 * 1000000000"

definition FromSheetCell :: "Cell \<Rightarrow> CellEntry" where
  "FromSheetCell c = \<lparr>ce_TargetState = PRESENT, ce_CellId = CellID c, ce_Offset = c_Offset c,
     ce_Size = c_Size c, ce_ChunkId = c_ChunkID c, ce_SheetName = SheetName c\<rparr>"

definition ToSheetCell :: "Cell \<Rightarrow> CellEntry \<Rightarrow> Cell" where
  "ToSheetCell scell e = scell\<lparr>CellID := ce_CellId e, c_Offset := ce_Offset e, c_Size := ce_Size e,
     c_ChunkID := ce_ChunkId e, SheetName := ce_SheetName e\<rparr>"

definition FromSheetChunk :: "Chunk \<Rightarrow> ChunkEntry" where
  "FromSheetChunk c = \<lparr>che_TargetState = PRESENT, che_Id = ch_ID c, che_Version = ch_Version c,
     che_Datanode = ch_DataNode c\<rparr>"

definition ToSheetChunk :: "Chunk \<Rightarrow> ChunkEntry \<Rightarrow> Chunk" where
  "ToSheetChunk schunk e = schunk\<lparr>ch_ID := che_Id e, ch_Version := che_Version e, ch_DataNode := che_Datanode e\<rparr>"

definition FromMgrEntry :: "MapEntry \<Rightarrow> FileMapEntry" where
  "FromMgrEntry m = \<lparr>fe_TargetState = PRESENT, fe_Filename = FileName m, fe_CellsTableName = CellsTableName m,
     fe_Recycled = Recycled m, fe_RecycledTimestamp = UnixNano (RecycledAt m)\<rparr>"

definition ToMgrEntry :: "MapEntry \<Rightarrow> FileMapEntry \<Rightarrow> MapEntry" where
  "ToMgrEntry m e = m\<lparr>FileName := fe_Filename e, CellsTableName := fe_CellsTableName e,
     Recycled := fe_Recycled e, RecycledAt := time_Unix (fe_RecycledTimestamp e)\<rparr>"

definition zero_cell :: Cell where
  "zero_cell = \<lparr>c_ID = 0, CellID = 0, c_Offset = 0, c_Size = 0, c_ChunkID = 0, SheetName = []\<rparr>"

definition zero_chunk :: Chunk where
  "zero_chunk = \<lparr>ch_ID = 0, ch_DataNode = [], ch_Version = 0, ch_Cells = []\<rparr>"

definition zero_entry :: MapEntry where
  "zero_entry = \<lparr>m_ID = 0, FileName = [], CellsTableName = [], Recycled = False, RecycledAt = zero_time\<rparr>"

subsection \<open>Round trips\<close>

text \<open>Converting to an entry and back restores everything but the row key (and the cells of a chunk).\<close>

lemma ToSheetCell_From: "ToSheetCell c0 (FromSheetCell c) = c\<lparr>c_ID := c_ID c0\<rparr>"
  by (simp add: ToSheetCell_def FromSheetCell_def)

lemma ToSheetChunk_From: "ToSheetChunk c0 (FromSheetChunk c) = c\<lparr>ch_Cells := ch_Cells c0\<rparr>"
  by (simp add: ToSheetChunk_def FromSheetChunk_def)

lemma ToMgrEntry_From:
  "ToMgrEntry m0 (FromMgrEntry m) = m\<lparr>m_ID := m_ID m0, RecycledAt := time_Unix (UnixNano (RecycledAt m))\<rparr>"
  by (simp add: ToMgrEntry_def FromMgrEntry_def)

lemma time_roundtrip: "- (2 ^ 63) \<le> t \<Longrightarrow> t < 2 ^ 63 \<Longrightarrow> time_Unix (UnixNano t) = t"
  by (simp add: time_Unix_def UnixNano_def signed_of_int signed_take_bit_int_eq_self)

end
