(* ===== verification/FileMgr.thy ===== *)
theory FileMgr
  imports JournalEntry CommonJournal
begin

text \<open>
  \<open>sheetfs/master/filemgr\<close> and \<open>master/journal/checkpoint\<close>: the directory of sheet files with its open
  files and descriptors, the journaled operations of a primary, and \<open>HandleMasterEntry\<close>, by which a
  secondary applies the journal. The database, the Kafka client and the protobuf codecs are the
  environment argument. \<open>None\<close> as the result of an operation is a run-time panic.
\<close>

record ('db, 'k) env =
  e_gorm :: "'db gorm"
  e_kafka :: "'k kafka"
  e_marshal :: "MasterEntry \<Rightarrow> byte list option"
  e_unmarshal :: "byte list \<Rightarrow> MasterEntry option"
  e_ckpt :: "Checkpoint \<Rightarrow> byte list"

record ('db, 'k) FileManager =
  Entries :: "string \<rightharpoonup> MapEntry"
  Opened :: "string \<rightharpoonup> SheetFile"
  Fds :: "u64 \<rightharpoonup> string"
  nextFd :: u64
  fm_db :: 'db
  fm_alloc :: DataNodeAllocator
  journalWriter :: "Writer option"
  fm_broker :: 'k

subsection \<open>Operations of a primary\<close>

definition writeJournal ::
  "('db, 'k) env \<Rightarrow> ('db, 'k) FileManager \<Rightarrow> MasterEntry \<Rightarrow> ('db, 'k) FileManager \<times> fs_error option" where
  "writeJournal E f jEntry =
     (case journalWriter f of
        None \<Rightarrow> (f, None)
      | Some w \<Rightarrow>
          (case e_marshal E jEntry of
             None \<Rightarrow> (f, Some JournalError)
           | Some buf \<Rightarrow>
               (case CommitEntry (e_kafka E) w (fm_broker f) buf of
                  (w', k', err) \<Rightarrow>
                    (f\<lparr>journalWriter := Some w', fm_broker := k'\<rparr>, map_option (\<lambda>_. JournalError) err))))"

definition allocFd :: "('db, 'k) FileManager \<Rightarrow> ('db, 'k) FileManager \<times> u64" where
  "allocFd f = (f\<lparr>nextFd := nextFd f + 1\<rparr>, nextFd f)"

definition openFile ::
  "('db, 'k) env \<Rightarrow> ('db, 'k) FileManager \<Rightarrow> string \<Rightarrow> ('db, 'k) FileManager \<times> (fs_error + u64)" where
  "openFile E f fname =
     (case Entries f fname of
        None \<Rightarrow> (f, Inl (FileNotFoundError fname))
      | Some entry \<Rightarrow>
          if Recycled entry then (f, Inl (FileNotFoundError fname))
          else
            let f1 = (case Opened f fname of
                        Some _ \<Rightarrow> f
                      | None \<Rightarrow> f\<lparr>Opened := (Opened f)(fname \<mapsto> LoadSheetFile (e_gorm E) (fm_db f) fname)\<rparr>);
                (f2, fd) = allocFd f1
            in (f2\<lparr>Fds := (Fds f2)(fd \<mapsto> fname)\<rparr>, Inr fd))"

text \<open>The file is \<open>None\<close> when the descriptor names a file that is not open (a nil pointer).\<close>

definition getFileByFd :: "('db, 'k) FileManager \<Rightarrow> u64 \<Rightarrow> fs_error + SheetFile option" where
  "getFileByFd f fd =
     (case Fds f fd of
        None \<Rightarrow> Inl (FdNotFoundError fd)
      | Some fname \<Rightarrow> Inr (Opened f fname))"

definition CreateSheet ::
  "('db, 'k) env \<Rightarrow> ('db, 'k) FileManager \<Rightarrow> string \<Rightarrow> (('db, 'k) FileManager \<times> (fs_error + u64)) option" where
  "CreateSheet E f fname =
     (if fname \<in> dom (Entries f) then Some (f, Inl (FileExistsError fname))
      else case CreateSheetFile (e_gorm E) (fm_db f) (fm_alloc f) fname of
        None \<Rightarrow> None
      | Some (db1, al1, Inl e) \<Rightarrow> Some (f\<lparr>fm_db := db1, fm_alloc := al1\<rparr>, Inl e)
      | Some (db1, al1, Inr (sheet, newCell, newChunk)) \<Rightarrow>
          let newEntry = \<lparr>m_ID = 0, FileName = fname, CellsTableName = GetCellTableName fname,
                          Recycled = False, RecycledAt = zero_time\<rparr>
          in (case writeJournal E (f\<lparr>fm_db := db1, fm_alloc := al1\<rparr>)
                     \<lparr>XCell = Some (FromSheetCell newCell), XChunk = Some (FromSheetChunk newChunk),
                      XFileMap = Some (FromMgrEntry newEntry)\<rparr> of
                (f1, Some e) \<Rightarrow> Some (f1, Inl e)
              | (f1, None) \<Rightarrow>
                  (case allocFd (f1\<lparr>Entries := (Entries f1)(fname \<mapsto> newEntry),
                                    Opened := (Opened f1)(fname \<mapsto> sheet)\<rparr>) of
                     (f2, fd) \<Rightarrow> Some (f2\<lparr>Fds := (Fds f2)(fd \<mapsto> fname)\<rparr>, Inr fd))))"

definition OpenSheet ::
  "('db, 'k) env \<Rightarrow> ('db, 'k) FileManager \<Rightarrow> string \<Rightarrow> ('db, 'k) FileManager \<times> (fs_error + u64)" where
  "OpenSheet E f fname = openFile E f fname"

text \<open>\<open>now\<close> is the reading of the clock.\<close>

definition RecycleSheet ::
  "('db, 'k) env \<Rightarrow> int \<Rightarrow> ('db, 'k) FileManager \<Rightarrow> string \<Rightarrow> ('db, 'k) FileManager \<times> fs_error option" where
  "RecycleSheet E now f fname =
     (case Entries f fname of
        None \<Rightarrow> (f, None)
      | Some entry \<Rightarrow>
          let tempEntry = entry\<lparr>Recycled := True, RecycledAt := now\<rparr>
          in (case writeJournal E f \<lparr>XCell = None, XChunk = None, XFileMap = Some (FromMgrEntry tempEntry)\<rparr> of
                (f1, Some e) \<Rightarrow> (f1, Some e)
              | (f1, None) \<Rightarrow> (f1\<lparr>Entries := (Entries f1)(fname \<mapsto> tempEntry)\<rparr>, None)))"

definition ResumeSheet ::
  "('db, 'k) env \<Rightarrow> ('db, 'k) FileManager \<Rightarrow> string \<Rightarrow> ('db, 'k) FileManager \<times> fs_error option" where
  "ResumeSheet E f fname =
     (case Entries f fname of
        None \<Rightarrow> (f, None)
      | Some entry \<Rightarrow>
          let tempEntry = entry\<lparr>Recycled := False\<rparr>
          in (case writeJournal E f \<lparr>XCell = None, XChunk = None, XFileMap = Some (FromMgrEntry tempEntry)\<rparr> of
                (f1, Some e) \<Rightarrow> (f1, Some e)
              | (f1, None) \<Rightarrow> (f1\<lparr>Entries := (Entries f1)(fname \<mapsto> tempEntry)\<rparr>, None)))"

text \<open>The iteration order of the map of chunks is an argument.\<close>

definition ReadSheet :: "u64 list \<Rightarrow> ('db, 'k) FileManager \<Rightarrow> u64 \<Rightarrow> (fs_error + Chunk list) option" where
  "ReadSheet ord f fd =
     (case getFileByFd f fd of
        Inl e \<Rightarrow> Some (Inl e)
      | Inr None \<Rightarrow> None
      | Inr (Some sheet) \<Rightarrow> Some (Inr (GetAllChunks ord sheet)))"

definition ReadFileCell :: "('db, 'k) FileManager \<Rightarrow> u64 \<Rightarrow> u32 \<Rightarrow> u32 \<Rightarrow> (fs_error + Cell \<times> Chunk) option" where
  "ReadFileCell f fd row col =
     (case getFileByFd f fd of
        Inl e \<Rightarrow> Some (Inl e)
      | Inr None \<Rightarrow> None
      | Inr (Some sheet) \<Rightarrow> GetCellChunk sheet row col)"

text \<open>The journal error of a cell write is ignored, as in the code.\<close>

definition WriteFileCell ::
  "('db, 'k) env \<Rightarrow> ('db, 'k) FileManager \<Rightarrow> u64 \<Rightarrow> u32 \<Rightarrow> u32 \<Rightarrow>
   (('db, 'k) FileManager \<times> (fs_error + Cell \<times> Chunk)) option" where
  "WriteFileCell E f fd row col =
     (case Fds f fd of
        None \<Rightarrow> Some (f, Inl (FdNotFoundError fd))
      | Some fname \<Rightarrow>
        (case Opened f fname of
           None \<Rightarrow> None
         | Some sheet \<Rightarrow>
           (case WriteCellChunk (e_gorm E) (fm_db f) (fm_alloc f) sheet row col of
              None \<Rightarrow> None
            | Some (db1, al1, sheet1, r) \<Rightarrow>
                let f1 = f\<lparr>fm_db := db1, fm_alloc := al1, Opened := (Opened f)(fname \<mapsto> sheet1)\<rparr>
                in (case r of
                      Inl e \<Rightarrow> Some (f1, Inl e)
                    | Inr (cell, dataChunk) \<Rightarrow>
                        Some (fst (writeJournal E f1
                                \<lparr>XCell = Some (FromSheetCell cell), XChunk = Some (FromSheetChunk dataChunk),
                                 XFileMap = None\<rparr>), Inr (cell, dataChunk))))))"

definition GetAllSheets :: "string list \<Rightarrow> ('db, 'k) FileManager \<Rightarrow> (string \<times> bool) list" where
  "GetAllSheets ord f = map (\<lambda>n. (FileName (the (Entries f n)), Recycled (the (Entries f n)))) ord"

subsection \<open>Checkpointing\<close>

definition getCheckpointInDB :: "'db gorm \<Rightarrow> 'db \<Rightarrow> 'db \<times> int" where
  "getCheckpointInDB G db = (case g_ckpt G db of None \<Rightarrow> (g_save_ckpt G db 0, 0) | Some off \<Rightarrow> (db, off))"

definition RecordCheckpoint :: "'db gorm \<Rightarrow> 'db \<Rightarrow> int \<Rightarrow> 'db" where
  "RecordCheckpoint G db newStartOffset = g_save_ckpt G (fst (getCheckpointInDB G db)) newStartOffset"

definition ReadCheckpoint :: "'db gorm \<Rightarrow> 'db \<Rightarrow> 'db \<times> int" where
  "ReadCheckpoint G db = getCheckpointInDB G db"

text \<open>The iteration orders of the maps a checkpoint walks through.\<close>

record orders =
  o_entries :: "string list"
  o_files :: "string list"
  o_cells :: "string \<Rightarrow> i64 list"
  o_chunks :: "string \<Rightarrow> u64 list"

definition save_entry :: "'db gorm \<Rightarrow> 'db \<times> (string \<rightharpoonup> MapEntry) \<Rightarrow> string \<Rightarrow> 'db \<times> (string \<rightharpoonup> MapEntry)" where
  "save_entry G st n =
     (case st of (db, es) \<Rightarrow>
      case es n of None \<Rightarrow> (db, es)
      | Some e \<Rightarrow> (case g_save_entry G db e of (db', i) \<Rightarrow> (db', es(n \<mapsto> e\<lparr>m_ID := i\<rparr>))))"

definition save_file ::
  "'db gorm \<Rightarrow> orders \<Rightarrow> 'db \<times> (string \<rightharpoonup> SheetFile) \<times> bool \<Rightarrow> string \<Rightarrow> 'db \<times> (string \<rightharpoonup> SheetFile) \<times> bool" where
  "save_file G ord st n =
     (case st of (db, fs, ok) \<Rightarrow>
      if \<not> ok then st
      else case fs n of None \<Rightarrow> st
      | Some s \<Rightarrow>
          (case SheetFile_Persistent G (o_cells ord n) (o_chunks ord n) db s of
             (db', s', ok') \<Rightarrow> (db', fs(n \<mapsto> s'), ok')))"

definition FM_Persistent ::
  "('db, 'k) env \<Rightarrow> orders \<Rightarrow> ('db, 'k) FileManager \<Rightarrow> ('db, 'k) FileManager \<times> bool" where
  "FM_Persistent E ord f =
     (case foldl (save_entry (e_gorm E)) (fm_db f, Entries f) (o_entries ord) of
        (db1, es) \<Rightarrow>
        (case foldl (save_file (e_gorm E) ord) (db1, Opened f, True) (o_files ord) of
           (db2, fs, ok) \<Rightarrow>
             if ok \<and> g_tx_ok (e_gorm E) db2 then (f\<lparr>Entries := es, Opened := fs, fm_db := db2\<rparr>, True)
             else (f\<lparr>Entries := es, Opened := fs\<rparr>, False)))"

definition LoadFileManager ::
  "('db, 'k) env \<Rightarrow> 'db \<Rightarrow> DataNodeAllocator \<Rightarrow> Writer option \<Rightarrow> 'k \<Rightarrow> ('db, 'k) FileManager" where
  "LoadFileManager E db al w k =
     \<lparr>Entries = foldl (\<lambda>m e. m(FileName e \<mapsto> e)) Map.empty (g_entries (e_gorm E) db),
      Opened = Map.empty, Fds = Map.empty, nextFd = 0, fm_db = db, fm_alloc = al, journalWriter = w,
      fm_broker = k\<rparr>"

text \<open>\<open>None\<close>: there is no journal writer, a nil dereference.\<close>

definition DoCheckpoint ::
  "('db, 'k) env \<Rightarrow> orders \<Rightarrow> ('db, 'k) FileManager \<Rightarrow> ('db, 'k) FileManager option" where
  "DoCheckpoint E ord f =
     (case journalWriter f of
        None \<Rightarrow> None
      | Some w \<Rightarrow>
          (case Writer_Checkpoint (e_kafka E) (e_ckpt E) w (fm_broker f) of
             (w', k', off, err) \<Rightarrow>
             let f1 = f\<lparr>journalWriter := Some w', fm_broker := k'\<rparr>
             in if err \<noteq> None then Some f1
                else (case FM_Persistent E ord f1 of
                        (f2, False) \<Rightarrow> Some f2
                      | (f2, True) \<Rightarrow> Some (f2\<lparr>fm_db := RecordCheckpoint (e_gorm E) (fm_db f2) off\<rparr>))))"

subsection \<open>Applying the journal on a secondary\<close>

definition handleJournalMapEntry :: "(string \<rightharpoonup> MapEntry) \<Rightarrow> FileMapEntry \<Rightarrow> (string \<rightharpoonup> MapEntry)" where
  "handleJournalMapEntry es mapEntry =
     (case es (fe_Filename mapEntry) of
        None \<Rightarrow>
          (case fe_TargetState mapEntry of
             PRESENT \<Rightarrow> es(fe_Filename mapEntry \<mapsto> ToMgrEntry zero_entry mapEntry)
           | ABSENT \<Rightarrow> es)
      | Some original \<Rightarrow>
          (case fe_TargetState mapEntry of
             PRESENT \<Rightarrow> es(fe_Filename mapEntry \<mapsto> ToMgrEntry original mapEntry)
           | ABSENT \<Rightarrow> es(fe_Filename mapEntry := None)))"

definition handleChunkEntry :: "SheetFile \<Rightarrow> ChunkEntry \<Rightarrow> SheetFile" where
  "handleChunkEntry file chunk =
     (case Chunks file (che_Id chunk) of
        None \<Rightarrow>
          (case che_TargetState chunk of
             PRESENT \<Rightarrow> file\<lparr>Chunks := (Chunks file)(che_Id chunk \<mapsto> ToSheetChunk zero_chunk chunk)\<rparr>
           | ABSENT \<Rightarrow> file)
      | Some originalChunk \<Rightarrow>
          (case che_TargetState chunk of
             PRESENT \<Rightarrow> file\<lparr>Chunks := (Chunks file)(che_Id chunk \<mapsto> ToSheetChunk originalChunk chunk)\<rparr>
           | ABSENT \<Rightarrow> file\<lparr>Chunks := (Chunks file)(che_Id chunk := None)\<rparr>))"

text \<open>The first cell of the list with the same id is replaced; without one the cell is appended.\<close>

fun put_cell :: "Cell list \<Rightarrow> Cell \<Rightarrow> Cell list" where
  "put_cell [] cell = [cell]"
| "put_cell (c # cs) cell = (if CellID c = CellID cell then cell # cs else c # put_cell cs cell)"

definition ensureCellChunkConsistency :: "SheetFile \<Rightarrow> Cell \<Rightarrow> SheetFile option" where
  "ensureCellChunkConsistency file cell =
     (case Chunks file (c_ChunkID cell) of
        None \<Rightarrow> None
      | Some chunk \<Rightarrow>
          Some (file\<lparr>Chunks := (Chunks file)(c_ChunkID cell \<mapsto> chunk\<lparr>ch_Cells := put_cell (ch_Cells chunk) cell\<rparr>)\<rparr>))"

datatype handle_error = InvalidJournalEntryError | TableError | UnmarshalError | PersistError

definition handleCellEntry ::
  "'db gorm \<Rightarrow> 'db \<Rightarrow> SheetFile \<Rightarrow> CellEntry \<Rightarrow> ('db \<times> SheetFile \<times> handle_error option) option" where
  "handleCellEntry G db file cell =
     (case Cells file (ce_CellId cell) of
        None \<Rightarrow>
          (case ce_TargetState cell of
             PRESENT \<Rightarrow>
               (case CreateCellTableIfNotExists G db (ce_SheetName cell) of
                  (db1, False) \<Rightarrow> Some (db1, file, Some TableError)
                | (db1, True) \<Rightarrow>
                    let c = ToSheetCell zero_cell cell
                    in map_option (\<lambda>file1. (db1, file1, None))
                         (ensureCellChunkConsistency (file\<lparr>Cells := (Cells file)(ce_CellId cell \<mapsto> c)\<rparr>) c))
           | ABSENT \<Rightarrow> Some (db, file, None))
      | Some originalCell \<Rightarrow>
          (case ce_TargetState cell of
             PRESENT \<Rightarrow>
               let c = ToSheetCell originalCell cell
               in map_option (\<lambda>file1. (db, file1, None))
                    (ensureCellChunkConsistency (file\<lparr>Cells := (Cells file)(ce_CellId cell \<mapsto> c)\<rparr>) c)
           | ABSENT \<Rightarrow> Some (db, file\<lparr>Cells := (Cells file)(ce_CellId cell := None)\<rparr>, None)))"

definition HandleMasterEntry ::
  "('db, 'k) env \<Rightarrow> ('db, 'k) FileManager \<Rightarrow> MasterEntry \<Rightarrow> (('db, 'k) FileManager \<times> handle_error option) option" where
  "HandleMasterEntry E f entry =
     (let f0 = (case XFileMap entry of
                  None \<Rightarrow> f
                | Some mapEntry \<Rightarrow> f\<lparr>Entries := handleJournalMapEntry (Entries f) mapEntry\<rparr>)
      in case (XCell entry, XChunk entry) of
           (None, None) \<Rightarrow> Some (f0, None)
         | (Some cell, Some chunk) \<Rightarrow>
             if ce_ChunkId cell \<noteq> che_Id chunk \<or> ce_TargetState cell \<noteq> che_TargetState chunk
             then Some (f0, Some InvalidJournalEntryError)
             else if ce_SheetName cell \<notin> dom (Entries f0) then Some (f0, Some InvalidJournalEntryError)
             else
               let file = (case Opened f0 (ce_SheetName cell) of
                             Some file \<Rightarrow> file
                           | None \<Rightarrow> LoadSheetFile (e_gorm E) (fm_db f0) (ce_SheetName cell))
               in (case handleCellEntry (e_gorm E) (fm_db f0) (handleChunkEntry file chunk) cell of
                     None \<Rightarrow> None
                   | Some (db1, file1, err) \<Rightarrow>
                       Some (f0\<lparr>fm_db := db1, Opened := (Opened f0)(ce_SheetName cell \<mapsto> file1)\<rparr>, err))
         | _ \<Rightarrow> Some (f0, Some InvalidJournalEntryError))"

end
