(* ===== verification/Election.thy ===== *)
theory Election
  imports Prelude "HOL-Library.List_Lexorder" "HOL-Library.Char_ord"
begin

text \<open>
  \<open>sheetfs/election\<close>: leader election over ZooKeeper. The ZooKeeper client is an argument; strings
  are compared byte by byte, as in Go. The second half is the protocol as a step relation: nodes
  propose, try to become leader and crash, with ZooKeeper's sequence numbers as names.
\<close>

datatype zk_error = ErrNodeExists | ErrZk string

record 'z zk =
  z_create :: "'z \<Rightarrow> string \<Rightarrow> bool \<Rightarrow> 'z \<times> (zk_error + string)"
  z_children :: "'z \<Rightarrow> string \<Rightarrow> zk_error + string list"
  z_getw :: "'z \<Rightarrow> string \<Rightarrow> 'z \<times> zk_error option"
  z_set :: "'z \<Rightarrow> string \<Rightarrow> string \<Rightarrow> 'z \<times> zk_error option"

record Elector =
  electionZnode :: string
  proposePath :: string
  electionAck :: string
  proposal :: string

text \<open>The boolean of \<open>z_create\<close>: an ephemeral sequential node. \<open>conn_err\<close> is the outcome of \<open>zk.Connect\<close>.\<close>

definition NewElector ::
  "'z zk \<Rightarrow> 'z \<Rightarrow> zk_error option \<Rightarrow> string \<Rightarrow> string \<Rightarrow> string \<Rightarrow> 'z \<times> (zk_error + Elector)" where
  "NewElector Z z conn_err znode pre ack =
     (case conn_err of
        Some e \<Rightarrow> (z, Inl e)
      | None \<Rightarrow>
        (case z_create Z z znode False of
           (z1, r1) \<Rightarrow>
           if (\<exists>e. r1 = Inl e \<and> e \<noteq> ErrNodeExists) then (z1, Inl (projl r1))
           else (case z_create Z z1 ack False of
             (z2, r2) \<Rightarrow>
             if (\<exists>e. r2 = Inl e \<and> e \<noteq> ErrNodeExists) then (z2, Inl (projl r2))
             else (z2, Inr \<lparr>electionZnode = znode, proposePath = znode @ ''/'' @ pre,
                             electionAck = ack, proposal = []\<rparr>))))"

text \<open>\<open>None\<close>: the slice expression that strips the directory is out of range.\<close>

definition CreateProposal :: "'z zk \<Rightarrow> 'z \<Rightarrow> Elector \<Rightarrow> ('z \<times> Elector \<times> (zk_error + string)) option" where
  "CreateProposal Z z e =
     (case z_create Z z (proposePath e) True of
        (z1, Inl err) \<Rightarrow> Some (z1, e, Inl err)
      | (z1, Inr path) \<Rightarrow>
          map_option (\<lambda>p. (z1, e\<lparr>proposal := p\<rparr>, Inr p))
            (go_slice (length (electionZnode e) + 1) (length path) path))"

fun lastLt :: "string \<Rightarrow> string \<Rightarrow> string list \<Rightarrow> string" where
  "lastLt p acc [] = acc"
| "lastLt p acc (c # cs) = (if c < p then lastLt p c cs else acc)"

definition TryBeLeader :: "'z zk \<Rightarrow> 'z \<Rightarrow> Elector \<Rightarrow> 'z \<times> (zk_error + bool \<times> string)" where
  "TryBeLeader Z z e =
     (case z_children Z z (electionZnode e) of
        Inl err \<Rightarrow> (z, Inl err)
      | Inr children \<Rightarrow>
          let pred = lastLt (proposal e) [] (sort children)
          in if pred = [] then (z, Inr (True, []))
             else let watch = electionZnode e @ ''/'' @ pred
                  in (case z_getw Z z watch of
                        (z1, Some err) \<Rightarrow> (z1, Inl err)
                      | (z1, None) \<Rightarrow> (z1, Inr (False, watch))))"

definition AckLeader :: "'z zk \<Rightarrow> 'z \<Rightarrow> Elector \<Rightarrow> string \<Rightarrow> 'z \<times> zk_error option" where
  "AckLeader Z z e info = z_set Z z (electionAck e) info"

subsection \<open>The scan for the predecessor\<close>

lemma lastLt_sorted:
  assumes "sorted cs" "[] \<notin> set cs"
  shows "lastLt p acc cs = (if {c \<in> set cs. c < p} = {} then acc else Max {c \<in> set cs. c < p})"
  using assms
proof (induction cs arbitrary: acc)
  case (Cons c cs)
  show ?case
  proof (cases "c < p")
    case True
    have eq: "{x \<in> set (c # cs). x < p} = insert c {x \<in> set cs. x < p}" using True by auto
    have fin: "finite {x \<in> set cs. x < p}" by simp
    show ?thesis
    proof (cases "{x \<in> set cs. x < p} = {}")
      case empty: True
      then have "{x \<in> set (c # cs). x < p} = {c}" unfolding eq empty by simp
      then show ?thesis using True Cons empty by simp
    next
      case False
      have "c \<le> Max {x \<in> set cs. x < p}"
        using Cons.prems(1) False Max_in [OF fin False] by auto
      then have "Max (insert c {x \<in> set cs. x < p}) = Max {x \<in> set cs. x < p}"
        using False fin by (simp add: Max_insert max_absorb2)
      then show ?thesis using True Cons False unfolding eq by auto
    qed
  next
    case False
    have "x \<ge> c" if "x \<in> set cs" for x using Cons.prems(1) that by simp
    then have "{x \<in> set (c # cs). x < p} = {}" using False by (auto dest: order.strict_trans1)
    then show ?thesis using False by simp
  qed
qed simp

lemma TryBeLeader_eq:
  assumes "z_children Z z (electionZnode e) = Inr children" "[] \<notin> set children"
  shows "TryBeLeader Z z e =
    (if \<forall>c\<in>set children. \<not> c < proposal e then (z, Inr (True, []))
     else let watch = electionZnode e @ ''/'' @ Max {c \<in> set children. c < proposal e}
          in case z_getw Z z watch of (z1, Some err) \<Rightarrow> (z1, Inl err) | (z1, None) \<Rightarrow> (z1, Inr (False, watch)))"
proof -
  let ?S = "{c \<in> set children. c < proposal e}"
  have l: "lastLt (proposal e) [] (sort children) = (if ?S = {} then [] else Max ?S)"
  proof -
    have "sorted (sort children)" "[] \<notin> set (sort children)" using assms(2) by auto
    from lastLt_sorted [OF this, of "proposal e" "[]"] show ?thesis unfolding set_sort .
  qed
  have "Max ?S \<noteq> []" if "?S \<noteq> {}"
    using Max_in [of ?S] that assms(2) by auto
  with l assms(1) show ?thesis by (auto simp: TryBeLeader_def Let_def)
qed

subsection \<open>The protocol\<close>

text \<open>
  ZooKeeper appends a sequence number, zero-padded to ten digits, to the name of a sequential node,
  and removes an ephemeral node when its session ends. \<open>znodes\<close> lists the numbers present, in the
  order \<open>Children\<close> reports them; \<open>seqno\<close> is the next number; \<open>leaders\<close> are the nodes whose
  \<open>TryBeLeader\<close> succeeded and whose session is alive.
\<close>

definition pad10 :: "nat \<Rightarrow> string" where
  "pad10 i = map (\<lambda>k. digit_char (i div 10 ^ k mod 10)) (rev [0..<10])"

record election =
  znodes :: "nat list"
  seqno :: nat
  leaders :: "nat set"

definition node_name :: "string \<Rightarrow> nat \<Rightarrow> string" where
  "node_name pre i = pre @ pad10 i"

definition proto_zk :: "string \<Rightarrow> election zk" where
  "proto_zk pre = \<lparr>
     z_create = (\<lambda>st path eph. (st\<lparr>znodes := seqno st # znodes st, seqno := seqno st + 1\<rparr>, Inr (path @ pad10 (seqno st)))),
     z_children = (\<lambda>st _. Inr (map (node_name pre) (znodes st))),
     z_getw = (\<lambda>st _. (st, None)),
     z_set = (\<lambda>st _ _. (st, None))\<rparr>"

definition elector_of :: "string \<Rightarrow> string \<Rightarrow> nat \<Rightarrow> Elector" where
  "elector_of znode pre i =
     \<lparr>electionZnode = znode, proposePath = znode @ ''/'' @ pre, electionAck = [], proposal = node_name pre i\<rparr>"

inductive election_step :: "string \<Rightarrow> string \<Rightarrow> election \<Rightarrow> election \<Rightarrow> bool" for znode pre where
  propose: "CreateProposal (proto_zk pre) st
      \<lparr>electionZnode = znode, proposePath = znode @ ''/'' @ pre, electionAck = [], proposal = []\<rparr> = Some (st', e, Inr p) \<Longrightarrow>
    seqno st' < 10 ^ 10 \<Longrightarrow> election_step znode pre st st'"
| try_win: "i \<in> set (znodes st) \<Longrightarrow>
    TryBeLeader (proto_zk pre) st (elector_of znode pre i) = (st, Inr (True, w)) \<Longrightarrow>
    election_step znode pre st (st\<lparr>leaders := insert i (leaders st)\<rparr>)"
| try_wait: "i \<in> set (znodes st) \<Longrightarrow>
    TryBeLeader (proto_zk pre) st (elector_of znode pre i) = (st, Inr (False, w)) \<Longrightarrow>
    election_step znode pre st st"
| crash: "election_step znode pre st
    (st\<lparr>znodes := filter (\<lambda>j. j \<noteq> i) (znodes st), leaders := leaders st - {i}\<rparr>)"

definition election0 :: election where
  "election0 = \<lparr>znodes = [], seqno = 0, leaders = {}\<rparr>"

subsection \<open>Names are ordered by sequence number\<close>

definition digits :: "nat \<Rightarrow> nat \<Rightarrow> string" where
  "digits n i = map (\<lambda>k. digit_char (i div 10 ^ k mod 10)) (rev [0..<n])"

lemma digit_char_less: "a < 10 \<Longrightarrow> b < 10 \<Longrightarrow> digit_char a < digit_char b \<longleftrightarrow> a < b"
  by (simp add: less_char_def of_digit_char)

lemma digit_char_eq: "a < 10 \<Longrightarrow> b < 10 \<Longrightarrow> digit_char a = digit_char b \<longleftrightarrow> a = b"
  by (metis add_left_cancel of_digit_char)

lemma digits_Suc: "digits (Suc n) i = digit_char (i div 10 ^ n mod 10) # digits n i"
  by (simp add: digits_def)

lemma digits_mod: "digits n (i mod 10 ^ n) = digits n i"
proof -
  have "i mod 10 ^ n div 10 ^ k mod 10 = i div 10 ^ k mod 10" if "k < n" for k
  proof -
    obtain d where n: "n = k + Suc d" using \<open>k < n\<close> less_iff_Suc_add by auto
    have "(10 :: nat) ^ n = 10 ^ k * 10 ^ Suc d" by (simp add: n power_add)
    then have "i mod 10 ^ n div 10 ^ k = i div 10 ^ k mod 10 ^ Suc d"
      by (simp add: mod_mult2_eq del: power_Suc)
    then show ?thesis by (simp add: mod_mod_cancel)
  qed
  then show ?thesis by (simp add: digits_def)
qed

lemma div_mod_less: "(i :: nat) < j \<longleftrightarrow> i div P < j div P \<or> i div P = j div P \<and> i mod P < j mod P"
proof (cases "i div P" "j div P" rule: linorder_cases)
  case less
  then have "\<not> j \<le> i" using div_le_mono [of j i P] by linarith
  with less show ?thesis by simp
next
  case equal
  have "i = i div P * P + i mod P" "j = j div P * P + j mod P" by simp_all
  with equal have "i < j \<longleftrightarrow> i mod P < j mod P" by (metis nat_add_left_cancel_less)
  with equal show ?thesis by simp
next
  case greater
  then have "\<not> i < j" using div_le_mono [of i j P] by linarith
  with greater show ?thesis by simp
qed

lemma digits_less: "i < 10 ^ n \<Longrightarrow> j < 10 ^ n \<Longrightarrow> digits n i < digits n j \<longleftrightarrow> i < j"
proof (induction n arbitrary: i j)
  case 0
  then show ?case by (simp add: digits_def)
next
  case (Suc n)
  let ?P = "10 ^ n :: nat"
  have h: "i div ?P < 10" "j div ?P < 10"
    using Suc.prems by (simp_all add: less_mult_imp_div_less)
  have "i mod ?P < ?P" "j mod ?P < ?P" by simp_all
  from Suc.IH [OF this] have ih: "digits n i < digits n j \<longleftrightarrow> i mod ?P < j mod ?P"
    by (simp add: digits_mod)
  note div_mod_less [of i j ?P]
  with h ih show ?case
    by (simp add: digits_Suc digit_char_less digit_char_eq)
qed

lemma append_less_iff: "(xs @ ys :: string) < xs @ zs \<longleftrightarrow> ys < zs"
  by (induction xs) auto

lemma node_name_less:
  "i < 10 ^ 10 \<Longrightarrow> j < 10 ^ 10 \<Longrightarrow> node_name pre i < node_name pre j \<longleftrightarrow> i < j"
  using digits_less [of i 10 j] by (simp add: node_name_def append_less_iff pad10_def digits_def)

subsection \<open>Safety of the election\<close>

definition election_ok :: "election \<Rightarrow> bool" where
  "election_ok st \<longleftrightarrow> seqno st \<le> 10 ^ 10 \<and> (\<forall>i\<in>set (znodes st). i < seqno st) \<and>
     (\<forall>i\<in>leaders st. i \<in> set (znodes st) \<and> (\<forall>j\<in>set (znodes st). i \<le> j))"

lemma node_name_ne: "node_name pre i \<noteq> []"
  by (simp add: node_name_def pad10_def)

lemma TryBeLeader_proto:
  assumes "election_ok st" "i \<in> set (znodes st)"
    and "TryBeLeader (proto_zk pre) st (elector_of znode pre i) = (st', Inr (win, w))"
  shows "st' = st" "win \<longleftrightarrow> (\<forall>j\<in>set (znodes st). i \<le> j)"
    and "\<not> win \<Longrightarrow> w = znode @ ''/'' @ node_name pre (Max {j \<in> set (znodes st). j < i})"
proof -
  let ?Z = "set (znodes st)"
  let ?S = "{c \<in> set (map (node_name pre) (znodes st)). c < node_name pre i}"
  have b: "j < 10 ^ 10" if "j \<in> ?Z" for j using assms(1) that by (fastforce simp: election_ok_def)
  have lt: "node_name pre j < node_name pre i \<longleftrightarrow> j < i" if "j \<in> ?Z" for j
    using node_name_less [OF b [OF that] b [OF assms(2)]] .
  have e: "z_children (proto_zk pre) st (electionZnode (elector_of znode pre i)) = Inr (map (node_name pre) (znodes st))"
    "proposal (elector_of znode pre i) = node_name pre i" "electionZnode (elector_of znode pre i) = znode"
    "z_getw (proto_zk pre) st x = (st, None)" for x
    by (simp_all add: proto_zk_def elector_of_def)
  note T = TryBeLeader_eq [OF e(1), unfolded e] 
  have ne: "[] \<notin> set (map (node_name pre) (znodes st))" using node_name_ne by (auto simp: image_iff) metis
  have all: "(\<forall>c\<in>set (map (node_name pre) (znodes st)). \<not> c < node_name pre i) \<longleftrightarrow> (\<forall>j\<in>?Z. i \<le> j)"
  proof -
    have "(\<forall>c\<in>set (map (node_name pre) (znodes st)). \<not> c < node_name pre i) \<longleftrightarrow>
        (\<forall>j\<in>?Z. \<not> node_name pre j < node_name pre i)" by auto
    also have "\<dots> \<longleftrightarrow> (\<forall>j\<in>?Z. \<not> j < i)" using lt by blast
    finally show ?thesis by (simp add: not_less)
  qed
  have R: "(st', Inr (win, w) :: zk_error + bool \<times> string) =
      (if \<forall>j\<in>?Z. i \<le> j then (st, Inr (True, [])) else (st, Inr (False, znode @ ''/'' @ Max ?S)))"
    using T [OF ne] assms(3) unfolding all Let_def prod.case option.case by simp
  then show "st' = st" "win \<longleftrightarrow> (\<forall>j\<in>?Z. i \<le> j)"
    by (simp_all split: if_splits)
  assume "\<not> win"
  with R have w: "w = znode @ ''/'' @ Max ?S" and x: "\<not> (\<forall>j\<in>?Z. i \<le> j)"
    by (simp_all split: if_splits)
  let ?J = "{j \<in> ?Z. j < i}"
  have S: "?S = node_name pre ` ?J" using lt by auto
  have J: "?J \<noteq> {}" "finite ?J" using x by (auto simp: not_le)
  have "Max ?S = node_name pre (Max ?J)"
  proof (rule Max_eqI)
    show "finite ?S" by simp
    show "node_name pre (Max ?J) \<in> ?S" unfolding S using Max_in [OF J(2,1)] by blast
    fix y assume "y \<in> ?S"
    then obtain j where j: "j \<in> ?J" "y = node_name pre j" unfolding S by blast
    have "j \<le> Max ?J" using J(2) j(1) by simp
    moreover have "j < 10 ^ 10" "Max ?J < 10 ^ 10" using b j(1) Max_in [OF J(2,1)] by auto
    ultimately have "\<not> node_name pre (Max ?J) < node_name pre j" by (simp only: node_name_less not_less)
    then show "y \<le> node_name pre (Max ?J)" using j(2) by (simp add: not_less)
  qed
  with w show "w = znode @ ''/'' @ node_name pre (Max ?J)" by simp
qed

lemma CreateProposal_proto:
  "CreateProposal (proto_zk pre) st
      \<lparr>electionZnode = znode, proposePath = znode @ ''/'' @ pre, electionAck = [], proposal = []\<rparr> =
   Some (st\<lparr>znodes := seqno st # znodes st, seqno := seqno st + 1\<rparr>,
     \<lparr>electionZnode = znode, proposePath = znode @ ''/'' @ pre, electionAck = [], proposal = node_name pre (seqno st)\<rparr>,
     Inr (node_name pre (seqno st)))"
  by (simp add: CreateProposal_def proto_zk_def go_slice_def node_name_def)

lemma TryBeLeader_total: "\<exists>win w. TryBeLeader (proto_zk pre) st e = (st, Inr (win, w))"
  by (auto simp: TryBeLeader_def proto_zk_def Let_def)

lemma election_step_ok:
  assumes "election_step znode pre st st'" "election_ok st"
  shows "election_ok st'"
  using assms
proof (cases rule: election_step.cases)
  case (propose e p)
  have "st' = st\<lparr>znodes := seqno st # znodes st, seqno := seqno st + 1\<rparr>"
    using propose(1) unfolding CreateProposal_proto by simp
  with propose(2) assms(2) show ?thesis
    unfolding election_ok_def by (auto simp: less_Suc_eq intro: less_imp_le)
next
  case (try_win i w)
  from TryBeLeader_proto(2) [OF assms(2) try_win(2,3)] try_win(1,2) assms(2) show ?thesis
    by (simp add: election_ok_def)
next
  case (crash i)
  with assms(2) show ?thesis by (auto simp: election_ok_def)
qed simp


definition wit_elected :: election where
  "wit_elected = \<lparr>znodes = [0], seqno = 1, leaders = {0}\<rparr>"


text \<open>
  C32: a node that does not win watches exactly the live proposal that immediately precedes its own,
  so a crash wakes one waiting node; a node wins exactly when no live proposal precedes its own.
\<close>

theorem TryBeLeader_watches_predecessor:
  assumes "election_ok st" "i \<in> set (znodes st)"
    and "TryBeLeader (proto_zk pre) st (elector_of znode pre i) = (st', Inr (win, w))"
  shows "(win \<longleftrightarrow> (\<forall>j\<in>set (znodes st). i \<le> j)) \<and>
    (\<not> win \<longrightarrow> w = znode @ ''/'' @ node_name pre (Max {j \<in> set (znodes st). j < i}))"
  using TryBeLeader_proto(2,3) [OF assms] by blast

theorem TryBeLeader_watches_predecessor_witness:
  "\<exists>st'. TryBeLeader (proto_zk ''n_'') \<lparr>znodes = [2, 0, 1], seqno = 3, leaders = {}\<rparr> (elector_of ''/e'' ''n_'' 2) =
     (st', Inr (False, ''/e/'' @ node_name ''n_'' 1))"
proof -
  let ?st = "\<lparr>znodes = [2, 0, 1], seqno = 3, leaders = {}\<rparr>"
  obtain win w where t: "TryBeLeader (proto_zk ''n_'') ?st (elector_of ''/e'' ''n_'' 2) = (?st, Inr (win, w))"
    using TryBeLeader_total by blast
  have "election_ok ?st" "2 \<in> set (znodes ?st)" by (auto simp: election_ok_def)
  from TryBeLeader_watches_predecessor [OF this t] have
    "\<not> win" "w = ''/e'' @ ''/'' @ node_name ''n_'' (Max {j \<in> {2, 0, 1 :: nat}. j < 2})" by auto
  moreover have "{j \<in> {2, 0, 1 :: nat}. j < 2} = {0, 1}" by auto
  ultimately show ?thesis using t by auto
qed

end
