(* ===== verification/Nodes.thy ===== *)
theory Nodes
  imports DataNode FileMgr Election
begin

text \<open>
  \<open>sheetfs/datanode/node\<close>, \<open>sheetfs/master/node\<close> and \<open>sheetfs/master/journal/listener.go\<close>: how a node
  proposes itself, follows the journal as a secondary until it wins the election, applies what is
  left of the journal, and acknowledges itself as primary. The two nodes run the same loops over
  different handlers.
\<close>

subsection \<open>The fetch loop\<close>

text \<open>
  \<open>for { msg, ckpt, err := fetch(); ...; err = handle(msg, ckpt); ... }\<close>: stops at an error that
  satisfies \<open>stop\<close>. A handler may panic, fail, or not return at all (\<open>None\<close>).
\<close>

datatype ('s, 'e) loop_result =
    LoopDone 's
  | LoopFetchErr 's fetch_error
  | LoopHandleErr 's 'e
  | LoopPanic 's

partial_function (option) fetch_loop ::
  "('r \<Rightarrow> 'r \<times> (fetch_error + byte list \<times> Checkpoint option)) \<Rightarrow>
   ('s \<Rightarrow> byte list \<Rightarrow> Checkpoint option \<Rightarrow> ('s, 'e option) outcome option) \<Rightarrow>
   (fetch_error \<Rightarrow> bool) \<Rightarrow> 's \<Rightarrow> 'r \<Rightarrow> (('s, 'e) loop_result \<times> 'r) option" where
  "fetch_loop fetch handle stop s r =
     (case fetch r of
        (r', Inl e) \<Rightarrow> Some (if stop e then LoopDone s else LoopFetchErr s e, r')
      | (r', Inr (msg, ckpt)) \<Rightarrow>
          (case handle s msg ckpt of
             None \<Rightarrow> None
           | Some (Panicked s') \<Rightarrow> Some (LoopPanic s', r')
           | Some (Done s' (Some e)) \<Rightarrow> Some (LoopHandleErr s' e, r')
           | Some (Done s' None) \<Rightarrow> fetch_loop fetch handle stop s' r'))"

definition is_canceled :: "fetch_error \<Rightarrow> bool" where
  "is_canceled e \<longleftrightarrow> e = FetchKafka Canceled"

definition is_no_more :: "fetch_error \<Rightarrow> bool" where
  "is_no_more e \<longleftrightarrow> e = NoMoreMessageError"

subsection \<open>Handlers\<close>

text \<open>The handler of a DataNode ignores the checkpoint part; its state is the disk.\<close>

definition dn_handle ::
  "os_faults \<Rightarrow> string \<Rightarrow> disk \<Rightarrow> byte list \<Rightarrow> Checkpoint option \<Rightarrow> (disk, unit option) outcome option" where
  "dn_handle fl dp d msg ckpt =
     map_option (\<lambda>r. case r of Panicked d' \<Rightarrow> Panicked d' | Done d' ok \<Rightarrow> Done d' (if ok then None else Some ()))
       (HandleMsg fl dp d msg)"

definition handleCheckpoint ::
  "('db, 'k) env \<Rightarrow> orders \<Rightarrow> ('db, 'k) FileManager \<Rightarrow> Checkpoint \<Rightarrow> ('db, 'k) FileManager \<times> handle_error option" where
  "handleCheckpoint E ord fm ckpt =
     (case FM_Persistent E ord fm of
        (fm1, False) \<Rightarrow> (fm1, Some PersistError)
      | (fm1, True) \<Rightarrow> (fm1\<lparr>fm_db := RecordCheckpoint (e_gorm E) (fm_db fm1) (NextEntryOffset ckpt)\<rparr>, None))"

definition handleJournal ::
  "('db, 'k) env \<Rightarrow> (('db, 'k) FileManager \<Rightarrow> orders) \<Rightarrow> ('db, 'k) FileManager \<Rightarrow> byte list \<Rightarrow> Checkpoint option \<Rightarrow>
   (('db, 'k) FileManager, handle_error option) outcome option" where
  "handleJournal E ord fm entry ckpt =
     (case ckpt of
        Some c \<Rightarrow> (case handleCheckpoint E (ord fm) fm c of (fm1, err) \<Rightarrow> Some (Done fm1 err))
      | None \<Rightarrow>
          (case e_unmarshal E entry of
             None \<Rightarrow> Some (Done fm (Some UnmarshalError))
           | Some masterEntry \<Rightarrow>
               (case HandleMasterEntry E fm masterEntry of
                  None \<Rightarrow> Some (Panicked fm)
                | Some (fm1, err) \<Rightarrow> Some (Done fm1 err))))"

subsection \<open>Running as a secondary\<close>

text \<open>
  \<open>RunFatal\<close>: the process exits (\<open>log.Fatal\<close>). \<open>tick\<close> is what happens to ZooKeeper's state between a
  failed attempt and the notification that wakes the node.
\<close>

datatype 's run = RunOk 's | RunErr 's | RunFatal 's | RunPanic 's

partial_function (option) elect_loop ::
  "'z zk \<Rightarrow> ('z \<Rightarrow> 'z) \<Rightarrow> Elector \<Rightarrow> ('s \<Rightarrow> 'r \<Rightarrow> (('s, 'e) loop_result \<times> 'r) option) \<Rightarrow>
   's \<Rightarrow> 'r \<Rightarrow> 'z \<Rightarrow> (('s, 'e) loop_result option \<times> 's \<times> 'r \<times> 'z) option" where
  "elect_loop Z tick el follow s r z =
     (case TryBeLeader Z z el of
        (z1, Inl err) \<Rightarrow> Some (None, s, r, z1)
      | (z1, Inr (success, _)) \<Rightarrow>
          if success then Some (Some (LoopDone s), s, r, z1)
          else
            (case follow s r of
               None \<Rightarrow> None
             | Some (res, r1) \<Rightarrow>
                 (case res of
                    LoopDone s1 \<Rightarrow> elect_loop Z tick el follow s1 r1 (tick z1)
                  | _ \<Rightarrow> Some (Some res, s, r1, z1))))"

fun loop_run :: "bool \<Rightarrow> ('s, 'e) loop_result \<Rightarrow> 's run" where
  "loop_run fatal (LoopDone s) = RunOk s"
| "loop_run fatal (LoopFetchErr s _) = (if fatal then RunFatal s else RunErr s)"
| "loop_run fatal (LoopHandleErr s _) = RunErr s"
| "loop_run fatal (LoopPanic s) = RunPanic s"

text \<open>
  The body both nodes share after the proposal: follow until elected, then apply the rest.
  A DataNode exits on errors of the election and of fetching (\<open>fatal\<close>), a MasterNode returns them.
\<close>

definition follow_then_catch_up ::
  "bool \<Rightarrow> 'z zk \<Rightarrow> ('z \<Rightarrow> 'z) \<Rightarrow> 'r kreader \<Rightarrow> (byte list \<Rightarrow> Checkpoint option) \<Rightarrow> Receiver \<Rightarrow>
   ('s \<Rightarrow> byte list \<Rightarrow> Checkpoint option \<Rightarrow> ('s, 'e option) outcome option) \<Rightarrow> Elector \<Rightarrow>
   's \<Rightarrow> 'r \<Rightarrow> 'z \<Rightarrow> ('s run \<times> 'r \<times> 'z) option" where
  "follow_then_catch_up fatal Z tick R um recv handle el s r z =
     (case elect_loop Z tick el (fetch_loop (FetchEntry R um recv) handle is_canceled) s r z of
        None \<Rightarrow> None
      | Some (None, s1, r1, z1) \<Rightarrow> Some (if fatal then RunFatal s1 else RunErr s1, r1, z1)
      | Some (Some (LoopDone s1), _, r1, z1) \<Rightarrow>
          (case fetch_loop (TryFetchEntry R um recv) handle is_no_more s1 r1 of
             None \<Rightarrow> None
           | Some (res, r2) \<Rightarrow> Some (loop_run fatal res, r2, z1))
      | Some (Some res, _, r1, z1) \<Rightarrow> Some (loop_run fatal res, r1, z1))"

definition dn_RunAsSecondary ::
  "os_faults \<Rightarrow> 'z zk \<Rightarrow> ('z \<Rightarrow> 'z) \<Rightarrow> 'r kreader \<Rightarrow> (byte list \<Rightarrow> Checkpoint option) \<Rightarrow> Receiver \<Rightarrow>
   string \<Rightarrow> Elector \<Rightarrow> disk \<Rightarrow> 'r \<Rightarrow> 'z \<Rightarrow> (disk run \<times> 'r \<times> 'z) option" where
  "dn_RunAsSecondary fl Z tick R um recv dp el d r z =
     (case CreateProposal Z z el of
        None \<Rightarrow> Some (RunPanic d, r, z)
      | Some (z1, _, Inl err) \<Rightarrow> Some (RunErr d, r, z1)
      | Some (z1, el1, Inr _) \<Rightarrow> follow_then_catch_up True Z tick R um recv (dn_handle fl dp) el1 d r z1)"

definition Listener_RunAsSecondary ::
  "('db, 'k) env \<Rightarrow> (('db, 'k) FileManager \<Rightarrow> orders) \<Rightarrow> 'z zk \<Rightarrow> ('z \<Rightarrow> 'z) \<Rightarrow> 'r kreader \<Rightarrow>
   (byte list \<Rightarrow> Checkpoint option) \<Rightarrow> Receiver \<Rightarrow> Elector \<Rightarrow> ('db, 'k) FileManager \<Rightarrow> 'r \<Rightarrow> 'z \<Rightarrow>
   (('db, 'k) FileManager run \<times> 'r \<times> 'z) option" where
  "Listener_RunAsSecondary E ord Z tick R um recv el fm r z =
     (case ReadCheckpoint (e_gorm E) (fm_db fm) of
        (db1, off) \<Rightarrow>
        (case Receiver_SetOffset R r off of
           (r1, Some _) \<Rightarrow> Some (RunErr (fm\<lparr>fm_db := db1\<rparr>), r1, z)
         | (r1, None) \<Rightarrow>
             follow_then_catch_up False Z tick R um recv (handleJournal E ord) el (fm\<lparr>fm_db := db1\<rparr>) r1 z))"

definition master_RunAsSecondary ::
  "('db, 'k) env \<Rightarrow> (('db, 'k) FileManager \<Rightarrow> orders) \<Rightarrow> 'z zk \<Rightarrow> ('z \<Rightarrow> 'z) \<Rightarrow> 'r kreader \<Rightarrow>
   (byte list \<Rightarrow> Checkpoint option) \<Rightarrow> Receiver \<Rightarrow> Elector \<Rightarrow> ('db, 'k) FileManager \<Rightarrow> 'r \<Rightarrow> 'z \<Rightarrow>
   (('db, 'k) FileManager run \<times> 'r \<times> 'z) option" where
  "master_RunAsSecondary E ord Z tick R um recv el fm r z =
     (case CreateProposal Z z el of
        None \<Rightarrow> Some (RunPanic fm, r, z)
      | Some (z1, _, Inl err) \<Rightarrow> Some (RunErr fm, r, z1)
      | Some (z1, el1, Inr _) \<Rightarrow> Listener_RunAsSecondary E ord Z tick R um recv el1 fm r z1)"

text \<open>
  \<open>RunAsPrimary\<close> of both nodes up to the blocking \<open>Serve\<close>: listening may fail, then the node
  acknowledges itself. \<open>True\<close>: the node is about to serve requests.
\<close>

definition RunAsPrimary :: "bool \<Rightarrow> 'z zk \<Rightarrow> 'z \<Rightarrow> Elector \<Rightarrow> string \<Rightarrow> 'z \<times> bool" where
  "RunAsPrimary listen_err Z z el cAddr =
     (if listen_err then (z, False)
      else case AckLeader Z z el cAddr of (z1, err) \<Rightarrow> (z1, err = None))"

definition dn_Run ::
  "os_faults \<Rightarrow> 'z zk \<Rightarrow> ('z \<Rightarrow> 'z) \<Rightarrow> 'r kreader \<Rightarrow> (byte list \<Rightarrow> Checkpoint option) \<Rightarrow> Receiver \<Rightarrow>
   string \<Rightarrow> Elector \<Rightarrow> bool \<Rightarrow> string \<Rightarrow> disk \<Rightarrow> 'r \<Rightarrow> 'z \<Rightarrow> (disk run \<times> 'z \<times> bool) option" where
  "dn_Run fl Z tick R um recv dp el listen_err cAddr d r z =
     (case dn_RunAsSecondary fl Z tick R um recv dp el d r z of
        None \<Rightarrow> None
      | Some (RunOk d1, _, z1) \<Rightarrow>
          (case RunAsPrimary listen_err Z z1 el cAddr of (z2, ok) \<Rightarrow> Some (RunOk d1, z2, ok))
      | Some (res, _, z1) \<Rightarrow> Some (res, z1, False))"

end
