(* ===== verification/DataNodeProps.thy ===== *)
theory DataNodeProps
  imports DataNode
begin

text \<open>
  What a DataNode guarantees: the outcome of a write on every branch, reads after writes, the
  serialisation of writes by version, isolation of chunks, and how far a secondary follows its
  primary.
\<close>

subsection \<open>A server and requests to evaluate the properties at\<close>

definition wit_server :: "mem_broker Server" where
  "wit_server = NewServer ''data'' Map.empty
     \<lparr>lastWriteOffset = 0, entriesKey = ''t-entries'', checkpointsKey = ''t-ckpts''\<rparr> ([], [])"

definition wit_write :: "u64 \<Rightarrow> WriteChunkRequest" where
  "wit_write v = \<lparr>wr_Id = 7, wr_Offset = 2048, wr_Size = 2, wr_TargetSize = 4, wr_Version = v,
     wr_Padding = '' '', wr_Data = [104, 105]\<rparr>"

lemma wit_write_sel [simp]:
  "wr_Id (wit_write v) = 7" "wr_Offset (wit_write v) = 2048" "wr_Version (wit_write v) = v"
  "pad_byte (wit_write v) = 32" "target_len (wit_write v) = 4"
  "layout_ok (wit_write v)"
  by (simp_all add: wit_write_def pad_byte_def target_len_def TargetSizeWrapper_def layout_ok_def)

lemma wit_server_wf [simp]: "wf_server wit_server"
  by (simp add: wit_server_def wf_server_def NewServer_def)

lemma wit_server_absent [simp]: "chunk_version wit_server i = 0" "chunk_data wit_server i = None"
  by (simp_all add: wit_server_def NewServer_def chunk_version_def chunk_data_def)

lemma mem_commit:
  assumes "broker s = (l, [])"
  shows "\<exists>w. commit mem_kafka s e = (w, (l @ [(entriesKey (writer s), e)], []), None)"
  using assms by (simp add: ACK_MOST_TIMES_def numeral_eq_Suc CommitEntry_def WriteMessages_def mem_kafka_def)

lemma mem_put:
  assumes "wf_server s" "layout_ok r" "broker s = (l, [])"
  shows "\<exists>s'. dn_put mem_kafka s r = (s', wr_Version r = chunk_version s (wr_Id r) + 1) \<and>
     (\<exists>l'. broker s' = (l', []))"
proof -
  obtain w where "commit mem_kafka s (ConstructWriteEntry r (block r)) =
      (w, (l @ [(entriesKey (writer s), ConstructWriteEntry r (block r))], []), None)"
    using mem_commit [OF assms(3)] by blast
  from WriteChunk_eq [OF assms(1,2) this] show ?thesis by (simp add: dn_put_def Let_def)
qed

lemma wit_put: "\<exists>s'. dn_put mem_kafka wit_server (wit_write 1) = (s', True)"
proof -
  have "broker wit_server = ([], [])" by (simp add: wit_server_def NewServer_def)
  from mem_put [OF _ _ this, of "wit_write 1"] show ?thesis by auto
qed

subsection \<open>Writes\<close>

text \<open>
  C12: the outcome of \<open>WriteChunk\<close> on every branch, on a well-formed server without disk faults and
  for a request inside the chunk layout. An entry the journal did not acknowledge makes the reply
  \<open>Unavailable\<close>; otherwise the write is accepted exactly when its version is the successor of the
  chunk's version (a missing chunk counts as version 0), and then the chunk file is the old data
  area, or fresh padding, with the padded block at the offset, followed by the new version; any
  other version is \<open>WrongVersion\<close> and leaves every file as it was.
\<close>

theorem WriteChunk_spec:
  assumes "wf_server s" "layout_ok r"
    and "commit_retry ACK_MOST_TIMES K (writer s) (broker s) (ConstructWriteEntry r (block r)) None = (w, k, err)"
  shows "WriteChunk no_faults K s r =
    (let s1 = s\<lparr>writer := w, broker := k\<rparr>; i = wr_Id r in
     if err \<noteq> None then Done s1 Status_Unavailable
     else if wr_Version r = chunk_version s i + 1 then
       Done (set_file s1 (getFilename (dataPath s) i)
               (chunk_file (write_block (chunk_data s i) r) (wr_Version r))) Status_OK
     else Done s1 Status_WrongVersion)"
  using assms by (rule WriteChunk_eq)

theorem WriteChunk_spec_witness:
  "\<exists>s'. WriteChunk no_faults mem_kafka wit_server (wit_write 1) = Done s' Status_OK \<and>
        disk s' (getFilename ''data'' 7) =
          Some (chunk_file (overwrite (replicate 8192 32) 2048 (block (wit_write 1))) 1)"
proof -
  have "broker wit_server = ([], [])" by (simp add: wit_server_def NewServer_def)
  from mem_commit [OF this] obtain w where
    c: "commit mem_kafka wit_server (ConstructWriteEntry (wit_write 1) (block (wit_write 1))) =
      (w, ([(entriesKey (writer wit_server), ConstructWriteEntry (wit_write 1) (block (wit_write 1)))], []), None)"
    by auto
  have p: "dataPath wit_server = ''data''" by (simp add: wit_server_def NewServer_def)
  from WriteChunk_spec [OF wit_server_wf _ c] show ?thesis
    by (simp add: Let_def p write_block_def)
qed

text \<open>
  C13: after an accepted write, a read of the written block that asks for at most the written
  version returns exactly the padded block, whatever the Kafka client does.
\<close>

theorem read_after_write:
  assumes "wf_server s" "layout_ok r"
    and "WriteChunk no_faults K s r = Done s' Status_OK"
    and "v \<le> wr_Version r"
  shows "ReadChunk no_faults s'
      \<lparr>rd_Id = wr_Id r, rd_Offset = wr_Offset r, rd_Size = TargetSizeWrapper (wr_TargetSize r), rd_Version = v\<rparr> =
    Some (Status_OK, block r)"
proof -
  have put: "dn_put K s r = (s', True)" using assms(3) by (simp add: dn_put_def)
  note acc = dn.put_accept [OF assms(1,2) put]
  let ?base = "case chunk_data s (wr_Id r) of None \<Rightarrow> replicate 8192 (pad_byte r) | Some c \<Rightarrow> c"
  have "length ?base = 8192"
    using length_chunk_data [OF assms(1), of "wr_Id r"] by (auto split: option.splits)
  then have "take (target_len r) (drop (unat (wr_Offset r)) (write_block (chunk_data s (wr_Id r)) r)) = block r"
    using assms(2) overwrite_read_same [of "unat (wr_Offset r)" ?base "block r"]
    by (simp add: write_block_def layout_ok_def)
  with acc assms(2,4) dn.put_wf [OF assms(1,2) put] show ?thesis
    by (subst ReadChunk_eq) (auto simp: layout_ok_def target_len_def)
qed

theorem read_after_write_witness:
  "\<exists>s'. WriteChunk no_faults mem_kafka wit_server (wit_write 1) = Done s' Status_OK \<and>
     ReadChunk no_faults s' \<lparr>rd_Id = 7, rd_Offset = 2048, rd_Size = 4, rd_Version = 1\<rparr> =
       Some (Status_OK, [104, 105, 32, 32])"
proof -
  from wit_put obtain s' where w: "WriteChunk no_faults mem_kafka wit_server (wit_write 1) = Done s' Status_OK"
    by (auto simp: dn_put_def split: outcome.splits)
  have "replicate 2 (32 :: byte) = [32, 32]" by (simp add: numeral_eq_Suc)
  then have "block (wit_write 1) = [104, 105, 32, 32]"
    by (simp add: block_def pad_block_def) (simp add: wit_write_def)
  moreover have "TargetSizeWrapper (wr_TargetSize (wit_write 1)) = 4"
    by (simp add: wit_write_def TargetSizeWrapper_def)
  ultimately show ?thesis
    using read_after_write [OF wit_server_wf wit_write_sel(6) w, of 1] w by simp
qed

text \<open>
  C14: concurrent writers are serialised by version. Over any history of write requests, in any
  order and with any duplicates, the accepted ones of a chunk carry the consecutive versions that
  follow the initial one, the chunk ends at the last of them, and its data area is what these
  blocks, written in this order, make of the initial data.
\<close>

theorem writes_serialise:
  assumes "wf_server s" "\<forall>r\<in>set rs. layout_ok r"
    and "puts (dn_put K) s rs = (s', acc)"
    and "mine = filter (\<lambda>r. wr_Id r = i) acc"
  shows "map wr_Version mine = map (\<lambda>k. chunk_version s i + word_of_nat (Suc k)) [0..<length mine] \<and>
    chunk_version s' i = chunk_version s i + word_of_nat (length mine) \<and>
    chunk_data s' i = foldl (\<lambda>d r. Some (write_block d r)) (chunk_data s i) mine"
  using assms by (intro dn.puts_serial) auto

theorem writes_serialise_witness:
  "\<exists>s' acc. puts (dn_put mem_kafka) wit_server [wit_write 1, wit_write 1] = (s', acc) \<and>
     map wr_Version (filter (\<lambda>r. wr_Id r = 7) acc) = [1]"
proof -
  have b: "broker wit_server = ([], [])" by (simp add: wit_server_def NewServer_def)
  from mem_put [OF wit_server_wf _ b, of "wit_write 1"] obtain s1 l1 where
    s1: "dn_put mem_kafka wit_server (wit_write 1) = (s1, True)" "broker s1 = (l1, [])" by auto
  have "chunk_version s1 7 = 1"
    using dn.put_accept [OF wit_server_wf _ s1(1)] by simp
  with mem_put [OF dn.put_wf [OF wit_server_wf _ s1(1)] _ s1(2), of "wit_write 1"] obtain s2 where
    "dn_put mem_kafka s1 (wit_write 1) = (s2, False)" by auto
  with s1 have p: "puts (dn_put mem_kafka) wit_server [wit_write 1, wit_write 1] = (s2, [wit_write 1])" by simp
  from writes_serialise [OF wit_server_wf _ p refl, of 7] p show ?thesis by simp
qed

text \<open>
  Chunks are isolated from each other. Whatever the operating system and Kafka do, and even
  when the handler panics, a write touches no other chunk's file; the mapping from chunk ids to
  file names is injective.
\<close>

lemma WriteChunk_frame:
  assumes "i \<noteq> wr_Id r"
  shows "disk (out_state (WriteChunk fl K s r)) (getFilename (dataPath s) i) =
    disk s (getFilename (dataPath s) i)"
  using assms
  by (auto simp: WriteChunk_def Let_def split: option.splits prod.splits)

subsection \<open>Replication\<close>

text \<open>
  C16: a secondary that applies the whole journal reaches the primary's disk. Over a history in
  which the primary executed every journaled operation (its writes lie in the layout and are padded
  with spaces), the messages Kafka appended, including copies left by retried commits, replayed by
  \<open>HandleMsg\<close> on the disk of the beginning, give the primary's disk of the end.
\<close>

theorem secondary_equals_primary:
  assumes "kafka_log_ok K plog" "wf_server s" "\<forall>x\<in>set xs. dn_admissible x"
    and "exec_all (dn_exec K) s xs = Some s'"
  shows "\<exists>es. plog (broker s') = plog (broker s) @ map (Pair (entriesKey (writer s))) es \<and>
     apply_all dn_apply (dataPath s, disk s) es = Some (dataPath s', disk s')"
proof -
  from dn_run_broker [OF assms(1) _ assms(4)] assms(3) obtain es where
    "plog (broker s') = plog (broker s) @ map (Pair (entriesKey (writer s))) es"
    "stutters (log_of (dn_exec K) (\<lambda>_ x. Some (dn_entry x)) s xs) es" by auto
  with dnj.secondary_catches_up [OF assms(2) refl dn_all_admissible assms(4)] assms(3)
  show ?thesis by auto
qed

theorem secondary_equals_primary_witness:
  "\<exists>s' es. exec_all (dn_exec mem_kafka) wit_server [DnWrite (wit_write 1)] = Some s' \<and>
     fst (broker s') = fst (broker wit_server) @ map (Pair ''t-entries'') es \<and>
     apply_all dn_apply (dataPath wit_server, disk wit_server) es = Some (dataPath s', disk s')"
proof -
  from wit_put obtain s' where e: "exec_all (dn_exec mem_kafka) wit_server [DnWrite (wit_write 1)] = Some s'"
    by auto
  have "entriesKey (writer wit_server) = ''t-entries''" by (simp add: wit_server_def NewServer_def)
  with secondary_equals_primary [OF mem_kafka_log_ok wit_server_wf _ e] e show ?thesis by auto
qed

text \<open>
  C18: the entry is journaled before the version is checked, so a write the primary rejects as
  \<open>WrongVersion\<close> is still applied by a secondary: the secondary's chunk takes the block and the
  version of the rejected request, and the two disks differ.
\<close>

theorem rejected_write_diverges:
  assumes "wf_server s" "layout_ok r"
    and "WriteChunk no_faults K s r = Done s' Status_WrongVersion"
    and "chunk_data s (wr_Id r) \<noteq> None" "wr_Version r \<noteq> chunk_version s (wr_Id r)"
  shows "disk s' = disk s \<and>
    (\<exists>d. HandleMsg no_faults (dataPath s) (disk s) (ConstructWriteEntry r (block r)) = Some (Done d True) \<and>
       d (getFilename (dataPath s) (wr_Id r)) =
         Some (chunk_file (write_block (chunk_data s (wr_Id r)) r) (wr_Version r)) \<and>
       d \<noteq> disk s')"
proof -
  have put: "dn_put K s r = (s', False)" using assms(3) by (simp add: dn_put_def)
  from assms(4) obtain f where f: "disk s (getFilename (dataPath s) (wr_Id r)) = Some f"
    by (auto simp: chunk_data_def)
  obtain v where v: "GetVersion f = Some v" using GetVersion_total by blast
  have ne: "v \<noteq> wr_Version r" using assms(5) f v by (simp add: chunk_version_def)
  let ?g = "chunk_file (write_block (chunk_data s (wr_Id r)) r) (wr_Version r)"
  have "GetVersion ?g = Some (wr_Version r)" using length_write_chunk [OF assms(1,2)] by simp
  with v ne have "?g \<noteq> f" by auto
  moreover have "HandleMsg no_faults (dataPath s) (disk s) (ConstructWriteEntry r (block r)) =
      Some (Done ((disk s)(getFilename (dataPath s) (wr_Id r) \<mapsto> ?g)) True)"
    using HandleMsg_write_eq [OF _ assms(2), of "dataPath s" "disk s"] assms(1) f v ne
    by (simp add: wf_server_disk Let_def chunk_data_def)
  moreover have "disk s' = disk s" using dn_put_cases [OF assms(1,2) put] by simp
  moreover have "(disk s)(getFilename (dataPath s) (wr_Id r) \<mapsto> ?g) \<noteq> disk s"
    using f \<open>?g \<noteq> f\<close> by (metis fun_upd_same option.inject)
  ultimately show ?thesis by simp
qed

theorem rejected_write_diverges_witness:
  "\<exists>s s' d. WriteChunk no_faults mem_kafka s (wit_write 5) = Done s' Status_WrongVersion \<and>
     HandleMsg no_faults (dataPath s) (disk s) (ConstructWriteEntry (wit_write 5) (block (wit_write 5))) =
       Some (Done d True) \<and> d \<noteq> disk s'"
proof -
  have b: "broker wit_server = ([], [])" by (simp add: wit_server_def NewServer_def)
  from mem_put [OF wit_server_wf _ b, of "wit_write 1"] obtain s l where
    s: "dn_put mem_kafka wit_server (wit_write 1) = (s, True)" "broker s = (l, [])" by auto
  note a = dn.put_accept [OF wit_server_wf _ s(1)] and wf = dn.put_wf [OF wit_server_wf _ s(1)]
  obtain w where c: "commit mem_kafka s (ConstructWriteEntry (wit_write 5) (block (wit_write 5))) =
      (w, (l @ [(entriesKey (writer s), ConstructWriteEntry (wit_write 5) (block (wit_write 5)))], []), None)"
    using mem_commit [OF s(2)] by blast
  from WriteChunk_eq [OF wf _ c] a obtain s' where
    r: "WriteChunk no_faults mem_kafka s (wit_write 5) = Done s' Status_WrongVersion"
    by (auto simp: Let_def)
  have "chunk_data s (wr_Id (wit_write 5)) \<noteq> None"
    "wr_Version (wit_write 5) \<noteq> chunk_version s (wr_Id (wit_write 5))" using a by auto
  from rejected_write_diverges [OF wf _ r this] r show ?thesis by auto
qed

text \<open>
  C38: a secondary never hangs on an entry when failures are transient. If some attempt to create
  the file and some attempt to write it succeed, however many fail before, \<open>HandleMsg\<close> returns with
  a nil error.
\<close>

theorem HandleMsg_returns:
  assumes "wf_disk dp d" "layout_ok r"
    and "\<not> create_err fl a" "write_err fl b = None"
  shows "\<exists>d'. HandleMsg fl dp d (ConstructWriteEntry r (block r)) = Some (Done d' True)"
proof -
  obtain m where c: "retry_from (create_err fl) 0 = Some m"
    using retry_from_returns [of "create_err fl" 0 a] assms(3) by auto
  have w0: "\<exists>m. write_loop fl 0 [] x 0 = Some (m, pwrite [] 0 x)" for x
    using write_loop_returns [of fl 0 b 0 "[]" x] assms(4) by simp
  have t: "unat (word_of_nat (target_len r) :: u64) = target_len r" "target_len r \<le> 8192"
    using assms(2) by (simp_all add: target_len_def layout_ok_def)
  have s: "0 \<le> sint (word_of_nat (target_len r) :: u64)" using t by (simp add: sint_nonneg_iff)
  show ?thesis
  proof (cases "if open_err fl then None else d (getFilename dp (wr_Id r))")
    case None
    with c w0 [of "overwrite (replicate 8192 32) (unat (wr_Offset r)) (block r)"]
      secondary_padded_file [OF assms(2)] show ?thesis
      by (auto simp: HandleMsg_write HandleWriteMsg_def codec_simps Let_def)
  next
    case (Some f)
    then have f: "length f = 8200" using assms(1) by (auto simp: wf_disk_def split: if_splits)
    obtain v where v: "GetVersion f = Some v" using GetVersion_total by blast
    have "\<exists>m. write_loop fl 0 f (block r) (wr_Offset r) = Some (m, pwrite f (unat (wr_Offset r)) (block r))"
      using write_loop_returns [of fl 0 b "wr_Offset r" f] assms(2,4) f layout_ok_signed [OF assms(2)]
      by (simp add: layout_ok_def)
    moreover have "ReadAt f (target_len r) (wr_Offset r) = (take (target_len r) (drop (unat (wr_Offset r)) f), True)"
      using f assms(2) by (intro ReadAt_inside layout_ok_signed) (auto simp: layout_ok_def)
    ultimately show ?thesis
      using Some v s t by (auto simp: HandleMsg_write HandleWriteMsg_def codec_simps Let_def)
  qed
qed

definition wit_faults :: os_faults where
  "wit_faults = \<lparr>open_err = False, create_err = (\<lambda>n. n < 3),
     write_err = (\<lambda>n. if n < 2 then Some 1 else None), remove_err = False\<rparr>"

theorem HandleMsg_returns_witness:
  "\<exists>d'. HandleMsg wit_faults ''data'' Map.empty (ConstructWriteEntry (wit_write 1) (block (wit_write 1))) =
     Some (Done d' True)"
  by (rule HandleMsg_returns [where a = 3 and b = 2]) (simp_all add: wf_disk_def wit_faults_def)

end
