(* ===== verification/SheetProps.thy ===== *)
theory SheetProps
  imports SheetFile
begin

text \<open>
  What a sheet file guarantees: cell identifiers are unambiguous, every reachable file has the slot
  layout, cells never overlap, and a granted write raises the version of exactly one chunk by one.
\<close>

subsection \<open>Creation\<close>

lemma CreateSheetFile_cases:
  assumes "alloc_ok al"
  obtains (created) db' al' f m ch where
      "CreateSheetFile G db al n = Some (db', al', Inr (f, m, ch))" "sheet_ok f" "alloc_ok al'"
      "Cells f = [SheetMetaCellID \<mapsto> m]" "Chunks f = [ch_ID ch \<mapsto> ch]" "ch_Version ch = 0"
      "m = NewCell SheetMetaCellID 0 8192 (ch_ID ch) n" "ch_Cells ch = [m]"
      "LastAvailableChunk f = None" "sf_filename f = n"
      "\<exists>db1 c. ch_ID c = 0 \<and> CreateCellTableIfNotExists G db n = (db1, True) \<and>
         g_put_chunk G db1 c = (db', ch_ID ch)"
  | (failed) db' e where "CreateSheetFile G db al n = Some (db', al, Inl e)"
      "e = DBError \<and> \<not> snd (CreateCellTableIfNotExists G db n) \<or> e = NoDataNode \<and> dataNodes al = []"
proof (cases "CreateCellTableIfNotExists G db n")
  case (Pair db1 ok)
  show ?thesis
  proof (cases ok)
    case False
    with Pair show ?thesis by (intro failed) (auto simp: CreateSheetFile_def)
  next
    case True
    show ?thesis
    proof (cases "dataNodes al = []")
      case empty: True
      with Pair True show ?thesis by (intro failed) (auto simp: CreateSheetFile_def AllocateNode_def)
    next
      case False
      from AllocateNode_ok [OF assms] False obtain al1 node where
        a: "AllocateNode al = Some (al1, Inr node)" "alloc_ok al1"
        by (auto split: sum.splits) (metis NoDataNodeError.exhaust sum.exhaust)
      let ?c = "\<lparr>ch_ID = 0, ch_DataNode = node, ch_Version = 0, ch_Cells = []\<rparr>"
      obtain db2 k where p: "g_put_chunk G db1 ?c = (db2, k)" by (cases "g_put_chunk G db1 ?c")
      let ?m = "NewCell SheetMetaCellID 0 8192 k n"
      let ?ch = "?c\<lparr>ch_ID := k, ch_Cells := [?m]\<rparr>"
      let ?f = "\<lparr>Chunks = [k \<mapsto> ?ch], Cells = [SheetMetaCellID \<mapsto> ?m], LastAvailableChunk = None, sf_filename = n\<rparr>"
      have "sheet_ok ?f"
        by (auto simp: sheet_ok_def chunk_ok_def cell_ok_def meta_chunk_def NewCell_def slot_def)
      moreover have "CreateSheetFile G db al n = Some (db2, al1, Inr (?f, ?m, ?ch))"
        using Pair True a p
        by (simp add: CreateSheetFile_def Chunk_Persistent_def Let_def layout_simps) (simp add: NewCell_def)
      ultimately show ?thesis
        using a Pair True p by (intro created) (auto simp: NewCell_def intro!: exI [of _ ?c])
    qed
  qed
qed

subsection \<open>Reachable files\<close>

text \<open>
  A file the code can produce: created, then written to, while other files and DataNodes change the
  database and the allocator in between.
\<close>

inductive reachable_sheet :: "'db gorm \<Rightarrow> 'db \<Rightarrow> DataNodeAllocator \<Rightarrow> SheetFile \<Rightarrow> bool" for G where
  reach_create: "alloc_ok al \<Longrightarrow> CreateSheetFile G db al n = Some (db', al', Inr (f, m, ch)) \<Longrightarrow>
     reachable_sheet G db' al' f"
| reach_write: "reachable_sheet G db al f \<Longrightarrow> fresh_chunk_ids G db f \<Longrightarrow>
     WriteCellChunk G db al f row col = Some (db', al', f', r) \<Longrightarrow> reachable_sheet G db' al' f'"
| reach_other: "reachable_sheet G db al f \<Longrightarrow> alloc_ok al' \<Longrightarrow> reachable_sheet G db' al' f"

lemma reachable_sheet_ok: "reachable_sheet G db al f \<Longrightarrow> sheet_ok f \<and> alloc_ok al"
proof (induction rule: reachable_sheet.induct)
  case (reach_create al db n db' al' f m ch)
  then show ?case by (auto elim: CreateSheetFile_cases [where G = G and db = db and n = n])
next
  case (reach_write db al f row col db' al' f' r)
  then have ok: "sheet_ok f" "alloc_ok al" by auto
  from ok reach_write.hyps(2) show ?case
    by (cases rule: WriteCellChunk_cases [where row = row and col = col])
       (use reach_write.hyps(3) ok in auto)
qed auto

definition cell_range :: "Cell \<Rightarrow> nat set" where
  "cell_range c = {unat (c_Offset c) ..< unat (c_Offset c) + unat (c_Size c)}"

lemma slot_chunk_range:
  assumes "slot_chunk ch" "p < length (ch_Cells ch)" "slot c = slot (ch_Cells ch ! p)"
  shows "cell_range c = {p * 2048 ..< p * 2048 + 2048}" "p < 4"
proof -
  show p: "p < 4" using assms(1,2) by (simp add: slot_chunk_def)
  have "unat (word_of_nat (p * 2048) :: u64) = p * 2048"
    using p by (intro unat_of_nat64) simp
  then show "cell_range c = {p * 2048 ..< p * 2048 + 2048}"
    using assms by (simp add: cell_range_def slot_chunk_def slot_def)
qed

lemma cell_range_bound:
  assumes "sheet_ok f" "Cells f i = Some c"
  shows "cell_range c \<subseteq> {..<8192}"
proof -
  from sheet_okD(2) [OF assms] obtain ch d where
    ch: "Chunks f (c_ChunkID c) = Some ch" "d \<in> set (ch_Cells ch)" "slot c = slot d"
    by (auto simp: cell_ok_def)
  from sheet_okD(1) [OF assms(1) ch(1)] consider "meta_chunk ch" | "slot_chunk ch"
    by (auto simp: chunk_ok_def)
  then show ?thesis
  proof cases
    case 1
    with ch show ?thesis by (auto simp: meta_chunk_def cell_range_def slot_def)
  next
    case 2
    from ch(2) obtain p where "p < length (ch_Cells ch)" "d = ch_Cells ch ! p" by (auto simp: in_set_conv_nth)
    with slot_chunk_range [OF 2, of p c] ch(3) show ?thesis by auto
  qed
qed

lemma cells_disjoint_ok:
  assumes "sheet_ok f" "Cells f i = Some c" "Cells f j = Some d" "i \<noteq> j" "c_ChunkID c = c_ChunkID d"
  shows "cell_range c \<inter> cell_range d = {}"
proof -
  note D = sheet_okD [OF assms(1)]
  from D(2) [OF assms(2)] obtain ch c' where
    c: "Chunks f (c_ChunkID c) = Some ch" "c' \<in> set (ch_Cells ch)" "slot c = slot c'" "CellID c = i"
    by (auto simp: cell_ok_def)
  from D(2) [OF assms(3)] assms(5) c(1) obtain d' where
    d: "d' \<in> set (ch_Cells ch)" "slot d = slot d'" "CellID d = j"
    by (auto simp: cell_ok_def)
  obtain p q where p: "p < length (ch_Cells ch)" "c' = ch_Cells ch ! p"
    and q: "q < length (ch_Cells ch)" "d' = ch_Cells ch ! q"
    using c(2) d(1) by (auto simp: in_set_conv_nth)
  have pq: "p \<noteq> q" using assms(4) c(3,4) d(2,3) p(2) q(2) by (auto simp: slot_def)
  have "\<not> meta_chunk ch" using pq p(1) q(1) by (auto simp: meta_chunk_def)
  with D(1) [OF c(1)] have s: "slot_chunk ch" by (simp add: chunk_ok_def)
  show ?thesis
    using slot_chunk_range [OF s p(1)] slot_chunk_range [OF s q(1)] c(3) d(2) p(2) q(2) pq
    by (auto simp: set_eq_iff)
qed

subsection \<open>Properties\<close>

definition wit_alloc :: DataNodeAllocator where
  "wit_alloc = NewDataNodeAllocatorWithGroups [''g0'', ''g1'']"

text \<open>
  C6: in every file the code can produce, all cells lie inside their chunk, and two different cells
  in one chunk occupy disjoint byte ranges, so writing one cell never damages another.
\<close>

theorem cells_never_overlap:
  assumes "reachable_sheet G db al f" "Cells f i = Some c" "Cells f j = Some d"
  shows "cell_range c \<subseteq> {..<8192} \<and>
    (i \<noteq> j \<and> c_ChunkID c = c_ChunkID d \<longrightarrow> cell_range c \<inter> cell_range d = {})"
  using cell_range_bound [of f i c] cells_disjoint_ok [of f i c j d] reachable_sheet_ok [OF assms(1)] assms(2,3)
  by auto

lemma wit_create:
  "\<exists>db al f m ch. CreateSheetFile mem_gorm mem_db0 wit_alloc ''s'' = Some (db, al, Inr (f, m, ch)) \<and>
     Cells f = [SheetMetaCellID \<mapsto> m] \<and> Chunks f = [1 \<mapsto> ch] \<and> sheet_ok f \<and> alloc_ok al \<and>
     length (md_chunks db) = 1 \<and> dataNodes al = dataNodes wit_alloc \<and> reachable_sheet mem_gorm db al f"
proof -
  have al: "alloc_ok wit_alloc" by (auto simp: wit_alloc_def)
  have "\<exists>db al f m ch. CreateSheetFile mem_gorm mem_db0 wit_alloc ''s'' = Some (db, al, Inr (f, m, ch)) \<and>
     Cells f = [SheetMetaCellID \<mapsto> m] \<and> Chunks f = [1 \<mapsto> ch] \<and>
     length (md_chunks db) = 1 \<and> dataNodes al = dataNodes wit_alloc"
    by (simp add: CreateSheetFile_def CreateCellTableIfNotExists_def mem_db0_def Chunk_Persistent_def
        put_row_def AllocateNode_def wit_alloc_def NewDataNodeAllocatorWithGroups_eq Let_def NewCell_def)
  with reach_create [OF al] reachable_sheet_ok show ?thesis by metis
qed

lemma mem_fresh:
  assumes "length (md_chunks db) = n" "n < 1000" "\<And>k. Chunks f k \<noteq> None \<Longrightarrow> unat k \<le> n"
  shows "fresh_chunk_ids mem_gorm db f"
proof -
  have "unat (word_of_nat (n + 1) :: u64) = n + 1" using assms(2) by (intro unat_of_nat64) simp
  with assms(3) [of "word_of_nat (n + 1)"] have "Chunks f (word_of_nat (n + 1)) = None" by force
  with assms(1) show ?thesis by (simp add: fresh_chunk_ids_def put_row_def Let_def)
qed

text \<open>A file with the meta cell and one more cell.\<close>

lemma wit_write:
  "\<exists>db al f c m. reachable_sheet mem_gorm db al f \<and> Cells f SheetMetaCellID = Some m \<and>
     Cells f (GetCellID 0 0) = Some c"
proof -
  obtain db al f m ch where w: "CreateSheetFile mem_gorm mem_db0 wit_alloc ''s'' = Some (db, al, Inr (f, m, ch))"
    "Cells f = [SheetMetaCellID \<mapsto> m]" "Chunks f = [1 \<mapsto> ch]" "sheet_ok f" "alloc_ok al"
    "length (md_chunks db) = 1" "dataNodes al = dataNodes wit_alloc" "reachable_sheet mem_gorm db al f"
    using wit_create by blast
  have fr: "fresh_chunk_ids mem_gorm db f"
    using w(3,6) by (intro mem_fresh [of db 1]) (auto split: if_splits)
  have ne: "dataNodes al \<noteq> []" by (simp add: w(7) wit_alloc_def NewDataNodeAllocatorWithGroups_eq)
  from w(4,5) fr show ?thesis
  proof (cases rule: WriteCellChunk_cases [where row = 0 and col = 0])
    case (granted db' al' s' cell ch')
    have "GetCellID 0 0 \<noteq> SheetMetaCellID" by (simp add: GetCellID_meta_iff SheetMetaCellRow_def)
    with granted w(2) have "Cells s' SheetMetaCellID = Some m" "Cells s' (GetCellID 0 0) = Some cell"
      by (simp_all add: granted_def)
    with reach_write [OF w(8) fr granted(1)] show ?thesis by blast
  qed (use ne in auto)
qed

theorem cells_never_overlap_witness:
  "\<exists>db al f m c. reachable_sheet mem_gorm db al f \<and> Cells f SheetMetaCellID = Some m \<and>
     Cells f (GetCellID 0 0) = Some c \<and> cell_range c \<subseteq> {..<8192} \<and> cell_range m \<subseteq> {..<8192}"
proof -
  obtain db al f c m where w: "reachable_sheet mem_gorm db al f" "Cells f SheetMetaCellID = Some m"
    "Cells f (GetCellID 0 0) = Some c" using wit_write by blast
  from cells_never_overlap [OF w(1,3,2)] cells_never_overlap [OF w(1,2,3)] w show ?thesis by blast
qed

text \<open>
  C21: a cell write at the master never panics. It fails only when no DataNode is known, and then
  changes nothing; otherwise the cell exists afterwards, the version of its chunk is one above the
  previous one (1 for a new chunk), every other cell and chunk is unchanged, a read of the position
  returns the very cell and chunk that were granted, and the layout invariant is kept.
\<close>

theorem WriteCellChunk_grants:
  assumes "sheet_ok s" "alloc_ok al" "fresh_chunk_ids G db s"
  shows "(\<exists>db' al' s' cell ch. WriteCellChunk G db al s row col = Some (db', al', s', Inr (cell, ch)) \<and>
      sheet_ok s' \<and> GetCellChunk s' row col = Some (Inr (cell, ch)) \<and>
      Cells s' = (Cells s)(GetCellID row col \<mapsto> cell) \<and> Chunks s' = (Chunks s)(c_ChunkID cell \<mapsto> ch) \<and>
      ch_Version ch = version_of s (c_ChunkID cell) + 1) \<or>
    WriteCellChunk G db al s row col = Some (db, al, s, Inl NoDataNode) \<and> dataNodes al = []"
  using assms
proof (cases rule: WriteCellChunk_cases [where row = row and col = col])
  case (granted db' al' s' cell ch)
  then show ?thesis by (intro disjI1 exI [of _ db'] exI [of _ al'] exI [of _ s'] exI [of _ cell] exI [of _ ch])
      (simp add: granted_def GetCellChunk_def)
qed simp

theorem WriteCellChunk_grants_witness:
  "\<exists>db al s db' al' s' cell ch. WriteCellChunk mem_gorm db al s 0 0 = Some (db', al', s', Inr (cell, ch)) \<and>
     GetCellChunk s' 0 0 = Some (Inr (cell, ch))"
proof -
  obtain db al f m ch where w: "CreateSheetFile mem_gorm mem_db0 wit_alloc ''s'' = Some (db, al, Inr (f, m, ch))"
    "Chunks f = [1 \<mapsto> ch]" "sheet_ok f" "alloc_ok al"
    "length (md_chunks db) = 1" "dataNodes al = dataNodes wit_alloc"
    using wit_create by blast
  have fr: "fresh_chunk_ids mem_gorm db f"
    using w(2,5) by (intro mem_fresh [of db 1]) (auto split: if_splits)
  have "dataNodes al \<noteq> []" by (simp add: w(6) wit_alloc_def NewDataNodeAllocatorWithGroups_eq)
  with WriteCellChunk_grants [OF w(3,4) fr, of 0 0] show ?thesis by blast
qed

end
