(* ===== verification/FileMgrRepl.thy ===== *)
theory FileMgrRepl
  imports FileMgr SheetProps Replication
begin

text \<open>
  The invariant of a file manager, and the master's instance of the primary-backup contract: a
  secondary that applies the journal mirrors the primary's directory, cells and chunks.
\<close>

subsection \<open>What the environment promises\<close>

text \<open>
  Tables and keys: the ids a database assigns to new chunks are fresh (as long as it holds fewer than
  \<open>2 ^ 62\<close> of them), creating a missing table succeeds and leaves the rows of all tables alone, and
  so does storing a chunk. \<open>ids\<close> is the set of chunk keys in use.
\<close>

definition gorm_ok :: "'db gorm \<Rightarrow> ('db \<Rightarrow> u64 set) \<Rightarrow> bool" where
  "gorm_ok G ids \<longleftrightarrow>
     (\<forall>db c. ch_ID c = 0 \<and> card (ids db) < 2 ^ 62 \<longrightarrow> snd (g_put_chunk G db c) \<notin> ids db) \<and>
     (\<forall>db c. ids (fst (g_put_chunk G db c)) = insert (snd (g_put_chunk G db c)) (ids db)) \<and>
     (\<forall>db t. g_has_table G db t \<noteq> None) \<and>
     (\<forall>db t. g_has_table G db t = Some False \<longrightarrow>
        snd (g_create_table G db t) \<and> ids (fst (g_create_table G db t)) = ids db \<and>
        (\<forall>u. g_cells G (fst (g_create_table G db t)) u = g_cells G db u))"

text \<open>
  The journal: Kafka accepts every message (the code assumes it is highly available) and protobuf
  restores what it encoded.
\<close>

definition env_ok :: "('db, 'k) env \<Rightarrow> ('k \<Rightarrow> (string \<times> byte list) list) \<Rightarrow> ('db \<Rightarrow> u64 set) \<Rightarrow> bool" where
  "env_ok E plog ids \<longleftrightarrow> gorm_ok (e_gorm E) ids \<and> kafka_log_ok (e_kafka E) plog \<and>
     (\<forall>k key v. \<exists>k' off. k_write (e_kafka E) k key v = (k', Inr off)) \<and>
     (\<forall>e. \<exists>b. e_marshal E e = Some b \<and> e_unmarshal E b = Some e)"

subsection \<open>Invariant\<close>

text \<open>In memory, the copies of a cell in \<open>Cells\<close> and in its chunk are equal, and carry the sheet's name.\<close>

definition sheet_exact :: "SheetFile \<Rightarrow> bool" where
  "sheet_exact s \<longleftrightarrow>
     (\<forall>k ch c. Chunks s k = Some ch \<and> c \<in> set (ch_Cells ch) \<longrightarrow> Cells s (CellID c) = Some c) \<and>
     (\<forall>i c. Cells s i = Some c \<longrightarrow> c \<in> set (cells_of s (c_ChunkID c)) \<and> SheetName c = sf_filename s)"

definition fm_ok :: "('db \<Rightarrow> u64 set) \<Rightarrow> ('db, 'k) FileManager \<Rightarrow> bool" where
  "fm_ok ids f \<longleftrightarrow>
     alloc_ok (fm_alloc f) \<and> dom (Opened f) = dom (Entries f) \<and> journalWriter f \<noteq> None \<and>
     (\<forall>n s. Opened f n = Some s \<longrightarrow>
        sheet_ok s \<and> sheet_exact s \<and> sf_filename s = n \<and> dom (Chunks s) \<subseteq> ids (fm_db f)) \<and>
     (\<forall>m n s t. Opened f m = Some s \<and> Opened f n = Some t \<and> m \<noteq> n \<longrightarrow> dom (Chunks s) \<inter> dom (Chunks t) = {}) \<and>
     (\<forall>n e. Entries f n = Some e \<longrightarrow> FileName e = n) \<and>
     (\<forall>fd n. Fds f fd = Some n \<longrightarrow> n \<in> dom (Opened f) \<and> unat fd < unat (nextFd f))"

definition fm_inv :: "('db, 'k) env \<Rightarrow> ('k \<Rightarrow> (string \<times> byte list) list) \<Rightarrow> ('db \<Rightarrow> u64 set) \<Rightarrow>
    ('db, 'k) FileManager \<Rightarrow> bool" where
  "fm_inv E plog ids f \<longleftrightarrow> env_ok E plog ids \<and> fm_ok ids f"

text \<open>Neither the chunk keys nor the descriptors are exhausted.\<close>

definition fm_room :: "('db \<Rightarrow> u64 set) \<Rightarrow> ('db, 'k) FileManager \<Rightarrow> bool" where
  "fm_room ids f \<longleftrightarrow> card (ids (fm_db f)) < 2 ^ 62 \<and> unat (nextFd f) + 1 < 2 ^ 64"

lemma fm_okD:
  assumes "fm_ok ids f"
  shows "alloc_ok (fm_alloc f)" "dom (Opened f) = dom (Entries f)" "\<exists>w. journalWriter f = Some w"
    and "Opened f n = Some s \<Longrightarrow> sheet_ok s"
    and "Opened f n = Some s \<Longrightarrow> sheet_exact s"
    and "Opened f n = Some s \<Longrightarrow> sf_filename s = n"
    and "Opened f n = Some s \<Longrightarrow> dom (Chunks s) \<subseteq> ids (fm_db f)"
    and "Entries f n = Some e \<Longrightarrow> FileName e = n"
    and "Fds f fd = Some n \<Longrightarrow> n \<in> dom (Opened f)"
    and "Fds f fd = Some n \<Longrightarrow> unat fd < unat (nextFd f)"
  using assms unfolding fm_ok_def by blast+

lemma CreateCellTable_ok:
  assumes "gorm_ok G ids" "CreateCellTableIfNotExists G db n = (db', ok)"
  shows "ok" "ids db' = ids db" "g_cells G db' u = g_cells G db u"
proof -
  obtain b where b: "g_has_table G db (GetCellTableName n) = Some b"
    using assms(1) unfolding gorm_ok_def by (metis option.exhaust)
  have "ok \<and> ids db' = ids db \<and> g_cells G db' u = g_cells G db u"
  proof (cases b)
    case True
    with b assms(2) show ?thesis by (simp add: CreateCellTableIfNotExists_def)
  next
    case False
    with b assms(2) have c: "g_create_table G db (GetCellTableName n) = (db', ok)"
      by (simp add: CreateCellTableIfNotExists_def)
    have "g_has_table G db (GetCellTableName n) = Some False" using b False by simp
    with assms(1) have "snd (g_create_table G db (GetCellTableName n)) \<and>
        ids (fst (g_create_table G db (GetCellTableName n))) = ids db \<and>
        g_cells G (fst (g_create_table G db (GetCellTableName n))) u = g_cells G db u"
      unfolding gorm_ok_def by blast
    with c show ?thesis by simp
  qed
  then show "ok" "ids db' = ids db" "g_cells G db' u = g_cells G db u" by auto
qed

lemma put_chunk_ok:
  assumes "gorm_ok G ids" "ch_ID c = 0" "card (ids db) < 2 ^ 62" "g_put_chunk G db c = (db', k)"
  shows "k \<notin> ids db" "ids db' = insert k (ids db)"
  using assms unfolding gorm_ok_def by (metis snd_conv, metis fst_conv snd_conv)

text \<open>One entry was appended to the journal between two states.\<close>

definition logged :: "('db, 'k) env \<Rightarrow> ('k \<Rightarrow> (string \<times> byte list) list) \<Rightarrow> string \<Rightarrow> 'k \<Rightarrow> Writer option \<Rightarrow> 'k \<Rightarrow>
    MasterEntry \<Rightarrow> bool" where
  "logged E plog key k w' k' e \<longleftrightarrow> map_option entriesKey w' = Some key \<and>
     (\<exists>b. e_unmarshal E b = Some e \<and> plog k' = plog k @ [(key, b)])"

lemma writeJournal_ok:
  assumes "env_ok E plog ids" "journalWriter f = Some w"
  shows "\<exists>w' k'. writeJournal E f e = (f\<lparr>journalWriter := Some w', fm_broker := k'\<rparr>, None) \<and>
     logged E plog (entriesKey w) (fm_broker f) (Some w') k' e"
proof -
  obtain b where b: "e_marshal E e = Some b" "e_unmarshal E b = Some e" using assms(1) unfolding env_ok_def by blast
  obtain k' off where k: "k_write (e_kafka E) (fm_broker f) (entriesKey w) b = (k', Inr off)"
    using assms(1) unfolding env_ok_def by blast
  have kl: "kafka_log_ok (e_kafka E) plog" using assms(1) by (simp add: env_ok_def)
  let ?w = "Completion w [off] None"
  have c: "CommitEntry (e_kafka E) w (fm_broker f) b = (?w, k', None)"
    by (simp add: CommitEntry_def WriteMessages_def k)
  from WriteMessages_log [OF kl c [unfolded CommitEntry_def]] WriteMessages_keys [OF c [unfolded CommitEntry_def]]
  show ?thesis using assms(2) b c by (auto simp: writeJournal_def logged_def)
qed

subsection \<open>Applying a cell and its chunk\<close>

lemma put_cell_same: "distinct (map CellID cs) \<Longrightarrow> c \<in> set cs \<Longrightarrow> put_cell cs c = cs"
  by (induction cs) auto

lemma put_cell_new: "CellID c \<notin> CellID ` set cs \<Longrightarrow> put_cell cs c = cs @ [c]"
  by (induction cs) auto

lemma apply_cell_chunk:
  assumes "ch_ID ch = c_ChunkID cell"
    and "case Cells t (CellID cell) of None \<Rightarrow> c_ID cell = 0 | Some c \<Rightarrow> c_ID c = c_ID cell"
    and "put_cell (cells_of t (c_ChunkID cell)) cell = ch_Cells ch"
    and "CreateCellTableIfNotExists G db (SheetName cell) = (db1, True)"
  shows "\<exists>db' t'. handleCellEntry G db (handleChunkEntry t (FromSheetChunk ch)) (FromSheetCell cell) =
      Some (db', t', None) \<and> (db' = db \<or> db' = db1) \<and>
      Cells t' = (Cells t)(CellID cell \<mapsto> cell) \<and> Chunks t' = (Chunks t)(c_ChunkID cell \<mapsto> ch)"
proof -
  let ?t = "handleChunkEntry t (FromSheetChunk ch)"
  let ?ch = "ch\<lparr>ch_Cells := cells_of t (c_ChunkID cell)\<rparr>"
  have id: "che_Id (FromSheetChunk ch) = c_ChunkID cell" "che_TargetState (FromSheetChunk ch) = PRESENT"
    using assms(1) by (simp_all add: FromSheetChunk_def)
  have t: "Cells ?t = Cells t" "Chunks ?t = (Chunks t)(c_ChunkID cell \<mapsto> ?ch)"
    using id by (auto simp: handleChunkEntry_def ToSheetChunk_From cells_of_def zero_chunk_def split: option.splits)
  have ce: "ce_CellId (FromSheetCell cell) = CellID cell" "ce_TargetState (FromSheetCell cell) = PRESENT"
    "ce_SheetName (FromSheetCell cell) = SheetName cell" by (simp_all add: FromSheetCell_def)
  have to: "ToSheetCell c0 (FromSheetCell cell) = cell" if "c_ID c0 = c_ID cell" for c0
    using that by (simp add: ToSheetCell_From)
  have e: "\<exists>t'. ensureCellChunkConsistency (?t\<lparr>Cells := (Cells ?t)(CellID cell \<mapsto> cell)\<rparr>) cell = Some t' \<and>
      Cells t' = (Cells t)(CellID cell \<mapsto> cell) \<and> Chunks t' = (Chunks t)(c_ChunkID cell \<mapsto> ch)"
    using assms(3) by (simp add: ensureCellChunkConsistency_def t)
  show ?thesis
  proof (cases "Cells t (CellID cell)")
    case None
    with assms(2) have "ToSheetCell zero_cell (FromSheetCell cell) = cell" by (intro to) (simp add: zero_cell_def)
    with None e assms(4) show ?thesis by (auto simp: handleCellEntry_def ce t(1) Let_def)
  next
    case (Some c)
    with assms(2) have "ToSheetCell c (FromSheetCell cell) = cell" by (intro to) simp
    with Some e show ?thesis by (auto simp: handleCellEntry_def ce t(1) Let_def)
  qed
qed

subsection \<open>Sheets: granted writes\<close>

lemma cells_of_distinct:
  assumes "sheet_ok s"
  shows "distinct (map CellID (cells_of s k))"
  using sheet_okD(1) [OF assms, of k] by (auto simp: cells_of_def chunk_ok_def split: option.splits)

lemma cells_of_exact:
  assumes "sheet_exact s" "c \<in> set (cells_of s k)"
  shows "Cells s (CellID c) = Some c"
  using assms unfolding sheet_exact_def cells_of_def by (cases "Chunks s k") auto

lemma sheet_exactI:
  assumes "\<And>k c. c \<in> set (cells_of s k) \<Longrightarrow> Cells s (CellID c) = Some c"
    and "\<And>i c. Cells s i = Some c \<Longrightarrow> c \<in> set (cells_of s (c_ChunkID c)) \<and> SheetName c = sf_filename s"
  shows "sheet_exact s"
proof -
  have "Cells s (CellID c) = Some c" if "Chunks s k = Some ch" "c \<in> set (ch_Cells ch)" for k ch c
    using that by (intro assms(1) [of c k]) (simp add: cells_of_def)
  with assms(2) show ?thesis unfolding sheet_exact_def by blast
qed

lemma granted_put:
  assumes "sheet_ok s" "sheet_exact s" "granted s i s' cell ch"
  shows "put_cell (cells_of s (c_ChunkID cell)) cell = ch_Cells ch"
proof (cases "Cells s i")
  case None
  have "CellID cell \<notin> CellID ` set (cells_of s (c_ChunkID cell))"
    using None assms(3) cells_of_exact [OF assms(2)] by (force simp: granted_def)
  with None assms(3) show ?thesis by (simp add: put_cell_new granted_def)
next
  case (Some c)
  with assms(3) have "cell = c" "ch_Cells ch = cells_of s (c_ChunkID cell)" by (auto simp: granted_def)
  moreover have "c \<in> set (cells_of s (c_ChunkID c))" using Some assms(2) by (auto simp: sheet_exact_def)
  ultimately show ?thesis using put_cell_same [OF cells_of_distinct [OF assms(1)]] by simp
qed

lemma cells_of_granted:
  assumes "granted s i s' cell ch"
  shows "cells_of s' k = (if k = c_ChunkID cell then ch_Cells ch else cells_of s k)"
  using assms by (simp add: granted_def cells_of_def)

lemma granted_exact:
  assumes "sheet_ok s" "sheet_exact s" "granted s i s' cell ch"
  shows "sheet_exact s' \<and> cell \<in> set (ch_Cells ch) \<and> SheetName cell = sf_filename s"
proof (cases "Cells s i")
  case None
  let ?k = "c_ChunkID cell"
  have g: "Cells s' = (Cells s)(i \<mapsto> cell)" "CellID cell = i" "ch_Cells ch = cells_of s ?k @ [cell]"
    "SheetName cell = sf_filename s" "sf_filename s' = sf_filename s" "Chunks s' = (Chunks s)(?k \<mapsto> ch)"
    using assms(3) None by (auto simp: granted_def)
  have "Cells s' (CellID c) = Some c" if "c \<in> set (cells_of s' k)" for k c
  proof (cases "c = cell")
    case False
    then have "c \<in> set (cells_of s k)"
      using that g(3) by (auto simp: cells_of_granted [OF assms(3)] split: if_splits)
    from cells_of_exact [OF assms(2) this] None show ?thesis by (auto simp: g(1))
  qed (simp add: g(1,2))
  moreover have "c \<in> set (cells_of s' (c_ChunkID c)) \<and> SheetName c = sf_filename s'"
    if "Cells s' j = Some c" for j c
  proof (cases "c = cell")
    case False
    then have "Cells s j = Some c" using that g(1) by (auto split: if_splits)
    then have "c \<in> set (cells_of s (c_ChunkID c))" "SheetName c = sf_filename s"
      using assms(2) unfolding sheet_exact_def by blast+
    with g show ?thesis by (auto simp: cells_of_granted [OF assms(3)])
  qed (simp add: g cells_of_granted [OF assms(3)])
  ultimately show ?thesis
    using g sheet_exactI [of s'] by auto
next
  case (Some c)
  with assms(3) have g: "cell = c" "ch_Cells ch = cells_of s (c_ChunkID c)" "Cells s' = Cells s"
    "sf_filename s' = sf_filename s" by (auto simp: granted_def fun_upd_idem)
  have co: "cells_of s' k = cells_of s k" for k using g by (simp add: cells_of_granted [OF assms(3)])
  have "sheet_exact s'"
    using cells_of_exact [OF assms(2)] assms(2) g by (intro sheet_exactI) (auto simp: co sheet_exact_def)
  then show ?thesis
    using assms(2) Some g by (simp add: sheet_exact_def)
qed

subsection \<open>Steps of the primary\<close>

datatype fm_op = FmCreate string | FmOpen string | FmRecycle int string | FmResume string | FmWrite u64 u32 u32

fun fm_exec :: "('db, 'k) env \<Rightarrow> ('db, 'k) FileManager \<Rightarrow> fm_op \<Rightarrow> ('db, 'k) FileManager \<times> bool" where
  "fm_exec E f (FmCreate n) =
     (case CreateSheet E f n of Some (f', Inr _) \<Rightarrow> (f', True) | Some (f', Inl _) \<Rightarrow> (f', False) | None \<Rightarrow> (f, False))"
| "fm_exec E f (FmOpen n) = (case OpenSheet E f n of (f', Inr _) \<Rightarrow> (f', True) | (f', Inl _) \<Rightarrow> (f', False))"
| "fm_exec E f (FmRecycle now n) = (case RecycleSheet E now f n of (f', err) \<Rightarrow> (f', err = None))"
| "fm_exec E f (FmResume n) = (case ResumeSheet E f n of (f', err) \<Rightarrow> (f', err = None))"
| "fm_exec E f (FmWrite fd row col) =
     (case WriteFileCell E f fd row col of
        Some (f', Inr _) \<Rightarrow> (f', True) | Some (f', Inl _) \<Rightarrow> (f', False) | None \<Rightarrow> (f, False))"

definition new_entry :: "string \<Rightarrow> MapEntry" where
  "new_entry n = \<lparr>m_ID = 0, FileName = n, CellsTableName = GetCellTableName n, Recycled = False, RecycledAt = zero_time\<rparr>"

definition cell_entry :: "Cell \<Rightarrow> Chunk \<Rightarrow> FileMapEntry option \<Rightarrow> MasterEntry" where
  "cell_entry c ch me = \<lparr>XCell = Some (FromSheetCell c), XChunk = Some (FromSheetChunk ch), XFileMap = me\<rparr>"

definition map_entry :: "MapEntry \<Rightarrow> MasterEntry" where
  "map_entry e = \<lparr>XCell = None, XChunk = None, XFileMap = Some (FromMgrEntry e)\<rparr>"

text \<open>The entry an operation journals in a state.\<close>

fun fm_entry :: "('db, 'k) env \<Rightarrow> ('db, 'k) FileManager \<Rightarrow> fm_op \<Rightarrow> MasterEntry option" where
  "fm_entry E f (FmCreate n) =
     (case CreateSheetFile (e_gorm E) (fm_db f) (fm_alloc f) n of
        Some (_, _, Inr (s, c, ch)) \<Rightarrow> Some (cell_entry c ch (Some (FromMgrEntry (new_entry n))))
      | _ \<Rightarrow> None)"
| "fm_entry E f (FmOpen n) = None"
| "fm_entry E f (FmRecycle now n) =
     map_option (\<lambda>e. map_entry (e\<lparr>Recycled := True, RecycledAt := now\<rparr>)) (Entries f n)"
| "fm_entry E f (FmResume n) = map_option (\<lambda>e. map_entry (e\<lparr>Recycled := False\<rparr>)) (Entries f n)"
| "fm_entry E f (FmWrite fd row col) =
     (case Option.bind (Fds f fd) (Opened f) of
        None \<Rightarrow> None
      | Some s \<Rightarrow>
          (case WriteCellChunk (e_gorm E) (fm_db f) (fm_alloc f) s row col of
             Some (_, _, _, Inr (c, ch)) \<Rightarrow> Some (cell_entry c ch None)
           | _ \<Rightarrow> None))"

lemma fresh_of_ids:
  assumes "gorm_ok G ids" "card (ids db) < 2 ^ 62" "dom (Chunks s) \<subseteq> ids db"
  shows "fresh_chunk_ids G db s"
  using assms by (auto simp: fresh_chunk_ids_def gorm_ok_def)

lemma write_step:
  assumes E: "env_ok E plog ids" and ok: "fm_ok ids f" and room: "fm_room ids f"
    and x: "fm_exec E f (FmWrite fd row col) = (f', True)"
  obtains n s s' cell ch where
    "Fds f fd = Some n" "Opened f n = Some s" "granted s (GetCellID row col) s' cell ch" "sheet_ok s'"
    "fm_entry E f (FmWrite fd row col) = Some (cell_entry cell ch None)"
    "Opened f' = (Opened f)(n \<mapsto> s')" "Entries f' = Entries f" "fm_ok ids f'"
    "WriteFileCell E f fd row col = Some (f', Inr (cell, ch))"
    "\<And>w. journalWriter f = Some w \<Longrightarrow>
       logged E plog (entriesKey w) (fm_broker f) (journalWriter f') (fm_broker f') (cell_entry cell ch None)"
proof -
  obtain r where w: "WriteFileCell E f fd row col = Some (f', Inr r)"
    using x by (auto split: option.splits sum.splits)
  then obtain n s where n: "Fds f fd = Some n" "Opened f n = Some s"
    by (auto simp: WriteFileCell_def split: option.splits)
  have so: "sheet_ok s" "sheet_exact s" "dom (Chunks s) \<subseteq> ids (fm_db f)" "alloc_ok (fm_alloc f)" "sf_filename s = n"
    using fm_okD [OF ok] n(2) by auto
  have G: "gorm_ok (e_gorm E) ids" using E by (simp add: env_ok_def)
  have fr: "fresh_chunk_ids (e_gorm E) (fm_db f) s"
    using fresh_of_ids [OF G _ so(3)] room by (simp add: fm_room_def)
  obtain wj where wj: "journalWriter f = Some wj" using fm_okD(3) [OF ok] by blast
  from so(1,4) fr show ?thesis
  proof (cases rule: WriteCellChunk_cases [where row = row and col = col])
    case (granted db' al' s' cell ch)
    let ?f1 = "f\<lparr>fm_db := db', fm_alloc := al', Opened := (Opened f)(n \<mapsto> s')\<rparr>"
    from writeJournal_ok [OF E, of ?f1 wj "cell_entry cell ch None"] wj obtain w' k' where
      j: "writeJournal E ?f1 (cell_entry cell ch None) = (?f1\<lparr>journalWriter := Some w', fm_broker := k'\<rparr>, None)"
        "logged E plog (entriesKey wj) (fm_broker f) (Some w') k' (cell_entry cell ch None)"
      by auto
    have f': "f' = ?f1\<lparr>journalWriter := Some w', fm_broker := k'\<rparr>" "r = (cell, ch)"
      using w n granted(1) j(1) by (simp_all add: WriteFileCell_def Let_def cell_entry_def)
    have ge: "sheet_exact s'" using granted_exact [OF so(1,2) granted(4)] by simp
    have fn: "sf_filename s' = n" using granted(4) so(5) by (simp add: granted_def)
    have ch: "dom (Chunks s') \<subseteq> insert (c_ChunkID cell) (dom (Chunks s))"
      using granted(4) by (auto simp: granted_def)
    have ids: "ids (fm_db f) \<subseteq> ids db'" "c_ChunkID cell \<in> ids db'"
      and new: "c_ChunkID cell \<in> dom (Chunks s) \<or> c_ChunkID cell \<notin> ids (fm_db f)"
      using granted(5) so(3) put_chunk_ok [OF G, of _ "fm_db f" db' "c_ChunkID cell"] room
      by (auto simp: fm_room_def)
    have "fm_ok ids f'"
      unfolding fm_ok_def
    proof (intro conjI allI impI)
      show "alloc_ok (fm_alloc f')" "journalWriter f' \<noteq> None" using granted(3) f' by auto
      show "dom (Opened f') = dom (Entries f')" using fm_okD(2) [OF ok] n(2) f' by auto
      show "FileName e = m" if "Entries f' m = Some e" for m e using that fm_okD(8) [OF ok] f' by simp
      fix m u assume m: "Opened f' m = Some u"
      then show "sheet_ok u" "sheet_exact u" "sf_filename u = m"
        using granted(2) ge fn fm_okD(4-6) [OF ok, of m u] f' by (auto split: if_splits)
      show "dom (Chunks u) \<subseteq> ids (fm_db f')"
        using m ch ids so(3) fm_okD(7) [OF ok, of m u] f' by (auto split: if_splits)
    next
      fix m m' u v assume a: "Opened f' m = Some u \<and> Opened f' m' = Some v \<and> m \<noteq> m'"
      have "dom (Chunks s') \<inter> dom (Chunks v) = {}" if "Opened f l = Some v" "l \<noteq> n" for l v
      proof -
        have "dom (Chunks s) \<inter> dom (Chunks v) = {}" "dom (Chunks v) \<subseteq> ids (fm_db f)"
          using ok that n(2) unfolding fm_ok_def by blast+
        with ch new show ?thesis by blast
      qed
      moreover have "dom (Chunks u) \<inter> dom (Chunks v) = {}" if "Opened f m = Some u" "Opened f m' = Some v"
        using ok that a unfolding fm_ok_def by blast
      ultimately show "dom (Chunks u) \<inter> dom (Chunks v) = {}"
        using a f' by (auto split: if_splits)
    next
      fix fd' m assume "Fds f' fd' = Some m"
      then show "m \<in> dom (Opened f')" "unat fd' < unat (nextFd f')"
        using fm_okD(9,10) [OF ok, of fd' m] f' by auto
    qed
    then show ?thesis
      using n granted f' w j(2) wj by (intro that [of n s s' cell ch]) (auto simp: cell_entry_def)
  qed (use w n in \<open>auto simp: WriteFileCell_def Let_def\<close>)
qed

lemma create_step:
  assumes E: "env_ok E plog ids" and ok: "fm_ok ids f" and room: "fm_room ids f"
    and x: "fm_exec E f (FmCreate n) = (f', True)"
  obtains s m ch where
    "Entries f n = None" "Opened f n = None" "sheet_ok s" "Cells s = [SheetMetaCellID \<mapsto> m]"
    "Chunks s = [ch_ID ch \<mapsto> ch]" "ch_Cells ch = [m]" "m = NewCell SheetMetaCellID 0 8192 (ch_ID ch) n"
    "fm_entry E f (FmCreate n) = Some (cell_entry m ch (Some (FromMgrEntry (new_entry n))))"
    "Opened f' = (Opened f)(n \<mapsto> s)" "Entries f' = (Entries f)(n \<mapsto> new_entry n)" "fm_ok ids f'"
    "CreateSheet E f n = Some (f', Inr (nextFd f))" "Fds f' = (Fds f)(nextFd f \<mapsto> n)"
    "\<And>w. journalWriter f = Some w \<Longrightarrow>
       logged E plog (entriesKey w) (fm_broker f) (journalWriter f') (fm_broker f')
         (cell_entry m ch (Some (FromMgrEntry (new_entry n))))"
proof -
  obtain r where w: "CreateSheet E f n = Some (f', Inr r)"
    using x by (auto split: option.splits sum.splits)
  have n: "Entries f n = None" "Opened f n = None"
    using w fm_okD(2) [OF ok] by (auto simp: CreateSheet_def split: if_splits)
  have G: "gorm_ok (e_gorm E) ids" using E by (simp add: env_ok_def)
  obtain wj where wj: "journalWriter f = Some wj" using fm_okD(3) [OF ok] by blast
  from fm_okD(1) [OF ok] show ?thesis
  proof (cases rule: CreateSheetFile_cases [where G = "e_gorm E" and db = "fm_db f" and n = n])
    case (created db' al' s m ch)
    let ?f1 = "f\<lparr>fm_db := db', fm_alloc := al'\<rparr>"
    let ?e = "cell_entry m ch (Some (FromMgrEntry (new_entry n)))"
    from writeJournal_ok [OF E, of ?f1 wj ?e] wj obtain w' k' where
      j: "writeJournal E ?f1 ?e = (?f1\<lparr>journalWriter := Some w', fm_broker := k'\<rparr>, None)"
        "logged E plog (entriesKey wj) (fm_broker f) (Some w') k' ?e" by auto
    have f': "f' = ?f1\<lparr>journalWriter := Some w', fm_broker := k', Entries := (Entries f)(n \<mapsto> new_entry n),
        Opened := (Opened f)(n \<mapsto> s), nextFd := nextFd f + 1, Fds := (Fds f)(nextFd f \<mapsto> n)\<rparr>" "r = nextFd f"
      using w n created(1) j(1)
      by (auto simp: CreateSheet_def domIff Let_def cell_entry_def new_entry_def allocFd_def)
    from created(11) obtain db1 c where c: "ch_ID c = 0"
      "CreateCellTableIfNotExists (e_gorm E) (fm_db f) n = (db1, True)" "g_put_chunk (e_gorm E) db1 c = (db', ch_ID ch)"
      by blast
    have i1: "ids db1 = ids (fm_db f)" using CreateCellTable_ok(2) [OF G c(2)] .
    with put_chunk_ok [OF G c(1) _ c(3)] room have
      ids: "ch_ID ch \<notin> ids (fm_db f)" "ids db' = insert (ch_ID ch) (ids (fm_db f))" by (simp_all add: fm_room_def)
    have se: "sheet_exact s"
      using created(4,5,7,8,10) by (intro sheet_exactI) (auto simp: cells_of_def NewCell_def split: if_splits)
    have nf: "unat (nextFd f + 1) = unat (nextFd f) + 1"
      using room by (simp add: fm_room_def unat_plus_if_size word_size)
    have "fm_ok ids f'"
      unfolding fm_ok_def
    proof (intro conjI allI impI)
      show "alloc_ok (fm_alloc f')" "journalWriter f' \<noteq> None" using created(3) f' by auto
      show "dom (Opened f') = dom (Entries f')" using fm_okD(2) [OF ok] f' by auto
      show "FileName e = m" if "Entries f' m = Some e" for m e
        using that fm_okD(8) [OF ok] f' by (auto simp: new_entry_def split: if_splits)
      fix l u assume l: "Opened f' l = Some u"
      then show "sheet_ok u" "sheet_exact u" "sf_filename u = l"
        using created(2,10) se fm_okD(4-6) [OF ok, of l u] f' by (auto split: if_splits)
      show "dom (Chunks u) \<subseteq> ids (fm_db f')"
        using l created(5) ids fm_okD(7) [OF ok, of l u] f' by (auto split: if_splits)
    next
      fix l l' u v assume a: "Opened f' l = Some u \<and> Opened f' l' = Some v \<and> l \<noteq> l'"
      have "dom (Chunks s) \<inter> dom (Chunks v) = {}" if "Opened f l = Some v" for l v
        using fm_okD(7) [OF ok that] ids(1) created(5) by auto
      moreover have "dom (Chunks u) \<inter> dom (Chunks v) = {}" if "Opened f l = Some u" "Opened f l' = Some v"
        using ok that a unfolding fm_ok_def by blast
      ultimately show "dom (Chunks u) \<inter> dom (Chunks v) = {}"
        using a f' by (auto split: if_splits)
    next
      fix fd' l assume "Fds f' fd' = Some l"
      then show "l \<in> dom (Opened f')" "unat fd' < unat (nextFd f')"
        using fm_okD(9,10) [OF ok, of fd' l] f' nf by (auto split: if_splits)
    qed
    with n created f' w j(2) wj show ?thesis
      by (intro that [of s m ch]) auto
  qed (use w n in \<open>auto simp: CreateSheet_def domIff\<close>)
qed

lemma open_step:
  assumes ok: "fm_ok ids f" and room: "fm_room ids f" and x: "fm_exec E f (FmOpen n) = (f', True)"
  shows "fm_ok ids f'" "Entries f' = Entries f" "Opened f' = Opened f"
    "OpenSheet E f n = (f', Inr (nextFd f))" "Fds f' = (Fds f)(nextFd f \<mapsto> n)"
    "\<exists>e. Entries f n = Some e \<and> \<not> Recycled e"
proof -
  obtain fd where w: "OpenSheet E f n = (f', Inr fd)" using x by (auto split: prod.splits sum.splits)
  then obtain e where e: "Entries f n = Some e" "\<not> Recycled e"
    by (auto simp: OpenSheet_def openFile_def split: option.splits if_splits)
  then obtain s where s: "Opened f n = Some s" using fm_okD(2) [OF ok] by blast
  have f': "f' = f\<lparr>nextFd := nextFd f + 1, Fds := (Fds f)(nextFd f \<mapsto> n)\<rparr>" "fd = nextFd f"
    using w e s by (auto simp: OpenSheet_def openFile_def allocFd_def Let_def)
  have nf: "unat (nextFd f + 1) = unat (nextFd f) + 1"
    using room by (simp add: fm_room_def unat_plus_if_size word_size)
  have "l \<in> dom (Opened f) \<and> unat fd' < unat (nextFd f + 1)"
    if "((Fds f)(nextFd f \<mapsto> n)) fd' = Some l" for fd' l
    using that s nf fm_okD(9,10) [OF ok, of fd' l] by (auto split: if_splits)
  then show "fm_ok ids f'" using ok unfolding f' fm_ok_def by simp
  show "Entries f' = Entries f" "Opened f' = Opened f" "OpenSheet E f n = (f', Inr (nextFd f))"
    "Fds f' = (Fds f)(nextFd f \<mapsto> n)" "\<exists>e. Entries f n = Some e \<and> \<not> Recycled e"
    using w f' e by auto
qed

text \<open>Recycling and resuming only change the directory entry.\<close>

lemma fm_ok_entry:
  assumes "fm_ok ids f" "Entries f n = Some e" "FileName e' = n"
  shows "fm_ok ids (f\<lparr>journalWriter := Some w, fm_broker := k, Entries := (Entries f)(n \<mapsto> e')\<rparr>)"
proof -
  have "dom ((Entries f)(n \<mapsto> e')) = dom (Opened f)" using assms(2) fm_okD(2) [OF assms(1)] by auto
  moreover have "FileName e'' = m" if "((Entries f)(n \<mapsto> e')) m = Some e''" for m e''
    using that assms(3) fm_okD(8) [OF assms(1)] by (auto split: if_splits)
  ultimately show ?thesis using assms(1) unfolding fm_ok_def by simp blast
qed

lemma recycle_step:
  assumes E: "env_ok E plog ids" and ok: "fm_ok ids f" and x: "fm_exec E f (FmRecycle now n) = (f', True)"
    and e: "Entries f n = Some e"
  shows "fm_ok ids f'" "Entries f' = (Entries f)(n \<mapsto> e\<lparr>Recycled := True, RecycledAt := now\<rparr>)"
    "Opened f' = Opened f" "Fds f' = Fds f"
    "journalWriter f = Some w \<Longrightarrow> logged E plog (entriesKey w) (fm_broker f) (journalWriter f') (fm_broker f')
       (map_entry (e\<lparr>Recycled := True, RecycledAt := now\<rparr>))"
proof -
  obtain wj where wj: "journalWriter f = Some wj" using fm_okD(3) [OF ok] by blast
  let ?e = "e\<lparr>Recycled := True, RecycledAt := now\<rparr>"
  from writeJournal_ok [OF E wj, of "map_entry ?e"] obtain w' k' where
    j: "writeJournal E f (map_entry ?e) = (f\<lparr>journalWriter := Some w', fm_broker := k'\<rparr>, None)"
      "logged E plog (entriesKey wj) (fm_broker f) (Some w') k' (map_entry ?e)" by auto
  have f': "f' = f\<lparr>journalWriter := Some w', fm_broker := k', Entries := (Entries f)(n \<mapsto> ?e)\<rparr>"
    using x e j(1) by (auto simp: RecycleSheet_def Let_def map_entry_def)
  show "fm_ok ids f'" using fm_ok_entry [OF ok e, of ?e] fm_okD(8) [OF ok e] f' by simp
  show "Entries f' = (Entries f)(n \<mapsto> ?e)" "Opened f' = Opened f" "Fds f' = Fds f" using f' by auto
  show "logged E plog (entriesKey w) (fm_broker f) (journalWriter f') (fm_broker f') (map_entry ?e)"
    if "journalWriter f = Some w" using that wj j(2) f' by simp
qed

lemma resume_step:
  assumes E: "env_ok E plog ids" and ok: "fm_ok ids f" and x: "fm_exec E f (FmResume n) = (f', True)"
    and e: "Entries f n = Some e"
  shows "fm_ok ids f'" "Entries f' = (Entries f)(n \<mapsto> e\<lparr>Recycled := False\<rparr>)"
    "Opened f' = Opened f" "Fds f' = Fds f"
    "journalWriter f = Some w \<Longrightarrow> logged E plog (entriesKey w) (fm_broker f) (journalWriter f') (fm_broker f')
       (map_entry (e\<lparr>Recycled := False\<rparr>))"
proof -
  obtain wj where wj: "journalWriter f = Some wj" using fm_okD(3) [OF ok] by blast
  let ?e = "e\<lparr>Recycled := False\<rparr>"
  from writeJournal_ok [OF E wj, of "map_entry ?e"] obtain w' k' where
    j: "writeJournal E f (map_entry ?e) = (f\<lparr>journalWriter := Some w', fm_broker := k'\<rparr>, None)"
      "logged E plog (entriesKey wj) (fm_broker f) (Some w') k' (map_entry ?e)" by auto
  have f': "f' = f\<lparr>journalWriter := Some w', fm_broker := k', Entries := (Entries f)(n \<mapsto> ?e)\<rparr>"
    using x e j(1) by (auto simp: ResumeSheet_def Let_def map_entry_def)
  show "fm_ok ids f'" using fm_ok_entry [OF ok e, of ?e] fm_okD(8) [OF ok e] f' by simp
  show "Entries f' = (Entries f)(n \<mapsto> ?e)" "Opened f' = Opened f" "Fds f' = Fds f" using f' by auto
  show "logged E plog (entriesKey w) (fm_broker f) (journalWriter f') (fm_broker f') (map_entry ?e)"
    if "journalWriter f = Some w" using that wj j(2) f' by simp
qed

lemma missing_step:
  assumes "Entries f n = None"
  shows "fm_exec E f (FmRecycle now n) = (f, True)" "fm_exec E f (FmResume n) = (f, True)"
  using assms by (simp_all add: RecycleSheet_def ResumeSheet_def)

subsection \<open>The secondary mirrors the primary\<close>

text \<open>
  A directory entry on the secondary went through the journal's \<open>int64\<close> timestamp: the time of a
  file that was never recycled, Go's zero time, comes out changed.
\<close>

definition norm_entry :: "MapEntry \<Rightarrow> MapEntry" where
  "norm_entry e = e\<lparr>RecycledAt := time_Unix (UnixNano (RecycledAt e))\<rparr>"

definition mirror :: "('db, 'k) env \<Rightarrow> ('db, 'k) FileManager \<Rightarrow> ('db, 'k) FileManager \<Rightarrow> bool" where
  "mirror E p q \<longleftrightarrow>
     (\<forall>n. Entries q n = map_option norm_entry (Entries p n)) \<and>
     (\<forall>n. Opened p n = None \<longrightarrow> Opened q n = None \<and> g_cells (e_gorm E) (fm_db q) (GetCellTableName n) = []) \<and>
     (\<forall>n s. Opened p n = Some s \<longrightarrow> (\<exists>t. Opened q n = Some t \<and> Cells t = Cells s \<and> Chunks t = Chunks s))"

definition fm_apply :: "('db, 'k) env \<Rightarrow> ('db, 'k) FileManager \<Rightarrow> MasterEntry \<Rightarrow> ('db, 'k) FileManager option" where
  "fm_apply E q e = (case HandleMasterEntry E q e of Some (q', None) \<Rightarrow> Some q' | _ \<Rightarrow> None)"

lemma mirrorD:
  assumes "mirror E p q"
  shows "Entries q n = map_option norm_entry (Entries p n)"
    and "Opened p n = None \<Longrightarrow> Opened q n = None \<and> g_cells (e_gorm E) (fm_db q) (GetCellTableName n) = []"
    and "Opened p n = Some s \<Longrightarrow> \<exists>t. Opened q n = Some t \<and> Cells t = Cells s \<and> Chunks t = Chunks s"
  using assms unfolding mirror_def by blast+

lemma norm_norm [simp]: "time_Unix (UnixNano (time_Unix (UnixNano t))) = time_Unix (UnixNano t)"
  by (simp add: time_Unix_def UnixNano_def)

lemma handleJournalMapEntry_From:
  assumes "case es (FileName e) of None \<Rightarrow> m_ID e = 0 | Some e0 \<Rightarrow> m_ID e0 = m_ID e"
  shows "handleJournalMapEntry es (FromMgrEntry e) = es(FileName e \<mapsto> norm_entry e)"
  using assms
  by (auto simp: handleJournalMapEntry_def ToMgrEntry_From norm_entry_def zero_entry_def FromMgrEntry_def
      ToMgrEntry_def split: option.splits)

lemma apply_map_entry:
  assumes "mirror E p q" "Entries p n = Some e" "FileName e' = n" "m_ID e' = m_ID e"
    and "\<And>m. Entries p' m = ((Entries p)(n \<mapsto> e')) m" "Opened p' = Opened p"
  shows "\<exists>q'. fm_apply E q (map_entry e') = Some q' \<and> mirror E p' q'"
proof -
  have "handleJournalMapEntry (Entries q) (FromMgrEntry e') = (Entries q)(n \<mapsto> norm_entry e')"
    using assms(1-4) by (subst handleJournalMapEntry_From) (auto simp: mirror_def norm_entry_def)
  then show ?thesis
    using assms(1,5,6) by (auto simp: fm_apply_def HandleMasterEntry_def map_entry_def mirror_def)
qed

text \<open>
  Applying a cell entry whose sheet the directory of the secondary already contains (after the
  directory part \<open>q0\<close> of the entry).
\<close>

lemma apply_cell_entry:
  assumes G: "gorm_ok (e_gorm E) ids"
    and q0: "q0 = (case me of None \<Rightarrow> q | Some m \<Rightarrow> q\<lparr>Entries := handleJournalMapEntry (Entries q) m\<rparr>)"
    and n: "SheetName cell = n" "n \<in> dom (Entries q0)"
    and t: "t = (case Opened q n of Some t \<Rightarrow> t | None \<Rightarrow> LoadSheetFile (e_gorm E) (fm_db q) n)"
    and ch: "ch_ID ch = c_ChunkID cell"
      "case Cells t (CellID cell) of None \<Rightarrow> c_ID cell = 0 | Some c \<Rightarrow> c_ID c = c_ID cell"
      "put_cell (cells_of t (c_ChunkID cell)) cell = ch_Cells ch"
  shows "\<exists>db' t'. fm_apply E q (cell_entry cell ch me) = Some (q0\<lparr>fm_db := db', Opened := (Opened q)(n \<mapsto> t')\<rparr>) \<and>
     (\<forall>u. g_cells (e_gorm E) db' u = g_cells (e_gorm E) (fm_db q) u) \<and>
     Cells t' = (Cells t)(CellID cell \<mapsto> cell) \<and> Chunks t' = (Chunks t)(c_ChunkID cell \<mapsto> ch)"
proof -
  obtain db1 ok where c: "CreateCellTableIfNotExists (e_gorm E) (fm_db q) n = (db1, ok)" by fastforce
  note T = CreateCellTable_ok [OF G c]
  have "CreateCellTableIfNotExists (e_gorm E) (fm_db q) (SheetName cell) = (db1, True)" using c T(1) n by simp
  from apply_cell_chunk [OF ch this] obtain db' t' where
    a: "handleCellEntry (e_gorm E) (fm_db q) (handleChunkEntry t (FromSheetChunk ch)) (FromSheetCell cell) =
        Some (db', t', None)" "db' = fm_db q \<or> db' = db1"
       "Cells t' = (Cells t)(CellID cell \<mapsto> cell)" "Chunks t' = (Chunks t)(c_ChunkID cell \<mapsto> ch)" by blast
  have q: "Opened q0 = Opened q" "fm_db q0 = fm_db q" by (simp_all add: q0 split: option.splits)
  have ce: "ce_ChunkId (FromSheetCell cell) = che_Id (FromSheetChunk ch)"
    "ce_TargetState (FromSheetCell cell) = che_TargetState (FromSheetChunk ch)"
    "ce_SheetName (FromSheetCell cell) = n"
    using ch(1) n by (simp_all add: FromSheetCell_def FromSheetChunk_def)
  have fl: "(case Opened q0 (ce_SheetName (FromSheetCell cell)) of
      None \<Rightarrow> LoadSheetFile (e_gorm E) (fm_db q0) (ce_SheetName (FromSheetCell cell)) | Some file \<Rightarrow> file) = t"
    unfolding t ce q ..
  have "HandleMasterEntry E q (cell_entry cell ch me) =
      Some (q0\<lparr>fm_db := db', Opened := (Opened q)(n \<mapsto> t')\<rparr>, None)"
    unfolding HandleMasterEntry_def cell_entry_def Let_def MasterEntry.select_convs q0 [symmetric] option.case prod.case
      fl using a(1) n(2) by (simp add: ce q)
  then show ?thesis
    using a T by (auto simp: fm_apply_def)
qed

text \<open>The mirror after one sheet \<open>n\<close> was brought up to date.\<close>

lemma mirror_update:
  assumes "Opened p' = (Opened p)(n \<mapsto> s)" "Opened q' = (Opened q)(n \<mapsto> t)" "Cells t = Cells s" "Chunks t = Chunks s"
    and "\<And>l. Entries q' l = map_option norm_entry (Entries p' l)"
    and "\<forall>u. g_cells (e_gorm E) (fm_db q') u = g_cells (e_gorm E) (fm_db q) u"
    and "mirror E p q \<or> mirror E p' q"
  shows "mirror E p' q'"
  unfolding mirror_def
proof (intro conjI allI impI)
  show "Entries q' l = map_option norm_entry (Entries p' l)" for l by (rule assms(5))
  show "\<exists>t. Opened q' l = Some t \<and> Cells t = Cells u \<and> Chunks t = Chunks u" if "Opened p' l = Some u" for l u
    using that assms(1-4,7) mirrorD(3) [of E p q l u] mirrorD(3) [of E p' q l u] by (cases "l = n") auto
  fix l assume l: "Opened p' l = None"
  then have "l \<noteq> n" "Opened p l = None" using assms(1) by (auto split: if_splits)
  then show "Opened q' l = None" "g_cells (e_gorm E) (fm_db q') (GetCellTableName l) = []"
    using l assms(2,6,7) mirrorD(2) [of E p q l] mirrorD(2) [of E p' q l] by auto
qed

text \<open>
  A step that grants a cell in sheet \<open>n\<close>: its entry takes a mirror of the old state, or of the new one,
  to a mirror of the new one.
\<close>

lemma mirror_granted:
  assumes G: "gorm_ok (e_gorm E) ids" and n: "Opened p n = Some s" "n \<in> dom (Entries p)"
    and s: "sheet_ok s" "sheet_exact s" "sf_filename s = n" "sheet_ok s'"
    and g: "granted s i s' cell ch"
    and p': "Opened p' = (Opened p)(n \<mapsto> s')" "Entries p' = Entries p"
    and m: "mirror E p q \<or> mirror E p' q"
  shows "\<exists>q'. fm_apply E q (cell_entry cell ch None) = Some q' \<and> mirror E p' q'"
proof -
  note x = granted_exact [OF s(1,2) g]
  have nm: "SheetName cell = n" using x s(3) by simp
  have nq: "n \<in> dom (Entries q)" using m n(2) p'(2) by (auto simp: mirror_def)
  have gd: "Cells s' = (Cells s)(i \<mapsto> cell)" "Chunks s' = (Chunks s)(c_ChunkID cell \<mapsto> ch)"
    "CellID cell = i" "ch_ID ch = c_ChunkID cell" using g by (simp_all add: granted_def)
  obtain t where t: "Opened q n = Some t" "Cells t = Cells s \<and> Chunks t = Chunks s \<or> Cells t = Cells s' \<and> Chunks t = Chunks s'"
    using m mirrorD(3) [of E p q n s] mirrorD(3) [of E p' q n s'] n(1) p'(1) by auto
  have c: "case Cells t (CellID cell) of None \<Rightarrow> c_ID cell = 0 | Some c \<Rightarrow> c_ID c = c_ID cell"
    using t(2) g gd by (auto simp: granted_def split: option.splits)
  have "put_cell (cells_of s' (c_ChunkID cell)) cell = ch_Cells ch"
    using put_cell_same [OF cells_of_distinct [OF s(4), of "c_ChunkID cell"], of cell] x
    by (simp add: cells_of_granted [OF g])
  then have p: "put_cell (cells_of t (c_ChunkID cell)) cell = ch_Cells ch"
    using t(2) granted_put [OF s(1,2) g] by (auto simp: cells_of_def)
  from apply_cell_entry [OF G refl nm, of q None t ch] nq t(1) c p gd(4) obtain db' t' where
    a: "fm_apply E q (cell_entry cell ch None) = Some (q\<lparr>fm_db := db', Opened := (Opened q)(n \<mapsto> t')\<rparr>)"
      "\<forall>u. g_cells (e_gorm E) db' u = g_cells (e_gorm E) (fm_db q) u"
      "Cells t' = (Cells t)(CellID cell \<mapsto> cell)" "Chunks t' = (Chunks t)(c_ChunkID cell \<mapsto> ch)" by auto
  have t': "Cells t' = Cells s'" "Chunks t' = Chunks s'" using a(3,4) t(2) gd by auto
  have "mirror E p' (q\<lparr>fm_db := db', Opened := (Opened q)(n \<mapsto> t')\<rparr>)"
    using t' a(2) m p' mirrorD(1) [of E p q] mirrorD(1) [of E p' q]
    by (intro mirror_update [where p = p and q = q and n = n and s = s' and t = t']) auto
  with a(1) show ?thesis by blast
qed

lemma mirror_created:
  assumes G: "gorm_ok (e_gorm E) ids" and n: "Entries p n = None" "Opened p n = None"
    and s: "Cells s = [SheetMetaCellID \<mapsto> m]" "Chunks s = [ch_ID ch \<mapsto> ch]" "ch_Cells ch = [m]"
      "m = NewCell SheetMetaCellID 0 8192 (ch_ID ch) n"
    and p': "Opened p' = (Opened p)(n \<mapsto> s)" "Entries p' = (Entries p)(n \<mapsto> new_entry n)"
    and m: "mirror E p q \<or> mirror E p' q"
  shows "\<exists>q'. fm_apply E q (cell_entry m ch (Some (FromMgrEntry (new_entry n)))) = Some q' \<and> mirror E p' q'"
proof -
  have me: "SheetName m = n" "c_ChunkID m = ch_ID ch" "CellID m = SheetMetaCellID" "c_ID m = 0"
    using s(4) by (simp_all add: NewCell_def)
  have ne: "FileName (new_entry n) = n" "m_ID (new_entry n) = 0" by (simp_all add: new_entry_def)
  have "Entries q n = None \<or> Entries q n = Some (norm_entry (new_entry n))"
    using m n p' by (auto simp: mirror_def)
  then have h: "handleJournalMapEntry (Entries q) (FromMgrEntry (new_entry n)) = (Entries q)(n \<mapsto> norm_entry (new_entry n))"
    using handleJournalMapEntry_From [where es = "Entries q" and e = "new_entry n"] ne by (auto simp: norm_entry_def)
  define t where "t = (case Opened q n of Some t \<Rightarrow> t | None \<Rightarrow> LoadSheetFile (e_gorm E) (fm_db q) n)"
  have t: "Cells t = Map.empty \<and> Chunks t = Map.empty \<or> Cells t = Cells s \<and> Chunks t = Chunks s"
    using m
  proof
    assume "mirror E p q"
    with n(2) have "Opened q n = None" "g_cells (e_gorm E) (fm_db q) (GetCellTableName n) = []"
      by (auto simp: mirror_def)
    then show ?thesis by (simp add: t_def LoadSheetFile_def GetSheetCellsAll_def)
  next
    assume "mirror E p' q"
    with mirrorD(3) [of E p' q n s] p'(1) obtain t0 where
      "Opened q n = Some t0" "Cells t0 = Cells s" "Chunks t0 = Chunks s" by auto
    then show ?thesis by (simp add: t_def)
  qed
  have c: "case Cells t (CellID m) of None \<Rightarrow> c_ID m = 0 | Some c \<Rightarrow> c_ID c = c_ID m"
    using t me s(1) by auto
  have p: "put_cell (cells_of t (c_ChunkID m)) m = ch_Cells ch"
    using t s me by (auto simp: cells_of_def)
  from apply_cell_entry [OF G refl me(1) _ t_def _ c p, of "Some (FromMgrEntry (new_entry n))"] h me(2) obtain db' t' where
    a: "fm_apply E q (cell_entry m ch (Some (FromMgrEntry (new_entry n)))) =
        Some (q\<lparr>Entries := (Entries q)(n \<mapsto> norm_entry (new_entry n)), fm_db := db', Opened := (Opened q)(n \<mapsto> t')\<rparr>)"
      "\<forall>u. g_cells (e_gorm E) db' u = g_cells (e_gorm E) (fm_db q) u"
      "Cells t' = (Cells t)(CellID m \<mapsto> m)" "Chunks t' = (Chunks t)(c_ChunkID m \<mapsto> ch)" by auto
  have t': "Cells t' = Cells s" "Chunks t' = Chunks s" using a(3,4) t s me by auto
  have "\<And>l. l \<noteq> n \<Longrightarrow> Entries q l = map_option norm_entry (Entries p' l)"
    using m mirrorD(1) [of E p q] mirrorD(1) [of E p' q] p'(2) by auto
  then have "mirror E p' (q\<lparr>Entries := (Entries q)(n \<mapsto> norm_entry (new_entry n)), fm_db := db',
      Opened := (Opened q)(n \<mapsto> t')\<rparr>)"
    using t' a(2) m p' by (intro mirror_update [where p = p and q = q and n = n and s = s and t = t']) auto
  with a(1) show ?thesis by blast
qed

text \<open>The master's instance of the primary-backup contract.\<close>

lemma fm_exec_apply:
  assumes inv: "fm_inv E plog ids p" "fm_room ids p" and x: "fm_exec E p x = (p', True)"
    and e: "fm_entry E p x = Some en" and m: "mirror E p q \<or> mirror E p' q"
  shows "\<exists>q'. fm_apply E q en = Some q' \<and> mirror E p' q'"
proof -
  have E: "env_ok E plog ids" "fm_ok ids p" and G: "gorm_ok (e_gorm E) ids"
    using inv(1) by (simp_all add: fm_inv_def env_ok_def)
  show ?thesis
  proof (cases x)
    case (FmCreate n)
    from E inv(2) x [unfolded FmCreate] show ?thesis
    proof (cases rule: create_step)
      case (1 s c ch)
      from mirror_created [OF G 1(1,2,4-7,9,10) m] 1(8) e FmCreate show ?thesis by simp
    qed
  next
    case (FmOpen n)
    with e show ?thesis by simp
  next
    case (FmRecycle now n)
    with e obtain e0 where e0: "Entries p n = Some e0" "en = map_entry (e0\<lparr>Recycled := True, RecycledAt := now\<rparr>)" by auto
    note st = recycle_step [OF E x [unfolded FmRecycle] e0(1)]
    have fn: "FileName e0 = n" using fm_okD(8) [OF E(2) e0(1)] .
    from m show ?thesis
    proof
      assume "mirror E p q"
      from apply_map_entry [OF this e0(1) _ _ _ st(3)] st(2) fn e0(2) show ?thesis by simp
    next
      assume "mirror E p' q"
      from apply_map_entry [OF this, of n _ _ p'] st(2) fn e0(2) show ?thesis by simp
    qed
  next
    case (FmResume n)
    with e obtain e0 where e0: "Entries p n = Some e0" "en = map_entry (e0\<lparr>Recycled := False\<rparr>)" by auto
    note st = resume_step [OF E x [unfolded FmResume] e0(1)]
    have fn: "FileName e0 = n" using fm_okD(8) [OF E(2) e0(1)] .
    from m show ?thesis
    proof
      assume "mirror E p q"
      from apply_map_entry [OF this e0(1) _ _ _ st(3)] st(2) fn e0(2) show ?thesis by simp
    next
      assume "mirror E p' q"
      from apply_map_entry [OF this, of n _ _ p'] st(2) fn e0(2) show ?thesis by simp
    qed
  next
    case (FmWrite fd row col)
    from E inv(2) x [unfolded FmWrite] show ?thesis
    proof (cases rule: write_step)
      case (1 n s s' cell ch)
      have "n \<in> dom (Entries p)" using 1(2) fm_okD(2) [OF E(2)] by blast
      from mirror_granted [OF G 1(2) this fm_okD(4-6) [OF E(2) 1(2)] 1(4,3,6,7) m] 1(5) e FmWrite
      show ?thesis by simp
    qed
  qed
qed

lemma fm_exec_logged:
  assumes inv: "fm_inv E plog ids p" "fm_room ids p" and x: "fm_exec E p x = (p', True)"
    and w: "journalWriter p = Some w"
  shows "case fm_entry E p x of
      None \<Rightarrow> fm_broker p' = fm_broker p \<and> journalWriter p' = Some w
    | Some e \<Rightarrow> logged E plog (entriesKey w) (fm_broker p) (journalWriter p') (fm_broker p') e"
proof -
  have E: "env_ok E plog ids" "fm_ok ids p" using inv(1) by (simp_all add: fm_inv_def)
  show ?thesis
  proof (cases x)
    case (FmCreate n)
    from E inv(2) x [unfolded FmCreate] show ?thesis
      by (cases rule: create_step) (simp only: FmCreate w option.case)
  next
    case (FmOpen n)
    with x w show ?thesis
      by (auto simp: OpenSheet_def openFile_def allocFd_def Let_def split: option.splits if_splits)
  next
    case (FmRecycle now n)
    with x w missing_step [of p n] recycle_step(5) [OF E x [unfolded FmRecycle] _ w] show ?thesis
      by (cases "Entries p n") auto
  next
    case (FmResume n)
    with x w missing_step [of p n] resume_step(5) [OF E x [unfolded FmResume] _ w] show ?thesis
      by (cases "Entries p n") auto
  next
    case (FmWrite fd row col)
    from E inv(2) x [unfolded FmWrite] show ?thesis
      by (cases rule: write_step) (simp only: FmWrite w option.case)
  qed
qed

interpretation fmj: journaled "fm_exec E" "fm_entry E" "mirror E" "fm_apply E" "fm_inv E plog ids"
  "\<lambda>p _. fm_room ids p" for E :: "('db, 'k) env" and plog and ids
proof
  fix p p' q :: "('db, 'k) FileManager" and x en
  assume a: "fm_inv E plog ids p" "fm_room ids p" "fm_exec E p x = (p', True)"
  have E: "env_ok E plog ids" "fm_ok ids p" using a(1) by (simp_all add: fm_inv_def)
  have "fm_ok ids p'"
  proof (cases x)
    case (FmCreate n)
    from E a(2) a(3) [unfolded FmCreate] show ?thesis by (cases rule: create_step)
  next
    case (FmOpen n)
    then show ?thesis using open_step(1) [OF E(2) a(2) a(3) [unfolded FmOpen]] by blast
  next
    case (FmRecycle now n)
    then show ?thesis
      using recycle_step(1) [OF E a(3) [unfolded FmRecycle]] missing_step [of p n] a(3) E(2)
      by (cases "Entries p n") auto
  next
    case (FmResume n)
    then show ?thesis
      using resume_step(1) [OF E a(3) [unfolded FmResume]] missing_step [of p n] a(3) E(2)
      by (cases "Entries p n") auto
  next
    case (FmWrite fd row col)
    from E a(2) a(3) [unfolded FmWrite] show ?thesis by (cases rule: write_step)
  qed
  then show "fm_inv E plog ids p'" using E by (simp add: fm_inv_def)
  show "mirror E p' q" if "fm_entry E p x = None" "mirror E p q"
  proof (cases x)
    case (FmCreate n)
    from E a(2) a(3) [unfolded FmCreate] show ?thesis
    proof (cases rule: create_step)
      case (1 s c ch)
      with that FmCreate show ?thesis by (simp only: option.distinct)
    qed
  next
    case (FmOpen n)
    then show ?thesis using open_step(2,3) [OF E(2) a(2) a(3) [unfolded FmOpen]] that by (simp add: mirror_def)
  next
    case (FmRecycle now n)
    then show ?thesis using missing_step [of p n] a(3) that by auto
  next
    case (FmResume n)
    then show ?thesis using missing_step [of p n] a(3) that by auto
  next
    case (FmWrite fd row col)
    from E a(2) a(3) [unfolded FmWrite] show ?thesis
    proof (cases rule: write_step)
      case (1 n s s' cell ch)
      with that FmWrite show ?thesis by (simp only: option.distinct)
    qed
  qed
  show "\<exists>q'. fm_apply E q en = Some q' \<and> mirror E p' q'" if "fm_entry E p x = Some en" "mirror E p q"
    using fm_exec_apply [OF a that(1)] that(2) by blast
  show "\<exists>q'. fm_apply E q en = Some q' \<and> mirror E p' q'" if "fm_entry E p x = Some en" "mirror E p' q"
    using fm_exec_apply [OF a that(1)] that(2) by blast
qed

end
