(* ===== verification/MemEnv.thy ===== *)
theory MemEnv
  imports FileMgrRepl DataUtils
begin

text \<open>
  An environment for evaluation: the in-memory broker and database together with a simple
  self-delimiting encoding of journal entries. It satisfies every promise the master's theorems
  ask of the environment.
\<close>

subsection \<open>A self-delimiting encoding\<close>

type_synonym 'a parser = "byte list \<Rightarrow> ('a \<times> byte list) option"

definition codes :: "('a \<Rightarrow> byte list) \<Rightarrow> 'a parser \<Rightarrow> bool" where
  "codes enc dec \<longleftrightarrow> (\<forall>x rest. dec (enc x @ rest) = Some (x, rest))"

lemma codesD: "codes enc dec \<Longrightarrow> dec (enc x @ rest) = Some (x, rest)"
  by (simp add: codes_def)

fun enc_str :: "string \<Rightarrow> byte list" where
  "enc_str [] = [0]"
| "enc_str (c # cs) = 1 # word_of_nat (of_char c) # enc_str cs"

fun dec_str :: "string parser" where
  "dec_str (b # bs) =
     (if b = 0 then Some ([], bs)
      else case bs of [] \<Rightarrow> None
      | c # bs' \<Rightarrow> (case dec_str bs' of None \<Rightarrow> None | Some (s, rest) \<Rightarrow> Some (char_of (unat c) # s, rest)))"
| "dec_str [] = None"

definition dec_u64 :: "u64 parser" where
  "dec_u64 bs = map_option (\<lambda>x. (x, drop 8 bs)) (BytesToUint64 (take 8 bs))"

definition enc_bool :: "bool \<Rightarrow> byte list" where
  "enc_bool b = [if b then 1 else 0]"

definition dec_bool :: "bool parser" where
  "dec_bool bs = (case bs of [] \<Rightarrow> None | b # rest \<Rightarrow> Some (b = 1, rest))"

definition enc_opt :: "('a \<Rightarrow> byte list) \<Rightarrow> 'a option \<Rightarrow> byte list" where
  "enc_opt enc x = (case x of None \<Rightarrow> [0] | Some a \<Rightarrow> 1 # enc a)"

definition dec_opt :: "'a parser \<Rightarrow> 'a option parser" where
  "dec_opt dec bs =
     (case bs of [] \<Rightarrow> None
      | b # rest \<Rightarrow> if b = 0 then Some (None, rest) else map_option (\<lambda>(a, r). (Some a, r)) (dec rest))"

definition seq :: "'a parser \<Rightarrow> ('a \<Rightarrow> 'b parser) \<Rightarrow> 'b parser" where
  "seq p f bs = (case p bs of None \<Rightarrow> None | Some (a, rest) \<Rightarrow> f a rest)"

lemma char_byte: "char_of (unat (word_of_nat (of_char c) :: byte)) = c"
proof -
  have "(of_char c :: nat) < 2 ^ 8" using nat_of_char_less_256 [of c] by simp
  then show ?thesis by (simp add: unsigned_of_nat take_bit_nat_eq_self)
qed

lemma codes_str: "codes enc_str dec_str"
proof -
  have "dec_str (enc_str s @ rest) = Some (s, rest)" for s rest
    by (induction s) (auto simp: char_byte)
  then show ?thesis by (simp add: codes_def)
qed

lemma codes_u64: "codes Uint64ToBytes dec_u64"
  by (simp add: codes_def dec_u64_def codec_simps)

lemma codes_bool: "codes enc_bool dec_bool"
  by (simp add: codes_def enc_bool_def dec_bool_def)

lemma codes_opt: "codes enc dec \<Longrightarrow> codes (enc_opt enc) (dec_opt dec)"
  by (auto simp: codes_def enc_opt_def dec_opt_def split: option.splits)

definition enc_state :: "State \<Rightarrow> byte list" where
  "enc_state s = enc_bool (s = PRESENT)"

definition dec_state :: "State parser" where
  "dec_state = seq dec_bool (\<lambda>b rest. Some (if b then PRESENT else ABSENT, rest))"

lemma codes_state: "codes enc_state dec_state"
proof -
  have "(if s = PRESENT then PRESENT else ABSENT) = s" for s by (cases s) auto
  then show ?thesis
    by (simp add: codes_def enc_state_def dec_state_def seq_def codesD [OF codes_bool])
qed

lemmas base_codes = codesD [OF codes_str] codesD [OF codes_u64] codesD [OF codes_bool] codesD [OF codes_state]

definition enc_cell :: "CellEntry \<Rightarrow> byte list" where
  "enc_cell e = enc_state (ce_TargetState e) @ Uint64ToBytes (ce_CellId e) @ Uint64ToBytes (ce_Offset e) @
     Uint64ToBytes (ce_Size e) @ Uint64ToBytes (ce_ChunkId e) @ enc_str (ce_SheetName e)"

definition dec_cell :: "CellEntry parser" where
  "dec_cell = seq dec_state (\<lambda>s. seq dec_u64 (\<lambda>i. seq dec_u64 (\<lambda>off. seq dec_u64 (\<lambda>sz. seq dec_u64 (\<lambda>k.
     seq dec_str (\<lambda>n rest. Some (\<lparr>ce_TargetState = s, ce_CellId = i, ce_Offset = off, ce_Size = sz,
       ce_ChunkId = k, ce_SheetName = n\<rparr>, rest)))))))"

definition enc_chunk :: "ChunkEntry \<Rightarrow> byte list" where
  "enc_chunk e = enc_state (che_TargetState e) @ Uint64ToBytes (che_Id e) @ Uint64ToBytes (che_Version e) @
     enc_str (che_Datanode e)"

definition dec_chunk :: "ChunkEntry parser" where
  "dec_chunk = seq dec_state (\<lambda>s. seq dec_u64 (\<lambda>i. seq dec_u64 (\<lambda>v. seq dec_str (\<lambda>n rest.
     Some (\<lparr>che_TargetState = s, che_Id = i, che_Version = v, che_Datanode = n\<rparr>, rest)))))"

definition enc_map :: "FileMapEntry \<Rightarrow> byte list" where
  "enc_map e = enc_state (fe_TargetState e) @ enc_str (fe_Filename e) @ enc_str (fe_CellsTableName e) @
     enc_bool (fe_Recycled e) @ Uint64ToBytes (fe_RecycledTimestamp e)"

definition dec_map :: "FileMapEntry parser" where
  "dec_map = seq dec_state (\<lambda>s. seq dec_str (\<lambda>n. seq dec_str (\<lambda>t. seq dec_bool (\<lambda>b. seq dec_u64 (\<lambda>ts rest.
     Some (\<lparr>fe_TargetState = s, fe_Filename = n, fe_CellsTableName = t, fe_Recycled = b,
       fe_RecycledTimestamp = ts\<rparr>, rest))))))"

lemma codes_entries: "codes enc_cell dec_cell" "codes enc_chunk dec_chunk" "codes enc_map dec_map"
  by (simp_all add: codes_def seq_def enc_cell_def dec_cell_def enc_chunk_def dec_chunk_def enc_map_def dec_map_def
      base_codes)

definition mem_marshal :: "MasterEntry \<Rightarrow> byte list" where
  "mem_marshal e = enc_opt enc_cell (XCell e) @ enc_opt enc_chunk (XChunk e) @ enc_opt enc_map (XFileMap e)"

definition mem_unmarshal :: "byte list \<Rightarrow> MasterEntry option" where
  "mem_unmarshal bs = map_option fst
     (seq (dec_opt dec_cell) (\<lambda>c. seq (dec_opt dec_chunk) (\<lambda>h. seq (dec_opt dec_map) (\<lambda>m rest.
        Some (\<lparr>XCell = c, XChunk = h, XFileMap = m\<rparr>, rest)))) bs)"

lemma mem_unmarshal_marshal: "mem_unmarshal (mem_marshal e) = Some e"
proof -
  have "dec_opt dec_map (enc_opt enc_map (XFileMap e)) = Some (XFileMap e, [])"
    using codesD [OF codes_opt [OF codes_entries(3)], of "XFileMap e" "[]"] by simp
  then show ?thesis
    by (simp add: mem_unmarshal_def mem_marshal_def seq_def codesD [OF codes_opt [OF codes_entries(1)]]
        codesD [OF codes_opt [OF codes_entries(2)]])
qed

subsection \<open>The environment\<close>

text \<open>A broker that loses nothing.\<close>

definition sure_kafka :: "(string \<times> byte list) list kafka" where
  "sure_kafka = \<lparr>k_write = (\<lambda>l key v. (l @ [(key, v)], Inr (int (length l))))\<rparr>"

definition mem_env :: "(mem_db, (string \<times> byte list) list) env" where
  "mem_env = \<lparr>e_gorm = mem_gorm, e_kafka = sure_kafka, e_marshal = (\<lambda>e. Some (mem_marshal e)),
     e_unmarshal = mem_unmarshal, e_ckpt = (\<lambda>_. [])\<rparr>"

definition mem_ids :: "mem_db \<Rightarrow> u64 set" where
  "mem_ids db = word_of_nat ` {1 .. length (md_chunks db)}"

lemma mem_ids_small:
  assumes "card (mem_ids db) < 2 ^ 62"
  shows "length (md_chunks db) < 2 ^ 62"
proof (rule ccontr)
  assume "\<not> ?thesis"
  then have sub: "word_of_nat ` {1 .. 2 ^ 62} \<subseteq> mem_ids db"
    unfolding mem_ids_def by (intro image_mono) simp
  have "inj_on (word_of_nat :: nat \<Rightarrow> u64) {1 .. 2 ^ 62}"
  proof (rule inj_onI)
    fix a b :: nat assume "a \<in> {1 .. 2 ^ 62}" "b \<in> {1 .. 2 ^ 62}" "(word_of_nat a :: u64) = word_of_nat b"
    then have "unat (word_of_nat a :: u64) = unat (word_of_nat b :: u64)" "a < 2 ^ 64" "b < 2 ^ 64" by auto
    then show "a = b" by (simp only: unat_of_nat64)
  qed
  then have "card ((word_of_nat :: nat \<Rightarrow> u64) ` {1 .. 2 ^ 62}) = 2 ^ 62" by (simp add: card_image)
  moreover have "finite (mem_ids db)" by (simp add: mem_ids_def)
  ultimately have "2 ^ 62 \<le> card (mem_ids db)" using card_mono [OF _ sub] by simp
  with assms show False by simp
qed

lemma mem_gorm_ok: "gorm_ok mem_gorm mem_ids"
proof -
  have fresh: "snd (g_put_chunk mem_gorm db c) \<notin> mem_ids db"
    if "ch_ID c = 0" "card (mem_ids db) < 2 ^ 62" for db c
  proof
    let ?n = "length (md_chunks db)"
    assume "snd (g_put_chunk mem_gorm db c) \<in> mem_ids db"
    moreover have "snd (g_put_chunk mem_gorm db c) = word_of_nat (?n + 1)"
      using that(1) by (simp add: put_row_def Let_def)
    ultimately obtain k where k: "k \<in> {1 .. ?n}" "(word_of_nat (?n + 1) :: u64) = word_of_nat k"
      unfolding mem_ids_def by auto
    have "?n < 2 ^ 62" using mem_ids_small [OF that(2)] .
    with k(1) have "?n + 1 < 2 ^ 64" "k < 2 ^ 64" by auto
    with k(2) have "?n + 1 = k" by (metis unat_of_nat64)
    with k(1) show False by simp
  qed
  have ins: "mem_ids (fst (g_put_chunk mem_gorm db c)) = insert (snd (g_put_chunk mem_gorm db c)) (mem_ids db)" for db c
  proof (cases "ch_ID c = 0 \<or> length (md_chunks db) < unat (ch_ID c)")
    case True
    then show ?thesis by (simp add: put_row_def Let_def mem_ids_def atLeastAtMostSuc_conv)
  next
    case False
    then have "unat (ch_ID c) \<in> {1 .. length (md_chunks db)}" by (auto simp: unat_gt_0 Suc_le_eq)
    then have "ch_ID c \<in> mem_ids db" unfolding mem_ids_def by (intro image_eqI [of _ _ "unat (ch_ID c)"]) simp_all
    with False show ?thesis by (simp add: put_row_def mem_ids_def insert_absorb)
  qed
  show ?thesis
    unfolding gorm_ok_def using fresh ins by (auto simp: mem_ids_def mem_table_def)
qed

lemma mem_env_ok: "env_ok mem_env (\<lambda>l. l) mem_ids"
  using mem_gorm_ok
  by (simp add: env_ok_def mem_env_def sure_kafka_def kafka_log_ok_def mem_unmarshal_marshal)

end
