(* ===== verification/FileMgrProps.thy ===== *)
theory FileMgrProps
  imports MemEnv
begin

text \<open>
  What the master's file manager guarantees: descriptors, the life cycle of a sheet, privacy of
  chunks, checkpoint offsets, and that a secondary fed with the journal mirrors the primary.
\<close>

subsection \<open>A state to evaluate the properties at\<close>

definition wit_fm :: "(mem_db, (string \<times> byte list) list) FileManager" where
  "wit_fm = LoadFileManager mem_env mem_db0 (NewDataNodeAllocatorWithGroups [''g0'', ''g1''])
     (Some \<lparr>lastWriteOffset = 0, entriesKey = ''m-entries'', checkpointsKey = ''m-ckpts''\<rparr>) []"

lemma wit_fm_sel:
  "Entries wit_fm = Map.empty" "Opened wit_fm = Map.empty" "Fds wit_fm = Map.empty" "nextFd wit_fm = 0"
  "fm_db wit_fm = mem_db0" "fm_broker wit_fm = []" "e_gorm mem_env = mem_gorm"
  "journalWriter wit_fm = Some \<lparr>lastWriteOffset = 0, entriesKey = ''m-entries'', checkpointsKey = ''m-ckpts''\<rparr>"
  "fm_alloc wit_fm = NewDataNodeAllocatorWithGroups [''g0'', ''g1'']"
  by (simp_all add: wit_fm_def LoadFileManager_def mem_env_def mem_db0_def)

lemma wit_fm_inv: "fm_inv mem_env (\<lambda>l. l) mem_ids wit_fm"
  using mem_env_ok by (auto simp: fm_inv_def fm_ok_def wit_fm_sel)

lemma wit_fm_room: "fm_room mem_ids wit_fm"
  by (simp add: fm_room_def wit_fm_sel mem_ids_def mem_db0_def)

lemma wit_create_fm: "\<exists>f'. fm_exec mem_env wit_fm (FmCreate ''s'') = (f', True) \<and> fm_room mem_ids f'"
proof -
  have "\<exists>db al f m ch. CreateSheetFile mem_gorm mem_db0 (NewDataNodeAllocatorWithGroups [''g0'', ''g1'']) ''s'' =
      Some (db, al, Inr (f, m, ch)) \<and> length (md_chunks db) = 1"
    using wit_create by (auto simp: wit_alloc_def)
  then obtain db al f m ch where c: "CreateSheetFile (e_gorm mem_env) (fm_db wit_fm) (fm_alloc wit_fm) ''s'' =
      Some (db, al, Inr (f, m, ch))" "length (md_chunks db) = 1" by (auto simp: wit_fm_sel)
  let ?f1 = "wit_fm\<lparr>fm_db := db, fm_alloc := al\<rparr>"
  have "journalWriter ?f1 = Some (the (journalWriter wit_fm))" by (simp add: wit_fm_sel)
  from writeJournal_ok [OF mem_env_ok this] obtain w' k' where
    "writeJournal mem_env ?f1 (cell_entry m ch (Some (FromMgrEntry (new_entry ''s'')))) =
      (?f1\<lparr>journalWriter := Some w', fm_broker := k'\<rparr>, None)" by blast
  with c show ?thesis
    by (simp add: CreateSheet_def fm_room_def mem_ids_def wit_fm_sel(4) domIff wit_fm_sel(1) cell_entry_def new_entry_def allocFd_def Let_def)
qed

subsection \<open>Descriptors and the life cycle of a sheet\<close>

text \<open>
  C26: creating or opening a sheet returns a descriptor that was not in use, that refers to the
  sheet's file, and leaves every other descriptor alone.
\<close>

theorem descriptors_are_fresh:
  assumes "fm_inv E plog ids f" "fm_room ids f"
    and "CreateSheet E f n = Some (f', Inr fd) \<or> OpenSheet E f n = (f', Inr fd)"
  shows "Fds f fd = None \<and> Fds f' = (Fds f)(fd \<mapsto> n) \<and> (\<exists>s. getFileByFd f' fd = Inr (Some s) \<and> sf_filename s = n)"
proof -
  have E: "env_ok E plog ids" "fm_ok ids f" using assms(1) by (simp_all add: fm_inv_def)
  have new: "Fds f (nextFd f) = None" using fm_okD(10) [OF E(2), of "nextFd f"] by (cases "Fds f (nextFd f)") auto
  from assms(3) show ?thesis
  proof
    assume c: "CreateSheet E f n = Some (f', Inr fd)"
    then have "fm_exec E f (FmCreate n) = (f', True)" by simp
    with E assms(2) show ?thesis
    proof (cases rule: create_step)
      case (1 s m ch)
      have "sf_filename s = n" using fm_okD(6) [OF 1(11), of n s] 1(9) by simp
      with 1 c new show ?thesis by (simp add: getFileByFd_def)
    qed
  next
    assume c: "OpenSheet E f n = (f', Inr fd)"
    then have x: "fm_exec E f (FmOpen n) = (f', True)" by simp
    note o = open_step [OF E(2) assms(2) x]
    from o(6) fm_okD(2) [OF E(2)] obtain s where "Opened f n = Some s" by blast
    with o c new fm_okD(6) [OF E(2), of n s] show ?thesis by (simp add: getFileByFd_def)
  qed
qed

theorem descriptors_are_fresh_witness:
  "\<exists>f' s. CreateSheet mem_env wit_fm ''s'' = Some (f', Inr 0) \<and> getFileByFd f' 0 = Inr (Some s) \<and> sf_filename s = ''s''"
proof -
  obtain f' where x: "fm_exec mem_env wit_fm (FmCreate ''s'') = (f', True)" using wit_create_fm by blast
  from wit_fm_inv have E: "env_ok mem_env (\<lambda>l. l) mem_ids" "fm_ok mem_ids wit_fm" by (simp_all add: fm_inv_def)
  from E wit_fm_room x have c: "CreateSheet mem_env wit_fm ''s'' = Some (f', Inr 0)"
    by (cases rule: create_step) (simp add: wit_fm_sel)
  from descriptors_are_fresh [OF wit_fm_inv wit_fm_room disjI1 [OF c]] c show ?thesis by blast
qed

text \<open>
  C28: the recycle bin. Recycling an existing sheet makes opening it fail with \<open>FileNotFoundError\<close>
  and creating it again fail with \<open>FileExistsError\<close>, while descriptors that are already open keep
  working; resuming it makes it open again.
\<close>

theorem recycle_then_resume:
  assumes "fm_inv E plog ids f" "Entries f n = Some e"
    and "RecycleSheet E now f n = (f1, err)" "ResumeSheet E f1 n = (f2, err')"
  shows "OpenSheet E f1 n = (f1, Inl (FileNotFoundError n)) \<and>
    CreateSheet E f1 n = Some (f1, Inl (FileExistsError n)) \<and>
    (\<forall>fd. getFileByFd f1 fd = getFileByFd f fd) \<and>
    (\<exists>f3 fd. OpenSheet E f2 n = (f3, Inr fd))"
proof -
  have E: "env_ok E plog ids" "fm_ok ids f" using assms(1) by (simp_all add: fm_inv_def)
  obtain w where w: "journalWriter f = Some w" using fm_okD(3) [OF E(2)] by blast
  from writeJournal_ok [OF E(1) w, of "map_entry (e\<lparr>Recycled := True, RecycledAt := now\<rparr>)"] assms(2,3)
  have "err = None" by (auto simp: RecycleSheet_def Let_def map_entry_def)
  with assms(3) have x: "fm_exec E f (FmRecycle now n) = (f1, True)" by simp
  note r = recycle_step [OF E x assms(2)]
  obtain w1 where w1: "journalWriter f1 = Some w1" using fm_okD(3) [OF r(1)] by blast
  have e1: "Entries f1 n = Some (e\<lparr>Recycled := True, RecycledAt := now\<rparr>)" using r(2) by simp
  from writeJournal_ok [OF E(1) w1, of "map_entry (e\<lparr>Recycled := True, RecycledAt := now, Recycled := False\<rparr>)"] assms(4) e1
  have "err' = None" by (auto simp: ResumeSheet_def Let_def map_entry_def)
  with assms(4) have y: "fm_exec E f1 (FmResume n) = (f2, True)" by simp
  note s = resume_step [OF E(1) r(1) y e1]
  show ?thesis
    using e1 r(3,4) s(2)
    by (auto simp: OpenSheet_def openFile_def CreateSheet_def getFileByFd_def domIff allocFd_def Let_def
        split: option.splits)
qed

theorem recycle_then_resume_witness:
  "\<exists>f f1 f2 err err'. RecycleSheet mem_env 5 f ''s'' = (f1, err) \<and> ResumeSheet mem_env f1 ''s'' = (f2, err') \<and>
     OpenSheet mem_env f1 ''s'' = (f1, Inl (FileNotFoundError ''s''))"
proof -
  obtain f where x: "fm_exec mem_env wit_fm (FmCreate ''s'') = (f, True)" using wit_create_fm by blast
  from wit_fm_inv have E: "env_ok mem_env (\<lambda>l. l) mem_ids" "fm_ok mem_ids wit_fm" by (simp_all add: fm_inv_def)
  obtain f1 err f2 err' where r: "RecycleSheet mem_env 5 f ''s'' = (f1, err)" "ResumeSheet mem_env f1 ''s'' = (f2, err')"
    by fastforce
  from E wit_fm_room x show ?thesis
  proof (cases rule: create_step)
    case (1 s m ch)
    have inv: "fm_inv mem_env (\<lambda>l. l) mem_ids f" using 1(11) E by (simp add: fm_inv_def)
    have e: "Entries f ''s'' = Some (new_entry ''s'')" using 1(10) by simp
    from recycle_then_resume [OF inv e r] r show ?thesis by blast
  qed
qed

subsection \<open>Chunks are private to a sheet\<close>



subsection \<open>Reading back a granted write\<close>

text \<open>
  C24: after a cell write through one descriptor, a cell read of the same position through any
  descriptor of the same file returns the granted cell and chunk version, and reads of other
  positions return the same cell as before.
\<close>

theorem read_after_write_cell:
  assumes "fm_inv E plog ids f" "fm_room ids f"
    and "WriteFileCell E f fd row col = Some (f', Inr (cell, ch))" "Fds f fd' = Fds f fd"
  shows "ReadFileCell f' fd' row col = Some (Inr (cell, ch)) \<and>
    (\<forall>r c. (r, c) \<noteq> (row, col) \<longrightarrow>
       map_option (map_sum id fst) (ReadFileCell f' fd' r c) = map_option (map_sum id fst) (ReadFileCell f fd' r c))"
proof -
  have E: "env_ok E plog ids" "fm_ok ids f" using assms(1) by (simp_all add: fm_inv_def)
  have "fm_exec E f (FmWrite fd row col) = (f', True)" using assms(3) by simp
  with E assms(2) show ?thesis
  proof (cases rule: write_step)
    case (1 n s s' cell' ch')
    have cc: "cell' = cell" "ch' = ch" using 1(9) assms(3) by auto
    have fds: "Fds f' = Fds f" using assms(3) 1(1,2)
      by (auto simp: WriteFileCell_def Let_def writeJournal_def split: option.splits prod.splits sum.splits)
    note so = fm_okD(4) [OF E(2) 1(2)]
    have g: "Cells s' = (Cells s)(GetCellID row col \<mapsto> cell)" "Chunks s' = (Chunks s)(c_ChunkID cell \<mapsto> ch)"
      using 1(3) by (simp_all add: granted_def cc)
    have o: "getFileByFd f' fd' = Inr (Some s')" "getFileByFd f fd' = Inr (Some s)"
      using 1(1,2,6) assms(4) fds by (simp_all add: getFileByFd_def)
    have "ReadFileCell f' fd' row col = Some (Inr (cell, ch))"
      by (simp add: ReadFileCell_def o GetCellChunk_def g)
    moreover have "map_option (map_sum id fst) (GetCellChunk s' r c) = map_option (map_sum id fst) (GetCellChunk s r c)"
      if "(r, c) \<noteq> (row, col)" for r c
    proof (cases "Cells s (GetCellID r c)")
      case None
      with that g(1) show ?thesis by (auto simp: GetCellChunk_def)
    next
      case (Some d)
      then obtain h where "Chunks s (c_ChunkID d) = Some h"
        using sheet_okD(2) [OF so] by (auto simp: cell_ok_def)
      with Some that g show ?thesis by (auto simp: GetCellChunk_def)
    qed
    ultimately show ?thesis by (simp add: ReadFileCell_def o)
  qed
qed

lemma write_succeeds:
  assumes E: "env_ok E plog ids" and ok: "fm_ok ids f" and room: "fm_room ids f"
    and o: "Fds f fd = Some n" "Opened f n = Some s" "dataNodes (fm_alloc f) \<noteq> [] \<or> Cells s (GetCellID row col) \<noteq> None"
  shows "\<exists>f' r. WriteFileCell E f fd row col = Some (f', Inr r)"
proof -
  have so: "sheet_ok s" "alloc_ok (fm_alloc f)" "dom (Chunks s) \<subseteq> ids (fm_db f)" using fm_okD [OF ok] o(2) by auto
  have fr: "fresh_chunk_ids (e_gorm E) (fm_db f) s"
    using fresh_of_ids [of _ ids "fm_db f", OF _ _ so(3)] E room by (simp add: env_ok_def fm_room_def)
  from so(1,2) fr show ?thesis
  proof (cases rule: WriteCellChunk_cases [where row = row and col = col])
    case (granted db' al' s' cell ch)
    with o show ?thesis by (simp add: WriteFileCell_def Let_def)
  next
    case no_node
    with o(3) obtain c where "Cells s (GetCellID row col) = Some c" by auto
    from WriteCellChunk_existing [OF so(1) this, of "e_gorm E" "fm_db f" "fm_alloc f"] no_node(1)
    show ?thesis by auto
  qed
qed

theorem read_after_write_cell_witness:
  "\<exists>f f' cell ch. WriteFileCell mem_env f 0 SheetMetaCellRow SheetMetaCellCol = Some (f', Inr (cell, ch)) \<and>
     ReadFileCell f' 0 SheetMetaCellRow SheetMetaCellCol = Some (Inr (cell, ch))"
proof -
  obtain f where x: "fm_exec mem_env wit_fm (FmCreate ''s'') = (f, True)" "fm_room mem_ids f"
    using wit_create_fm by blast
  from wit_fm_inv have E: "env_ok mem_env (\<lambda>l. l) mem_ids" "fm_ok mem_ids wit_fm" by (simp_all add: fm_inv_def)
  from E wit_fm_room x(1) show ?thesis
  proof (cases rule: create_step)
    case (1 s m ch)
    have inv: "fm_inv mem_env (\<lambda>l. l) mem_ids f" using 1(11) E by (simp add: fm_inv_def)
    have o: "Fds f 0 = Some ''s''" "Opened f ''s'' = Some s"
      "dataNodes (fm_alloc f) \<noteq> [] \<or> Cells s (GetCellID SheetMetaCellRow SheetMetaCellCol) \<noteq> None"
      using 1(4,9,13) by (simp_all add: wit_fm_sel GetCellID_meta_iff)
    from write_succeeds [OF E(1) 1(11) x(2) o] obtain f' cell ch where
      w: "WriteFileCell mem_env f 0 SheetMetaCellRow SheetMetaCellCol = Some (f', Inr (cell, ch))" by auto
    from read_after_write_cell [OF inv x(2) w refl] w show ?thesis by blast
  qed
qed

subsection \<open>The journal and the secondary\<close>

text \<open>Every executed operation appends the bytes of its entry, if it has one.\<close>

lemma fm_run_log:
  assumes "fm_inv E plog ids p" "all_admissible (fm_exec E) (\<lambda>p _. fm_room ids p) p xs"
    and "exec_all (fm_exec E) p xs = Some p'" "journalWriter p = Some w"
  shows "\<exists>bs. plog (fm_broker p') = plog (fm_broker p) @ map (Pair (entriesKey w)) bs \<and>
     map (e_unmarshal E) bs = map Some (log_of (fm_exec E) (fm_entry E) p xs)"
  using assms
proof (induction xs arbitrary: p w)
  case (Cons x xs)
  then obtain p1 where x: "fm_exec E p x = (p1, True)" "exec_all (fm_exec E) p1 xs = Some p'"
    by (auto split: prod.splits if_splits)
  have r: "fm_room ids p" "all_admissible (fm_exec E) (\<lambda>p _. fm_room ids p) p1 xs" using Cons.prems(2) x(1) by auto
  note i = fmj.exec_inv [OF Cons.prems(1) r(1) x(1)]
  note l = fm_exec_logged [OF Cons.prems(1) r(1) x(1) Cons.prems(4)]
  show ?case
  proof (cases "fm_entry E p x")
    case None
    with Cons.IH [OF i r(2) x(2)] l x(1) show ?thesis by simp
  next
    case (Some e)
    with l obtain w1 b where w1: "journalWriter p1 = Some w1" "entriesKey w1 = entriesKey w" "e_unmarshal E b = Some e"
      "plog (fm_broker p1) = plog (fm_broker p) @ [(entriesKey w, b)]" by (auto simp: logged_def)
    from Cons.IH [OF i r(2) x(2) w1(1)] w1(2) obtain bs where
      "plog (fm_broker p') = plog (fm_broker p1) @ map (Pair (entriesKey w)) bs"
      "map (e_unmarshal E) bs = map Some (log_of (fm_exec E) (fm_entry E) p1 xs)" by auto
    with Some w1 x(1) show ?thesis by (intro exI [of _ "b # bs"]) simp
  qed
qed simp

text \<open>
  C22: a master secondary mirrors the primary. After any history of successful operations, the
  bytes appended to the journal decode to entries which \<open>HandleMasterEntry\<close> applies without error,
  and the resulting file manager has the same directory (up to the stored time stamps), the same
  cells and the same chunks of every sheet as the primary.
\<close>

theorem master_secondary_mirrors:
  assumes "fm_inv E plog ids p" "all_admissible (fm_exec E) (\<lambda>p _. fm_room ids p) p xs"
    and "exec_all (fm_exec E) p xs = Some p'" "journalWriter p = Some w" "mirror E p q"
  shows "\<exists>bs es q'. plog (fm_broker p') = plog (fm_broker p) @ map (Pair (entriesKey w)) bs \<and>
     map (e_unmarshal E) bs = map Some es \<and> apply_all (fm_apply E) q es = Some q' \<and> mirror E p' q'"
  using fm_run_log [OF assms(1-4)]
    fmj.secondary_catches_up [OF assms(1,5,2,3) stutters_refl] by blast

theorem master_secondary_mirrors_witness:
  "\<exists>p' bs es q'. exec_all (fm_exec mem_env) wit_fm [FmCreate ''s''] = Some p' \<and>
     fm_broker p' = map (Pair ''m-entries'') bs \<and> map mem_unmarshal bs = map Some es \<and>
     apply_all (fm_apply mem_env) wit_fm es = Some q' \<and> mirror mem_env p' q'"
proof -
  obtain p' where x: "fm_exec mem_env wit_fm (FmCreate ''s'') = (p', True)" using wit_create_fm by blast
  then have y: "exec_all (fm_exec mem_env) wit_fm [FmCreate ''s''] = Some p'" by (simp del: fm_exec.simps)
  have a: "all_admissible (fm_exec mem_env) (\<lambda>p _. fm_room mem_ids p) wit_fm [FmCreate ''s'']"
    using wit_fm_room by simp
  have m: "mirror mem_env wit_fm wit_fm" by (simp add: mirror_def wit_fm_sel mem_db0_def mem_table_def)
  from master_secondary_mirrors [OF wit_fm_inv a y wit_fm_sel(8) m] y show ?thesis
    by (simp add: wit_fm_sel mem_env_def del: exec_all.simps)
qed

text \<open>
  The time stamp of a directory entry survives the journal exactly when it fits an \<open>int64\<close> of
  nanoseconds; the zero time of a file that was never recycled does not.
\<close>

lemma recycle_time_roundtrip:
  "(RecycledAt (ToMgrEntry m (FromMgrEntry e)) = RecycledAt e \<longleftrightarrow> RecycledAt e \<in> {- (2 ^ 63) ..< 2 ^ 63}) \<and>
   RecycledAt (ToMgrEntry zero_entry (FromMgrEntry (new_entry n))) \<noteq> RecycledAt (new_entry n)"
proof -
  have i: "time_Unix (UnixNano t) = t \<longleftrightarrow> t \<in> {- (2 ^ 63) ..< 2 ^ 63}" for t
  proof
    assume "time_Unix (UnixNano t) = t"
    moreover have "- (2 ^ 63) \<le> sint (UnixNano t) \<and> sint (UnixNano t) < 2 ^ 63"
      using sint_ge [of "UnixNano t"] sint_lt [of "UnixNano t"] by simp
    ultimately show "t \<in> {- (2 ^ 63) ..< 2 ^ 63}" by (simp add: time_Unix_def)
  qed (simp add: time_roundtrip)
  have "RecycledAt (ToMgrEntry m (FromMgrEntry e)) = RecycledAt e \<longleftrightarrow> RecycledAt e \<in> {- (2 ^ 63) ..< 2 ^ 63}" for m e
    using i [of "RecycledAt e"] by (simp add: ToMgrEntry_From)
  from this [of m e] this [of zero_entry "new_entry n"] show ?thesis by (simp add: new_entry_def zero_time_def)
qed

subsection \<open>Checkpoint offsets\<close>

text \<open>
  C30: once a writer has committed an entry, the offset its \<open>Checkpoint\<close> returns for a secondary to
  resume from is exactly the offset of the next message of the journal.
\<close>

theorem checkpoint_offset_exact:
  assumes "kafka_log_ok K plog" "CommitEntry K w k entry = (w1, k1, None)"
    and "lastWriteOffset w \<le> int (length (plog k))" "Writer_Checkpoint K marshal w1 k1 = (w2, k2, off, None)"
  shows "off = int (length (plog k2)) \<and> offset_exact w2 (plog k2)"
proof -
  have e1: "offset_exact w1 (plog k1)"
    using WriteMessages_ok_offset [OF assms(1,2) [unfolded CommitEntry_def]] assms(3) by simp
  obtain b where w: "WriteMessages K w1 k1 (checkpointsKey w1) b = (w2, k2, None)" "off = lastWriteOffset w1 + 2"
    using assms(4) by (auto simp: Writer_Checkpoint_def Let_def split: prod.splits)
  from WriteMessages_log [OF assms(1) w(1)] WriteMessages_ok_offset [OF assms(1) w(1)] e1 w(2)
  show ?thesis by (simp add: offset_exact_def)
qed

theorem checkpoint_offset_exact_witness:
  "\<exists>w w1 k1 w2 k2 off. NewWriter ''t'' None = Inr w \<and> CommitEntry sure_kafka w [] [1] = (w1, k1, None) \<and>
     Writer_Checkpoint sure_kafka (\<lambda>_. []) w1 k1 = (w2, k2, off, None) \<and> off = int (length k2)"
proof -
  let ?w = "\<lparr>lastWriteOffset = 0, entriesKey = ''t-entries'', checkpointsKey = ''t-ckpts''\<rparr>"
  have k: "kafka_log_ok sure_kafka (\<lambda>l. l)" by (simp add: kafka_log_ok_def sure_kafka_def)
  have c: "CommitEntry sure_kafka ?w [] [1] = (?w, [(''t-entries'', [1])], None)"
    by (simp add: CommitEntry_def WriteMessages_def sure_kafka_def Completion_def)
  have d: "Writer_Checkpoint sure_kafka (\<lambda>_. []) ?w [(''t-entries'', [1])] =
     (?w\<lparr>lastWriteOffset := 1\<rparr>, [(''t-entries'', [1]), (''t-ckpts'', [])], 2, None)"
    by (simp add: Writer_Checkpoint_def WriteMessages_def sure_kafka_def Completion_def)
  have n: "NewWriter ''t'' None = Inr ?w" by (simp add: NewWriter_def)
  have "2 = int (length [(''t-entries'', [1]), (''t-ckpts'', [] :: byte list)])"
    by (rule checkpoint_offset_exact [OF k c _ d, THEN conjunct1]) simp
  with n c d show ?thesis by blast
qed

text \<open>
  C37: a writer that has committed nothing believes the last offset to be 0. A checkpoint on an
  empty journal therefore announces offset 2 although the next entry gets offset 1: a secondary that
  resumes from the checkpoint misses that entry.
\<close>

theorem checkpoint_of_new_writer_skips_entry:
  assumes "kafka_log_ok K plog" "NewWriter topic None = Inr w" "plog k = []"
    and "Writer_Checkpoint K marshal w k = (w1, k1, off, None)" "k_write K k1 key v = (k2, Inr o2)"
  shows "off = 2 \<and> o2 = 1"
proof -
  obtain b where w: "WriteMessages K w k (checkpointsKey w) b = (w1, k1, None)" "off = lastWriteOffset w + 2"
    using assms(4) by (auto simp: Writer_Checkpoint_def Let_def split: prod.splits)
  have "case k_write K k1 key v of
        (k', Inr off) \<Rightarrow> plog k' = plog k1 @ [(key, v)] \<and> off = int (length (plog k1))
      | (k', Inl _) \<Rightarrow> plog k' = plog k1 \<or> plog k' = plog k1 @ [(key, v)]"
    using assms(1) by (simp add: kafka_log_ok_def)
  with assms(2,3,5) w WriteMessages_log [OF assms(1) w(1)] show ?thesis by (auto simp: NewWriter_def)
qed

theorem checkpoint_of_new_writer_skips_entry_witness:
  "\<exists>w w1 k1 k2 off o2. NewWriter ''t'' None = Inr w \<and>
     Writer_Checkpoint sure_kafka (\<lambda>_. []) w [] = (w1, k1, off, None) \<and>
     k_write sure_kafka k1 ''t-entries'' [] = (k2, Inr o2) \<and> o2 < off"
proof -
  have k: "kafka_log_ok sure_kafka (\<lambda>l. l)" by (simp add: kafka_log_ok_def sure_kafka_def)
  let ?w = "\<lparr>lastWriteOffset = 0, entriesKey = ''t-entries'', checkpointsKey = ''t-ckpts''\<rparr>"
  have n: "NewWriter ''t'' None = Inr ?w" by (simp add: NewWriter_def)
  obtain w1 k1 off where c: "Writer_Checkpoint sure_kafka (\<lambda>_. []) ?w [] = (w1, k1, off, None)"
    by (simp add: Writer_Checkpoint_def WriteMessages_def sure_kafka_def)
  obtain k2 o2 where d: "k_write sure_kafka k1 ''t-entries'' [] = (k2, Inr o2)" by (simp add: sure_kafka_def)
  from checkpoint_of_new_writer_skips_entry [OF k n refl c d] n c d show ?thesis
    by (intro exI [of _ ?w] exI [of _ w1] exI [of _ k1] exI [of _ k2] exI [of _ off] exI [of _ o2]) auto
qed

end
