(* ===== verification/Failover.thy ===== *)
theory Failover
  imports Nodes DataNodeProps FileMgrProps
begin

text \<open>
  Failover of both node kinds: a secondary that is elected after its primary stopped has applied the
  whole journal, so it serves the state the primary had.
\<close>

subsection \<open>What a reader of the partition promises\<close>

text \<open>
  \<open>view r\<close> are the messages of the partition the reader has not delivered yet. A read delivers the
  first of them, or is cancelled by the notification that the predecessor disappeared, in which case
  nothing is lost; a read with nothing left can only be cancelled. The lag is the number of messages
  left.
\<close>

definition partition_reader :: "'r kreader \<Rightarrow> ('r \<Rightarrow> (string \<times> byte list) list) \<Rightarrow> bool" where
  "partition_reader R view \<longleftrightarrow>
     (\<forall>r. kr_lag R r = Inr (int (length (view r)))) \<and>
     (\<forall>r r' e. kr_read R r = (r', Inl e) \<longrightarrow> e = Canceled \<and> view r' = view r) \<and>
     (\<forall>r r' m. kr_read R r = (r', Inr m) \<longrightarrow> view r = m # view r')"

text \<open>Without a notification a read that has messages left delivers one.\<close>

definition delivers :: "'r kreader \<Rightarrow> ('r \<Rightarrow> (string \<times> byte list) list) \<Rightarrow> bool" where
  "delivers R view \<longleftrightarrow> (\<forall>r. view r \<noteq> [] \<longrightarrow> (\<exists>r' m. kr_read R r = (r', Inr m)))"

lemma mem_kreader_reader:
  "partition_reader mem_kreader (\<lambda>(l, p). drop p l)" "delivers mem_kreader (\<lambda>(l, p). drop p l)"
  by (auto simp: partition_reader_def delivers_def mem_kreader_def split: if_splits)
    (metis Cons_nth_drop_Suc)

text \<open>The node is elected after at most \<open>n\<close> notifications.\<close>

fun elected_within :: "'z zk \<Rightarrow> ('z \<Rightarrow> 'z) \<Rightarrow> Elector \<Rightarrow> nat \<Rightarrow> 'z \<Rightarrow> bool" where
  "elected_within Z tick el n z =
     (case TryBeLeader Z z el of
        (z1, Inl _) \<Rightarrow> False
      | (z1, Inr (win, _)) \<Rightarrow> win \<or> (case n of 0 \<Rightarrow> False | Suc m \<Rightarrow> elected_within Z tick el m (tick z1)))"

declare elected_within.simps [simp del]

subsection \<open>The loops apply exactly the journal\<close>

definition decode :: "(byte list \<Rightarrow> Checkpoint option) \<Rightarrow> Receiver \<Rightarrow> string \<times> byte list \<Rightarrow> (byte list \<times> Checkpoint option) option" where
  "decode um recv m =
     (if fst m = r_checkpointsKey recv then map_option (\<lambda>c. (snd m, Some c)) (um (snd m)) else Some (snd m, None))"

fun handle_all ::
  "('s \<Rightarrow> byte list \<Rightarrow> Checkpoint option \<Rightarrow> ('s, 'e option) outcome option) \<Rightarrow>
   (string \<times> byte list \<Rightarrow> (byte list \<times> Checkpoint option) option) \<Rightarrow> 's \<Rightarrow> (string \<times> byte list) list \<Rightarrow> 's option" where
  "handle_all h dec s [] = Some s"
| "handle_all h dec s (m # ms) =
     (case dec m of
        None \<Rightarrow> None
      | Some (v, c) \<Rightarrow> (case h s v c of Some (Done s' None) \<Rightarrow> handle_all h dec s' ms | _ \<Rightarrow> None))"

lemma handle_all_append:
  "handle_all h dec s (xs @ ys) = Option.bind (handle_all h dec s xs) (\<lambda>s'. handle_all h dec s' ys)"
  by (induction h dec s xs rule: handle_all.induct) (auto split: option.splits outcome.splits)

lemma handle_all_ConsE:
  assumes "handle_all h dec s ms' = Some s'" "m # ms = ms'"
  obtains v c s1 where "dec m = Some (v, c)" "h s v c = Some (Done s1 None)" "handle_all h dec s1 ms = Some s'"
  using assms by (auto split: option.splits outcome.splits)

lemma FetchEntry_decode:
  assumes "kr_read R r = (r', Inr m)" "decode um recv m = Some x"
  shows "FetchEntry R um recv r = (r', Inr x)"
  using assms by (cases m) (auto simp: FetchEntry_def decode_def split: if_splits)

lemma follow_loop:
  assumes "partition_reader R view" "handle_all h (decode um recv) s (view r) = Some s'"
  shows "\<exists>s1 r1. fetch_loop (FetchEntry R um recv) h is_canceled s r = Some (LoopDone s1, r1) \<and>
     handle_all h (decode um recv) s1 (view r1) = Some s'"
  using assms(2)
proof (induction "view r" arbitrary: s r)
  case Nil
  obtain r1 x where r: "kr_read R r = (r1, x)" by fastforce
  with assms(1) Nil(1) obtain e where "x = Inl e" unfolding partition_reader_def by (cases x) force+
  with r assms(1) have "x = Inl Canceled" "view r1 = view r" unfolding partition_reader_def by blast+
  with r Nil.prems show ?case by (subst fetch_loop.simps) (simp add: FetchEntry_def is_canceled_def)
next
  case (Cons m ms)
  obtain r1 x where r: "kr_read R r = (r1, x)" by fastforce
  show ?case
  proof (cases x)
    case (Inl e)
    with r assms(1) have "x = Inl Canceled" "view r1 = view r" unfolding partition_reader_def by blast+
    with r Cons.prems show ?thesis by (subst fetch_loop.simps) (simp add: FetchEntry_def is_canceled_def)
  next
    case (Inr m')
    with r assms(1) have "view r = m' # view r1" unfolding partition_reader_def by blast
    with Cons.hyps(2) have m: "m' = m" "view r1 = ms" by auto
    from handle_all_ConsE [OF Cons.prems Cons.hyps(2)] m(2) obtain v c s1 where
      d: "decode um recv m = Some (v, c)" "h s v c = Some (Done s1 None)" "handle_all h (decode um recv) s1 (view r1) = Some s'"
      by blast
    with Cons.hyps(1) [of r1 s1] FetchEntry_decode [OF r [unfolded Inr m(1)] d(1)] m show ?thesis
      by (subst fetch_loop.simps) simp
  qed
qed

lemma catch_up_loop:
  assumes "partition_reader R view" "delivers R view" "handle_all h (decode um recv) s (view r) = Some s'"
  shows "\<exists>r1. fetch_loop (TryFetchEntry R um recv) h is_no_more s r = Some (LoopDone s', r1) \<and> view r1 = []"
  using assms(3)
proof (induction "view r" arbitrary: s r)
  case Nil
  then have "kr_lag R r = Inr 0" using assms(1) by (simp add: partition_reader_def flip: Nil(1))
  with Nil show ?case by (subst fetch_loop.simps) (simp add: TryFetchEntry_def is_no_more_def flip: Nil(1))
next
  case (Cons m ms)
  then obtain r1 m' where r: "kr_read R r = (r1, Inr m')" using assms(2) unfolding delivers_def by (metis list.distinct(1))
  with assms(1) have "view r = m' # view r1" unfolding partition_reader_def by blast
  with Cons.hyps(2) have m: "m' = m" "view r1 = ms" by auto
  have "kr_lag R r = Inr (int (length (m # ms)))" using assms(1) by (simp add: partition_reader_def flip: Cons.hyps(2))
  then have l: "TryFetchEntry R um recv r = FetchEntry R um recv r" by (simp add: TryFetchEntry_def)
  from handle_all_ConsE [OF Cons.prems Cons.hyps(2)] m(2) obtain v c s1 where
    d: "decode um recv m = Some (v, c)" "h s v c = Some (Done s1 None)" "handle_all h (decode um recv) s1 (view r1) = Some s'"
    by blast
  with Cons.hyps(1) [of r1 s1] FetchEntry_decode [OF r [unfolded m(1)] d(1)] m l show ?case
    by (subst fetch_loop.simps) simp
qed

lemma elect_loop_catches_up:
  assumes R: "partition_reader R view" and "elected_within Z tick el n z"
    and "handle_all h (decode um recv) s (view r) = Some s'"
  shows "\<exists>s1 s2 r1 z1. elect_loop Z tick el (fetch_loop (FetchEntry R um recv) h is_canceled) s r z =
       Some (Some (LoopDone s1), s2, r1, z1) \<and> handle_all h (decode um recv) s1 (view r1) = Some s'"
  using assms(2,3)
proof (induction n arbitrary: s r z)
  case 0
  then obtain z1 w where "TryBeLeader Z z el = (z1, Inr (True, w))"
    by (auto simp: elected_within.simps [of Z tick el 0] split: prod.splits sum.splits)
  with 0 show ?case by (subst elect_loop.simps) simp
next
  case (Suc n)
  then obtain z1 win w where t: "TryBeLeader Z z el = (z1, Inr (win, w))" "win \<or> elected_within Z tick el n (tick z1)"
    by (auto simp: elected_within.simps [of Z tick el "Suc n"] split: prod.splits sum.splits)
  show ?case
  proof (cases win)
    case True
    with t Suc.prems show ?thesis by (subst elect_loop.simps) simp
  next
    case False
    from follow_loop [OF R Suc.prems(2)] obtain s1 r1 where
      f: "fetch_loop (FetchEntry R um recv) h is_canceled s r = Some (LoopDone s1, r1)"
        "handle_all h (decode um recv) s1 (view r1) = Some s'" by blast
    from Suc.IH [OF _ f(2)] t False f(1) show ?thesis by (subst elect_loop.simps) simp
  qed
qed

lemma follow_then_catch_up_ok:
  assumes "partition_reader R view" "delivers R view" "elected_within Z tick el n z"
    and "handle_all h (decode um recv) s (view r) = Some s'"
  shows "\<exists>r1 z1. follow_then_catch_up fatal Z tick R um recv h el s r z = Some (RunOk s', r1, z1) \<and> view r1 = []"
proof -
  from elect_loop_catches_up [OF assms(1,3,4)] obtain s1 s2 r1 z1 where
    "elect_loop Z tick el (fetch_loop (FetchEntry R um recv) h is_canceled) s r z = Some (Some (LoopDone s1), s2, r1, z1)"
    and c: "handle_all h (decode um recv) s1 (view r1) = Some s'" by blast
  with catch_up_loop [OF assms(1,2) c] show ?thesis by (auto simp: follow_then_catch_up_def)
qed

subsection \<open>The handlers of the two nodes\<close>

lemma decode_entry: "key \<noteq> r_checkpointsKey recv \<Longrightarrow> decode um recv (key, v) = Some (v, None)"
  by (simp add: decode_def)

lemma dn_applyD: "dn_apply (dp, d) e = Some x \<Longrightarrow> HandleMsg no_faults dp d e = Some (Done (snd x) True) \<and> x = (dp, snd x)"
  by (auto simp: dn_apply_def split: option.splits outcome.splits bool.splits)

lemma fm_applyD: "fm_apply E q e = Some q' \<Longrightarrow> HandleMasterEntry E q e = Some (q', None)"
  by (auto simp: fm_apply_def split: option.splits)

lemma dn_handle_all:
  assumes "apply_all dn_apply (dp, d) es = Some (dp', d')" "key \<noteq> r_checkpointsKey recv"
  shows "handle_all (dn_handle no_faults dp) (decode um recv) d (map (Pair key) es) = Some d'"
  using assms(1)
proof (induction es arbitrary: d)
  case (Cons e es)
  then obtain d1 where "HandleMsg no_faults dp d e = Some (Done d1 True)" "apply_all dn_apply (dp, d1) es = Some (dp', d')"
    by (auto split: option.splits dest: dn_applyD)
  with Cons.IH show ?case by (simp add: decode_entry [OF assms(2)] dn_handle_def)
qed simp

lemma fm_handle_all:
  assumes "apply_all (fm_apply E) q es = Some q'" "map (e_unmarshal E) bs = map Some es" "key \<noteq> r_checkpointsKey recv"
  shows "handle_all (handleJournal E ord) (decode um recv) q (map (Pair key) bs) = Some q'"
  using assms(1,2)
proof (induction es arbitrary: q bs)
  case (Cons e es)
  then obtain b bs' q1 where b: "bs = b # bs'" "e_unmarshal E b = Some e" "map (e_unmarshal E) bs' = map Some es"
    "HandleMasterEntry E q e = Some (q1, None)" "apply_all (fm_apply E) q1 es = Some q'"
    by (auto split: option.splits dest: fm_applyD)
  with Cons.IH [OF b(5,3)] show ?case by (simp add: decode_entry [OF assms(3)] handleJournal_def)
qed simp

subsection \<open>Failover\<close>


lemma wit_election:
  "CreateProposal (proto_zk ''n_'') election0
      \<lparr>electionZnode = ''/e'', proposePath = ''/e'' @ ''/'' @ ''n_'', electionAck = [], proposal = []\<rparr> =
    Some (\<lparr>znodes = [0], seqno = 1, leaders = {}\<rparr>, (elector_of ''/e'' ''n_'' 0), Inr (node_name ''n_'' 0))"
  "elected_within (proto_zk ''n_'') (\<lambda>z. z) (elector_of ''/e'' ''n_'' 0) 0 \<lparr>znodes = [0], seqno = 1, leaders = {}\<rparr>"
proof -
  show "CreateProposal (proto_zk ''n_'') election0
      \<lparr>electionZnode = ''/e'', proposePath = ''/e'' @ ''/'' @ ''n_'', electionAck = [], proposal = []\<rparr> =
    Some (\<lparr>znodes = [0], seqno = 1, leaders = {}\<rparr>, (elector_of ''/e'' ''n_'' 0), Inr (node_name ''n_'' 0))"
    unfolding CreateProposal_proto by (simp add: election0_def elector_of_def)
  let ?s = "\<lparr>znodes = [0], seqno = 1, leaders = {}\<rparr>"
  obtain win w where t: "TryBeLeader (proto_zk ''n_'') ?s (elector_of ''/e'' ''n_'' 0) = (?s, Inr (win, w))"
    using TryBeLeader_total by blast
  have "election_ok ?s" "0 \<in> set (znodes ?s)" by (simp_all add: election_ok_def)
  from TryBeLeader_proto(2) [OF this t] t
  show "elected_within (proto_zk ''n_'') (\<lambda>z. z) (elector_of ''/e'' ''n_'' 0) 0 ?s"
    by (simp add: elected_within.simps)
qed


text \<open>
  C4: failover of the master. Let a primary execute any history of successful operations, and let a
  secondary mirror the primary's state of the beginning with its recorded checkpoint naming the
  history's first message. Once elected, its \<open>RunAsSecondary\<close> returns with a file manager that mirrors
  the primary's state of the end.
\<close>

theorem master_failover:
  assumes "fm_inv E plog ids p" "all_admissible (fm_exec E) (\<lambda>p _. fm_room ids p) p xs"
    and "exec_all (fm_exec E) p xs = Some p'" "journalWriter p = Some w"
    and "ReadCheckpoint (e_gorm E) (fm_db q) = (db1, int (length (plog (fm_broker p))))" "mirror E p (q\<lparr>fm_db := db1\<rparr>)"
    and "partition_reader R view" "delivers R view"
    and "kr_set_offset R r (int (length (plog (fm_broker p)))) = (r1, None)"
    and "view r1 = drop (length (plog (fm_broker p))) (plog (fm_broker p'))" "entriesKey w \<noteq> r_checkpointsKey recv"
    and "CreateProposal Z z el = Some (z1, el1, Inr pr)" "elected_within Z tick el1 n z1"
  shows "\<exists>q' r' z'. master_RunAsSecondary E ord Z tick R um recv el q r z = Some (RunOk q', r', z') \<and>
      mirror E p' q' \<and> view r' = []"
proof -
  from fm_run_log [OF assms(1-4)] fmj.secondary_catches_up [OF assms(1,6,2,3) stutters_refl] obtain bs q' where
    bs: "plog (fm_broker p') = plog (fm_broker p) @ map (Pair (entriesKey w)) bs"
      "map (e_unmarshal E) bs = map Some (log_of (fm_exec E) (fm_entry E) p xs)"
      "apply_all (fm_apply E) (q\<lparr>fm_db := db1\<rparr>) (log_of (fm_exec E) (fm_entry E) p xs) = Some q'" "mirror E p' q'"
    by blast
  from fm_handle_all [OF bs(3,2) assms(11)] bs(1) assms(10)
  have "handle_all (handleJournal E ord) (decode um recv) (q\<lparr>fm_db := db1\<rparr>) (view r1) = Some q'" by simp
  from follow_then_catch_up_ok [OF assms(7,8,13) this, of False] obtain r' z' where
    "follow_then_catch_up False Z tick R um recv (handleJournal E ord) el1 (q\<lparr>fm_db := db1\<rparr>) r1 z1 = Some (RunOk q', r', z')"
    "view r' = []" by blast
  with assms(5,9,12) bs(4) show ?thesis
    by (simp add: master_RunAsSecondary_def Listener_RunAsSecondary_def Receiver_SetOffset_def)
qed

definition wit_ord :: "(mem_db, (string \<times> byte list) list) FileManager \<Rightarrow> orders" where
  "wit_ord _ = \<lparr>o_entries = [], o_files = [], o_cells = (\<lambda>_. []), o_chunks = (\<lambda>_. [])\<rparr>"

theorem master_failover_witness:
  "\<exists>p' q' r' z'. exec_all (fm_exec mem_env) wit_fm [FmCreate ''s''] = Some p' \<and>
     master_RunAsSecondary mem_env wit_ord (proto_zk ''n_'') (\<lambda>z. z) mem_kreader (\<lambda>_. None)
       \<lparr>r_entriesKey = ''m-entries'', r_checkpointsKey = ''m-ckpts''\<rparr>
       \<lparr>electionZnode = ''/e'', proposePath = ''/e'' @ ''/'' @ ''n_'', electionAck = [], proposal = []\<rparr>
       wit_fm (fm_broker p', 0) election0 = Some (RunOk q', r', z') \<and> mirror mem_env p' q'"
proof -
  obtain p' where x: "fm_exec mem_env wit_fm (FmCreate ''s'') = (p', True)" using wit_create_fm by blast
  then have y: "exec_all (fm_exec mem_env) wit_fm [FmCreate ''s''] = Some p'" by (simp del: fm_exec.simps)
  have a: "all_admissible (fm_exec mem_env) (\<lambda>p _. fm_room mem_ids p) wit_fm [FmCreate ''s'']"
    using wit_fm_room by simp
  have c: "ReadCheckpoint (e_gorm mem_env) (fm_db wit_fm) = (mem_db0\<lparr>md_ckpt := Some 0\<rparr>, int (length (fm_broker wit_fm)))"
    by (simp add: ReadCheckpoint_def getCheckpointInDB_def wit_fm_sel mem_db0_def)
  have m: "mirror mem_env wit_fm (wit_fm\<lparr>fm_db := mem_db0\<lparr>md_ckpt := Some 0\<rparr>\<rparr>)"
    by (simp add: mirror_def wit_fm_sel mem_db0_def mem_table_def)
  have o: "kr_set_offset mem_kreader (fm_broker p', 0) (int (length (fm_broker wit_fm))) = ((fm_broker p', 0), None)"
    by (simp add: mem_kreader_def wit_fm_sel)
  have v: "(\<lambda>(l, p). drop p l) (fm_broker p', 0) = drop (length (fm_broker wit_fm)) (fm_broker p')"
    by (simp add: wit_fm_sel)
  have k: "entriesKey \<lparr>lastWriteOffset = 0, entriesKey = ''m-entries'', checkpointsKey = ''m-ckpts''\<rparr> \<noteq>
      r_checkpointsKey \<lparr>r_entriesKey = ''m-entries'', r_checkpointsKey = ''m-ckpts''\<rparr>" by simp
  from master_failover [OF wit_fm_inv a y wit_fm_sel(8) c m mem_kreader_reader o v k wit_election,
      where um = "\<lambda>_. None" and ord = wit_ord] y
  show ?thesis by blast
qed

end
