(* ===== verification/MasterServer.thy ===== *)
theory MasterServer
  imports FileMgrProps DataNode
begin

text \<open>
  \<open>sheetfs/master/server\<close>: the RPC handlers of a MasterNode. The server's allocator is the one its
  file manager uses, so the file manager is the whole state. A reply is the status with the fields the
  handler sets (zero values otherwise); a handler that panics returns the state at the panic.
\<close>

record pb_Chunk =
  pc_Id :: u64
  pc_Datanode :: string
  pc_Version :: u64
  pc_HoldsMeta :: bool

record pb_Cell =
  pl_Chunk :: pb_Chunk
  pl_Offset :: u64
  pl_Size :: u64

fun defaultErrorHandler :: "fs_error \<Rightarrow> Status" where
  "defaultErrorHandler (FileExistsError _) = Status_Exist"
| "defaultErrorHandler (CellNotFoundError _ _) = Status_Invalid"
| "defaultErrorHandler (FileNotFoundError _) = Status_NotFound"
| "defaultErrorHandler (FdNotFoundError _) = Status_NotFound"
| "defaultErrorHandler NoDataNode = Status_Unavailable"
| "defaultErrorHandler _ = Status_Unavailable"

definition RegisterDataNode :: "('db, 'k) FileManager \<Rightarrow> string \<Rightarrow> ('db, 'k) FileManager \<times> Status" where
  "RegisterDataNode f addr = (f\<lparr>fm_alloc := AddDataNode (fm_alloc f) addr\<rparr>, Status_OK)"

definition holds_meta :: "Chunk \<Rightarrow> bool" where
  "holds_meta c \<longleftrightarrow> (case ch_Cells c of [d] \<Rightarrow> IsMeta d | _ \<Rightarrow> False)"

definition pb_chunk :: "Chunk \<Rightarrow> pb_Chunk" where
  "pb_chunk c = \<lparr>pc_Id = ch_ID c, pc_Datanode = ch_DataNode c, pc_Version = ch_Version c, pc_HoldsMeta = holds_meta c\<rparr>"

definition Server_ReadSheet ::
  "u64 list \<Rightarrow> ('db, 'k) FileManager \<Rightarrow> u64 \<Rightarrow> (('db, 'k) FileManager, Status \<times> pb_Chunk list) outcome" where
  "Server_ReadSheet ord f fd =
     (case ReadSheet ord f fd of
        None \<Rightarrow> Panicked f
      | Some (Inl err) \<Rightarrow> Done f (defaultErrorHandler err, [])
      | Some (Inr chunks) \<Rightarrow> Done f (Status_OK, map pb_chunk chunks))"

definition Server_CreateSheet ::
  "('db, 'k) env \<Rightarrow> ('db, 'k) FileManager \<Rightarrow> string \<Rightarrow> (('db, 'k) FileManager, Status \<times> u64) outcome" where
  "Server_CreateSheet E f fname =
     (case CreateSheet E f fname of
        None \<Rightarrow> Panicked f
      | Some (f1, Inl err) \<Rightarrow> Done f1 (defaultErrorHandler err, 0)
      | Some (f1, Inr fd) \<Rightarrow> Done f1 (Status_OK, fd))"

text \<open>\<open>panic("implement me")\<close>.\<close>

definition DeleteSheet :: "('db, 'k) FileManager \<Rightarrow> string \<Rightarrow> (('db, 'k) FileManager, Status) outcome" where
  "DeleteSheet f fname = Panicked f"

definition Server_OpenSheet ::
  "('db, 'k) env \<Rightarrow> ('db, 'k) FileManager \<Rightarrow> string \<Rightarrow> ('db, 'k) FileManager \<times> Status \<times> u64" where
  "Server_OpenSheet E f fname =
     (case OpenSheet E f fname of
        (f1, Inl err) \<Rightarrow> (f1, defaultErrorHandler err, 0)
      | (f1, Inr fd) \<Rightarrow> (f1, Status_OK, fd))"

text \<open>The errors of recycling and resuming are dropped.\<close>

definition Server_RecycleSheet ::
  "('db, 'k) env \<Rightarrow> int \<Rightarrow> ('db, 'k) FileManager \<Rightarrow> string \<Rightarrow> ('db, 'k) FileManager \<times> Status" where
  "Server_RecycleSheet E now f fname = (fst (RecycleSheet E now f fname), Status_OK)"

definition Server_ResumeSheet ::
  "('db, 'k) env \<Rightarrow> ('db, 'k) FileManager \<Rightarrow> string \<Rightarrow> ('db, 'k) FileManager \<times> Status" where
  "Server_ResumeSheet E f fname = (fst (ResumeSheet E f fname), Status_OK)"

definition ListSheets :: "string list \<Rightarrow> ('db, 'k) FileManager \<Rightarrow> Status \<times> (string \<times> bool) list" where
  "ListSheets ord f = (Status_OK, GetAllSheets ord f)"

definition ReadCell ::
  "('db, 'k) FileManager \<Rightarrow> u64 \<Rightarrow> u32 \<Rightarrow> u32 \<Rightarrow> (('db, 'k) FileManager, Status \<times> pb_Cell option) outcome" where
  "ReadCell f fd row col =
     (case ReadFileCell f fd row col of
        None \<Rightarrow> Panicked f
      | Some (Inl err) \<Rightarrow> Done f (defaultErrorHandler err, None)
      | Some (Inr (cell, dataChunk)) \<Rightarrow>
          Done f (Status_OK, Some \<lparr>pl_Chunk = pb_chunk dataChunk, pl_Offset = c_Offset cell, pl_Size = c_Size cell\<rparr>))"

text \<open>A granted write does not say whether the chunk holds the meta cell.\<close>

definition WriteCell ::
  "('db, 'k) env \<Rightarrow> ('db, 'k) FileManager \<Rightarrow> u64 \<Rightarrow> u32 \<Rightarrow> u32 \<Rightarrow>
   (('db, 'k) FileManager, Status \<times> pb_Cell option) outcome" where
  "WriteCell E f fd row col =
     (case WriteFileCell E f fd row col of
        None \<Rightarrow> Panicked f
      | Some (f1, Inl err) \<Rightarrow> Done f1 (defaultErrorHandler err, None)
      | Some (f1, Inr (cell, dataChunk)) \<Rightarrow>
          Done f1 (Status_OK, Some \<lparr>pl_Chunk = (pb_chunk dataChunk)\<lparr>pc_HoldsMeta := False\<rparr>,
                                    pl_Offset = c_Offset cell, pl_Size = c_Size cell\<rparr>))"

end
