(* ===== verification/FsClient.thy ===== *)
theory FsClient
  imports MasterServer
begin

text \<open>
  \<open>sheetfs/fsclient\<close>: the client library. A call names a node, finds its address in ZooKeeper, and is
  retried against a re-asked address when it times out; reads and writes spin while a DataNode lags
  behind the version the master granted.
\<close>

subsection \<open>The network\<close>

text \<open>
  ZooKeeper, gRPC and the context are arguments, over a state \<open>'w\<close> of everything outside the client
  and a type \<open>'c\<close> of connections. \<open>others\<close> is what other goroutines did to the shared client before
  the lock was acquired.
\<close>

datatype rpc_error = DeadlineExceeded | RpcFailed string

datatype client_error =
    ErrInvalid
  | ErrExist
  | ErrNotExist
  | UnexpectedStatusError Status
  | CancelledError
  | ErrRpc rpc_error
  | ErrNet string
  | ErrParams

record 'c masterNode =
  mn_c :: 'c
  mn_version :: u64

record 'c dataNodeClient =
  dn_c :: 'c
  dn_version :: u64

record ClientConfig =
  MasterZnode :: string
  DataNodeZnodePrefix :: string
  MaxRetry :: int

record 'c Client =
  cfg :: ClientConfig
  cl_master :: "'c masterNode"
  datanodeMap :: "string \<rightharpoonup> 'c dataNodeClient"

record ('w, 'c) net =
  zk_Get :: "'w \<Rightarrow> string \<Rightarrow> 'w \<times> (string + string)"
  grpc_Dial :: "'w \<Rightarrow> string \<Rightarrow> 'w \<times> (string + 'c)"
  ctx_Done :: "'w \<Rightarrow> bool"
  others :: "'w \<Rightarrow> 'c Client \<Rightarrow> 'c Client"
  rpc_CreateSheet :: "'w \<Rightarrow> 'c \<Rightarrow> string \<Rightarrow> 'w \<times> (rpc_error + Status \<times> u64)"
  rpc_DeleteSheet :: "'w \<Rightarrow> 'c \<Rightarrow> string \<Rightarrow> 'w \<times> (rpc_error + Status)"
  rpc_OpenSheet :: "'w \<Rightarrow> 'c \<Rightarrow> string \<Rightarrow> 'w \<times> (rpc_error + Status \<times> u64)"
  rpc_ReadSheet :: "'w \<Rightarrow> 'c \<Rightarrow> u64 \<Rightarrow> 'w \<times> (rpc_error + Status \<times> pb_Chunk list)"
  rpc_ReadCell :: "'w \<Rightarrow> 'c \<Rightarrow> u64 \<times> u32 \<times> u32 \<Rightarrow> 'w \<times> (rpc_error + Status \<times> pb_Cell option)"
  rpc_WriteCell :: "'w \<Rightarrow> 'c \<Rightarrow> u64 \<times> u32 \<times> u32 \<Rightarrow> 'w \<times> (rpc_error + Status \<times> pb_Cell option)"
  rpc_ReadChunk :: "'w \<Rightarrow> 'c \<Rightarrow> ReadChunkRequest \<Rightarrow> 'w \<times> (rpc_error + Status \<times> byte list)"
  rpc_WriteChunk :: "'w \<Rightarrow> 'c \<Rightarrow> WriteChunkRequest \<Rightarrow> 'w \<times> (rpc_error + Status)"

subsection \<open>Finding nodes\<close>

definition reAskMasterNode :: "('w, 'c) net \<Rightarrow> 'w \<Rightarrow> 'c Client \<Rightarrow> 'w \<times> (string + 'c)" where
  "reAskMasterNode N w c =
     (case zk_Get N w (MasterZnode (cfg c)) of
        (w1, Inl e) \<Rightarrow> (w1, Inl e)
      | (w1, Inr masterAddr) \<Rightarrow> grpc_Dial N w1 masterAddr)"

definition reAskDataNode :: "('w, 'c) net \<Rightarrow> 'w \<Rightarrow> 'c Client \<Rightarrow> string \<Rightarrow> 'w \<times> (string + 'c)" where
  "reAskDataNode N w c datanode =
     (case zk_Get N w (DataNodeZnodePrefix (cfg c) @ datanode) of
        (w1, Inl e) \<Rightarrow> (w1, Inl e)
      | (w1, Inr datanodeAddr) \<Rightarrow> grpc_Dial N w1 datanodeAddr)"

text \<open>
  \<open>for i := 0; i < config.MaxRetry; i++\<close> around \<open>reAskMasterNode\<close>. With no attempt at all the error
  is the one of \<open>zk.Connect\<close>, which is nil there, and the stub stays nil: \<open>None\<close>.
\<close>

fun ask_loop :: "nat \<Rightarrow> ('w, 'c) net \<Rightarrow> 'w \<Rightarrow> 'c Client \<Rightarrow> (string + 'c) option \<Rightarrow> 'w \<times> (string + 'c) option" where
  "ask_loop 0 N w c r = (w, r)"
| "ask_loop (Suc n) N w c r =
     (case reAskMasterNode N w c of
        (w1, Inr conn) \<Rightarrow> (w1, Some (Inr conn))
      | (w1, Inl e) \<Rightarrow> ask_loop n N w1 c (Some (Inl e)))"

text \<open>\<open>nilc\<close> is the nil stub, which the client holds before the master has been found.\<close>

definition NewClient ::
  "('w, 'c) net \<Rightarrow> 'c \<Rightarrow> 'w \<Rightarrow> string option \<Rightarrow> ClientConfig \<Rightarrow> 'w \<times> (string + 'c Client)" where
  "NewClient N nilc w conn_err config =
     (case conn_err of
        Some e \<Rightarrow> (w, Inl e)
      | None \<Rightarrow>
          let c = \<lparr>cfg = config, cl_master = \<lparr>mn_c = nilc, mn_version = 0\<rparr>, datanodeMap = Map.empty\<rparr>
          in (case ask_loop (nat (MaxRetry config)) N w c None of
                (w1, Some (Inl e)) \<Rightarrow> (w1, Inl e)
              | (w1, Some (Inr conn)) \<Rightarrow> (w1, Inr (c\<lparr>cl_master := (cl_master c)\<lparr>mn_c := conn\<rparr>\<rparr>))
              | (w1, None) \<Rightarrow> (w1, Inr c)))"

definition readMaster :: "'c Client \<Rightarrow> 'c \<times> u64" where
  "readMaster c = (mn_c (cl_master c), mn_version (cl_master c))"

definition readDataNode :: "'c Client \<Rightarrow> string \<Rightarrow> ('c \<times> u64) option" where
  "readDataNode c datanodeGroupName = map_option (\<lambda>n. (dn_c n, dn_version n)) (datanodeMap c datanodeGroupName)"

text \<open>The number of parameters of a method against the number of arguments given.\<close>

definition checkMethodParams :: "nat \<Rightarrow> nat \<Rightarrow> client_error option" where
  "checkMethodParams numIn params = (if numIn - 1 \<noteq> params then Some ErrParams else None)"

subsection \<open>Calls with retry\<close>

text \<open>Every method of the generated stubs takes the context, the request and the variadic options.\<close>

fun master_retry ::
  "nat \<Rightarrow> ('w, 'c) net \<Rightarrow> ('w \<Rightarrow> 'c \<Rightarrow> 'w \<times> (rpc_error + 'rep)) \<Rightarrow> u64 \<Rightarrow> 'w \<Rightarrow> 'c Client \<Rightarrow>
   rpc_error \<Rightarrow> 'w \<times> 'c Client \<times> (rpc_error + 'rep)" where
  "master_retry 0 N call lastMasterVersion w c0 err = (w, c0, Inl err)"
| "master_retry (Suc i) N call lastMasterVersion w c0 err =
     (let c = others N w c0 in
      if mn_version (cl_master c) = lastMasterVersion then
        (case reAskMasterNode N w c of
           (w1, Inl e) \<Rightarrow> master_retry i N call lastMasterVersion w1 c err
         | (w1, Inr curClient) \<Rightarrow>
             let curVersion = lastMasterVersion + 1;
                 c1 = c\<lparr>cl_master := \<lparr>mn_c = curClient, mn_version = curVersion\<rparr>\<rparr>
             in (case call w1 curClient of
                   (w2, Inr rep) \<Rightarrow> (w2, c1, Inr rep)
                 | (w2, Inl e) \<Rightarrow> master_retry i N call curVersion w2 c1 e))
      else
        (case call w (mn_c (cl_master c)) of
           (w2, Inr rep) \<Rightarrow> (w2, c, Inr rep)
         | (w2, Inl e) \<Rightarrow> master_retry i N call (mn_version (cl_master c)) w2 c e))"

definition ensureMasterRPCWithRetry ::
  "('w, 'c) net \<Rightarrow> ('w \<Rightarrow> 'c \<Rightarrow> 'w \<times> (rpc_error + 'rep)) \<Rightarrow> 'w \<Rightarrow> 'c Client \<Rightarrow> 'w \<times> 'c Client \<times> (client_error + 'rep)" where
  "ensureMasterRPCWithRetry N call w c =
     (case readMaster c of
        (masterClient, lastMasterVersion) \<Rightarrow>
        (case checkMethodParams 3 2 of
           Some e \<Rightarrow> (w, c, Inl e)
         | None \<Rightarrow>
           (case call w masterClient of
              (w1, Inr rep) \<Rightarrow> (w1, c, Inr rep)
            | (w1, Inl err) \<Rightarrow>
                if err \<noteq> DeadlineExceeded then (w1, c, Inl (ErrRpc err))
                else (case master_retry (nat (MaxRetry (cfg c))) N call lastMasterVersion w1 c err of
                        (w2, c2, r) \<Rightarrow> (w2, c2, map_sum ErrRpc id r)))))"

text \<open>\<open>Panicked\<close>: the group is not in the map, and the code dereferences nil.\<close>

fun datanode_retry ::
  "nat \<Rightarrow> ('w, 'c) net \<Rightarrow> ('w \<Rightarrow> 'c \<Rightarrow> 'w \<times> (rpc_error + 'rep)) \<Rightarrow> string \<Rightarrow> u64 \<Rightarrow> 'w \<Rightarrow> 'c Client \<Rightarrow>
   rpc_error \<Rightarrow> ('w \<times> 'c Client, rpc_error + 'rep) outcome" where
  "datanode_retry 0 N call datanodeGroup lastDatanodeVersion w c0 err = Done (w, c0) (Inl err)"
| "datanode_retry (Suc i) N call datanodeGroup lastDatanodeVersion w c0 err =
     (let c = others N w c0 in
      case datanodeMap c datanodeGroup of
        None \<Rightarrow> Panicked (w, c)
      | Some d \<Rightarrow>
          if dn_version d = lastDatanodeVersion then
            (case reAskDataNode N w c datanodeGroup of
               (w1, Inl e) \<Rightarrow> datanode_retry i N call datanodeGroup lastDatanodeVersion w1 c err
             | (w1, Inr curClient) \<Rightarrow>
                 let curVersion = lastDatanodeVersion + 1;
                     c1 = c\<lparr>datanodeMap := (datanodeMap c)(datanodeGroup \<mapsto>
                            \<lparr>dn_c = curClient, dn_version = curVersion\<rparr>)\<rparr>
                 in (case call w1 curClient of
                       (w2, Inr rep) \<Rightarrow> Done (w2, c1) (Inr rep)
                     | (w2, Inl e) \<Rightarrow> datanode_retry i N call datanodeGroup curVersion w2 c1 e))
          else
            (case call w (dn_c d) of
               (w2, Inr rep) \<Rightarrow> Done (w2, c) (Inr rep)
             | (w2, Inl e) \<Rightarrow> datanode_retry i N call datanodeGroup (dn_version d) w2 c e))"

definition ensureDataNodeRPCWithRetry ::
  "('w, 'c) net \<Rightarrow> string \<Rightarrow> ('w \<Rightarrow> 'c \<Rightarrow> 'w \<times> (rpc_error + 'rep)) \<Rightarrow> 'w \<times> 'c Client \<Rightarrow>
   ('w \<times> 'c Client, client_error + 'rep) outcome" where
  "ensureDataNodeRPCWithRetry N datanodeGroup call st =
     (case st of (w, c) \<Rightarrow>
      (case readDataNode c datanodeGroup of
        None \<Rightarrow> Panicked (w, c)
      | Some (datanodeClient, lastDatanodeVersion) \<Rightarrow>
        (case checkMethodParams 3 2 of
           Some e \<Rightarrow> Done (w, c) (Inl e)
         | None \<Rightarrow>
           (case call w datanodeClient of
              (w1, Inr rep) \<Rightarrow> Done (w1, c) (Inr rep)
            | (w1, Inl err) \<Rightarrow>
                if err \<noteq> DeadlineExceeded then Done (w1, c) (Inl (ErrRpc err))
                else (case datanode_retry (nat (MaxRetry (cfg c))) N call datanodeGroup lastDatanodeVersion w1 c err of
                        Panicked st' \<Rightarrow> Panicked st'
                      | Done st' r \<Rightarrow> Done st' (map_sum ErrRpc id r))))))"

fun checkNewDataNode :: "('w, 'c) net \<Rightarrow> 'w \<Rightarrow> 'c Client \<Rightarrow> pb_Chunk list \<Rightarrow> 'w \<times> 'c Client \<times> client_error option" where
  "checkNewDataNode N w c [] = (w, c, None)"
| "checkNewDataNode N w c (chunk # chunks) =
     (let groupName = pc_Datanode chunk in
      if datanodeMap c groupName \<noteq> None then checkNewDataNode N w c chunks
      else
        (case zk_Get N w (DataNodeZnodePrefix (cfg c) @ groupName) of
           (w1, Inl e) \<Rightarrow> (w1, c, Some (ErrNet e))
         | (w1, Inr addr) \<Rightarrow>
             (case grpc_Dial N w1 addr of
                (w2, Inl e) \<Rightarrow> (w2, c, Some (ErrNet e))
              | (w2, Inr conn) \<Rightarrow>
                  checkNewDataNode N w2
                    (c\<lparr>datanodeMap := (datanodeMap c)(groupName \<mapsto> \<lparr>dn_c = conn, dn_version = 0\<rparr>)\<rparr>) chunks)))"

definition concurrentReadChunk ::
  "('w, 'c) net \<Rightarrow> pb_Chunk \<Rightarrow> ReadChunkRequest \<Rightarrow> 'w \<times> 'c Client \<Rightarrow>
   ('w \<times> 'c Client, client_error + Status \<times> byte list) outcome" where
  "concurrentReadChunk N chunk req st =
     ensureDataNodeRPCWithRetry N (pc_Datanode chunk) (\<lambda>w conn. rpc_ReadChunk N w conn req) st"

definition concurrentWriteChunk ::
  "('w, 'c) net \<Rightarrow> pb_Chunk \<Rightarrow> WriteChunkRequest \<Rightarrow> 'w \<times> 'c Client \<Rightarrow>
   ('w \<times> 'c Client, client_error + Status) outcome" where
  "concurrentWriteChunk N chunk req st =
     ensureDataNodeRPCWithRetry N (pc_Datanode chunk) (\<lambda>w conn. rpc_WriteChunk N w conn req) st"

subsection \<open>Files\<close>

record File =
  f_fd :: u64
  f_filename :: string

definition newFile :: "u64 \<Rightarrow> string \<Rightarrow> File" where
  "newFile fd fname = \<lparr>f_fd = fd, f_filename = fname\<rparr>"

definition bad_name :: "string \<Rightarrow> bool" where
  "bad_name name \<longleftrightarrow> name = [] \<or> CHR ''/'' \<in> set name \<or> CHR 0x5C \<in> set name"

definition Create :: "('w, 'c) net \<Rightarrow> string \<Rightarrow> 'w \<Rightarrow> 'c Client \<Rightarrow> 'w \<times> 'c Client \<times> (client_error + File)" where
  "Create N name w c =
     (if bad_name name then (w, c, Inl ErrInvalid)
      else case ensureMasterRPCWithRetry N (\<lambda>w conn. rpc_CreateSheet N w conn name) w c of
        (w1, c1, Inl err) \<Rightarrow> (w1, c1, Inl err)
      | (w1, c1, Inr (status, fd)) \<Rightarrow>
          (w1, c1, case status of
             Status_OK \<Rightarrow> Inr (newFile fd name)
           | Status_Exist \<Rightarrow> Inl ErrExist
           | _ \<Rightarrow> Inl (UnexpectedStatusError status)))"

definition Delete :: "('w, 'c) net \<Rightarrow> string \<Rightarrow> 'w \<Rightarrow> 'c Client \<Rightarrow> 'w \<times> 'c Client \<times> client_error option" where
  "Delete N name w c =
     (case ensureMasterRPCWithRetry N (\<lambda>w conn. rpc_DeleteSheet N w conn name) w c of
        (w1, c1, Inl err) \<Rightarrow> (w1, c1, Some err)
      | (w1, c1, Inr status) \<Rightarrow>
          (w1, c1, case status of
             Status_OK \<Rightarrow> None
           | Status_NotFound \<Rightarrow> Some ErrNotExist
           | _ \<Rightarrow> Some (UnexpectedStatusError status)))"

definition Client_Open :: "('w, 'c) net \<Rightarrow> string \<Rightarrow> 'w \<Rightarrow> 'c Client \<Rightarrow> 'w \<times> 'c Client \<times> (client_error + File)" where
  "Client_Open N name w c =
     (if bad_name name then (w, c, Inl ErrInvalid)
      else case ensureMasterRPCWithRetry N (\<lambda>w conn. rpc_OpenSheet N w conn name) w c of
        (w1, c1, Inl err) \<Rightarrow> (w1, c1, Inl err)
      | (w1, c1, Inr (status, fd)) \<Rightarrow>
          (w1, c1, case status of
             Status_OK \<Rightarrow> Inr (newFile fd name)
           | Status_NotFound \<Rightarrow> Inl ErrNotExist
           | _ \<Rightarrow> Inl (UnexpectedStatusError status)))"

text \<open>
  The loop the three data operations share: give up when the context is done or the call fails, go
  round again while the reply asks for it (\<open>WrongVersion\<close>). \<open>None\<close>: it spins forever.
\<close>

partial_function (option) spin ::
  "('s \<Rightarrow> bool) \<Rightarrow> ('s \<Rightarrow> ('s, client_error + 'rep) outcome) \<Rightarrow> ('rep \<Rightarrow> bool) \<Rightarrow> 's \<Rightarrow>
   ('s, client_error + 'rep) outcome option" where
  "spin done_ctx call again st =
     (if done_ctx st then Some (Done st (Inl CancelledError))
      else case call st of
        Panicked st' \<Rightarrow> Some (Panicked st')
      | Done st' (Inl e) \<Rightarrow> Some (Done st' (Inl e))
      | Done st' (Inr rep) \<Rightarrow> if again rep then spin done_ctx call again st' else Some (Done st' (Inr rep)))"

text \<open>\<open>ReadAt\<close>: the buffer afterwards, the size (\<open>-1\<close> on errors) and the error.\<close>

definition File_ReadAt ::
  "('w, 'c) net \<Rightarrow> File \<Rightarrow> byte list \<Rightarrow> u32 \<Rightarrow> u32 \<Rightarrow> 'w \<Rightarrow> 'c Client \<Rightarrow>
   ('w \<times> 'c Client, byte list \<times> int \<times> client_error option) outcome option" where
  "File_ReadAt N f b row col w c =
     (case ensureMasterRPCWithRetry N (\<lambda>w conn. rpc_ReadCell N w conn (f_fd f, row, col)) w c of
        (w1, c1, Inl err) \<Rightarrow> Some (Done (w1, c1) (b, -1, Some err))
      | (w1, c1, Inr (status, cell)) \<Rightarrow>
          if status \<noteq> Status_OK then Some (Done (w1, c1) (b, -1, Some (UnexpectedStatusError status)))
          else case cell of
            None \<Rightarrow> Some (Panicked (w1, c1))
          | Some l \<Rightarrow>
            (case checkNewDataNode N w1 c1 [pl_Chunk l] of
               (w2, c2, Some err) \<Rightarrow> Some (Done (w2, c2) (b, -1, Some err))
             | (w2, c2, None) \<Rightarrow>
               let dataReq = \<lparr>rd_Id = pc_Id (pl_Chunk l), rd_Offset = pl_Offset l, rd_Size = pl_Size l,
                              rd_Version = pc_Version (pl_Chunk l)\<rparr>
               in (case spin (\<lambda>st. ctx_Done N (fst st)) (concurrentReadChunk N (pl_Chunk l) dataReq)
                          (\<lambda>r. fst r = Status_WrongVersion) (w2, c2) of
                     None \<Rightarrow> None
                   | Some (Panicked st) \<Rightarrow> Some (Panicked st)
                   | Some (Done st (Inl err)) \<Rightarrow> Some (Done st (b, -1, Some err))
                   | Some (Done st (Inr (status, data))) \<Rightarrow>
                       Some (Done st
                         (case status of
                            Status_OK \<Rightarrow> (go_copy b data, sint (pl_Size l), None)
                          | Status_NotFound \<Rightarrow> (b, -1, Some ErrNotExist)
                          | _ \<Rightarrow> (b, -1, Some (UnexpectedStatusError status)))))))"

definition cell_target :: "u32 \<Rightarrow> u32 \<Rightarrow> u64" where
  "cell_target row col = (if row = SheetMetaCellRow \<and> col = SheetMetaCellCol then FILE_SIZE else BLOCK_SIZE)"

definition File_WriteAt ::
  "('w, 'c) net \<Rightarrow> File \<Rightarrow> byte list \<Rightarrow> u32 \<Rightarrow> u32 \<Rightarrow> string \<Rightarrow> 'w \<Rightarrow> 'c Client \<Rightarrow>
   ('w \<times> 'c Client, int \<times> client_error option) outcome option" where
  "File_WriteAt N f b row col padding w c =
     (case ensureMasterRPCWithRetry N (\<lambda>w conn. rpc_WriteCell N w conn (f_fd f, row, col)) w c of
        (w1, c1, Inl err) \<Rightarrow> Some (Done (w1, c1) (-1, Some err))
      | (w1, c1, Inr (status, cell)) \<Rightarrow>
          if status = Status_NotFound then Some (Done (w1, c1) (-1, Some ErrNotExist))
          else if status \<noteq> Status_OK then Some (Done (w1, c1) (-1, Some (UnexpectedStatusError status)))
          else case cell of
            None \<Rightarrow> Some (Panicked (w1, c1))
          | Some l \<Rightarrow>
            (case checkNewDataNode N w1 c1 [pl_Chunk l] of
               (w2, c2, Some err) \<Rightarrow> Some (Done (w2, c2) (-1, Some err))
             | (w2, c2, None) \<Rightarrow>
               let dataReq = \<lparr>wr_Id = pc_Id (pl_Chunk l), wr_Offset = pl_Offset l,
                              wr_Size = word_of_nat (length b), wr_TargetSize = cell_target row col,
                              wr_Version = pc_Version (pl_Chunk l),
                              wr_Padding = (if padding = [] then '' '' else padding), wr_Data = b\<rparr>
               in (case spin (\<lambda>st. ctx_Done N (fst st)) (concurrentWriteChunk N (pl_Chunk l) dataReq)
                          (\<lambda>r. r = Status_WrongVersion) (w2, c2) of
                     None \<Rightarrow> None
                   | Some (Panicked st) \<Rightarrow> Some (Panicked st)
                   | Some (Done st (Inl err)) \<Rightarrow> Some (Done st (-1, Some err))
                   | Some (Done st (Inr status)) \<Rightarrow>
                       Some (Done st
                         (case status of
                            Status_OK \<Rightarrow> (int (length b), None)
                          | Status_NotFound \<Rightarrow> (-1, Some ErrNotExist)
                          | _ \<Rightarrow> (-1, Some (UnexpectedStatusError status)))))))"

subsection \<open>Reading a whole sheet\<close>

definition ascii :: "string \<Rightarrow> byte list" where
  "ascii s = map of_char s"

text \<open>The loop of \<open>connect\<close>, over the reversed data: the first comma met becomes a space.\<close>

fun blank_comma :: "byte list \<Rightarrow> byte list" where
  "blank_comma [] = []"
| "blank_comma (x # xs) = (if x = of_char (CHR '','') then of_char (CHR '' '') # xs else x # blank_comma xs)"

definition connect :: "byte list \<Rightarrow> byte list \<Rightarrow> byte list" where
  "connect data metadata =
     ascii (CHR 0x7B # CHR 0x22 # ''celldata'' @ CHR 0x22 # '': ['')
     @ (if 0 < length data then rev (blank_comma (rev data)) else data)
     @ (if 0 < length metadata then ascii ''],'' @ metadata else ascii '']'')
     @ ascii [CHR 0x7D]"

definition DynamicCopy :: "byte list \<Rightarrow> byte list \<Rightarrow> byte list option" where
  "DynamicCopy dst src =
     (if length src < length dst then None else Some (take (length dst) src @ drop (length dst) src))"

text \<open>
  The workers of \<open>Read\<close> run one after the other, in the order they are listed: each fetches its whole
  chunk, and an error cancels those still to run. The state of the operation is the data and meta
  data collected, the error, and whether the derived context was cancelled.
\<close>

record read_state =
  rs_data :: "byte list"
  rs_meta :: "byte list"
  rs_err :: "client_error option"
  rs_cancelled :: bool

definition read_req :: "pb_Chunk \<Rightarrow> ReadChunkRequest" where
  "read_req chunk = \<lparr>rd_Id = pc_Id chunk, rd_Offset = 0, rd_Size = FILE_SIZE, rd_Version = pc_Version chunk\<rparr>"

definition read_worker ::
  "('w, 'c) net \<Rightarrow> pb_Chunk \<Rightarrow> ('w \<times> 'c Client) \<times> read_state \<Rightarrow> (('w \<times> 'c Client) \<times> read_state, unit) outcome option" where
  "read_worker N chunk s =
     (case s of (st, rs) \<Rightarrow>
      (case spin (\<lambda>st. rs_cancelled rs \<or> ctx_Done N (fst st)) (concurrentReadChunk N chunk (read_req chunk))
             (\<lambda>r. fst r = Status_WrongVersion) st of
         None \<Rightarrow> None
       | Some (Panicked st') \<Rightarrow> Some (Panicked (st', rs))
       | Some (Done st' (Inl CancelledError)) \<Rightarrow>
           Some (Done (st', rs\<lparr>rs_err := (case rs_err rs of None \<Rightarrow> Some CancelledError | Some e \<Rightarrow> Some e)\<rparr>) ())
       | Some (Done st' (Inl err)) \<Rightarrow> Some (Done (st', rs\<lparr>rs_err := Some err, rs_cancelled := True\<rparr>) ())
       | Some (Done st' (Inr (status, data))) \<Rightarrow>
           if status = Status_OK then
             Some (Done (st', if pc_HoldsMeta chunk then rs\<lparr>rs_meta := data\<rparr>
                              else rs\<lparr>rs_data := rs_data rs @ data\<rparr>) ())
           else if status = Status_NotFound \<and> pc_HoldsMeta chunk then Some (Done (st', rs) ())
           else Some (Done (st', rs\<lparr>rs_err := Some (UnexpectedStatusError status), rs_cancelled := True\<rparr>) ())))"

fun read_workers ::
  "('w, 'c) net \<Rightarrow> pb_Chunk list \<Rightarrow> ('w \<times> 'c Client) \<times> read_state \<Rightarrow> (('w \<times> 'c Client) \<times> read_state, unit) outcome option" where
  "read_workers N [] s = Some (Done s ())"
| "read_workers N (chunk # chunks) s =
     (case read_worker N chunk s of
        None \<Rightarrow> None
      | Some (Panicked s') \<Rightarrow> Some (Panicked s')
      | Some (Done s' _) \<Rightarrow> read_workers N chunks s')"

text \<open>\<open>sched\<close> is the order in which the scheduler lets the workers finish.\<close>

definition File_Read ::
  "('w, 'c) net \<Rightarrow> (pb_Chunk list \<Rightarrow> pb_Chunk list) \<Rightarrow> File \<Rightarrow> 'w \<Rightarrow> 'c Client \<Rightarrow>
   ('w \<times> 'c Client, byte list \<times> int \<times> client_error option) outcome option" where
  "File_Read N sched f w c =
     (case ensureMasterRPCWithRetry N (\<lambda>w conn. rpc_ReadSheet N w conn (f_fd f)) w c of
        (w1, c1, Inl err) \<Rightarrow> Some (Done (w1, c1) ([], -1, Some err))
      | (w1, c1, Inr (status, chunks)) \<Rightarrow>
          (case checkNewDataNode N w1 c1 chunks of
             (w2, c2, Some err) \<Rightarrow> Some (Done (w2, c2) ([], -1, Some err))
           | (w2, c2, None) \<Rightarrow>
               if status = Status_NotFound then Some (Done (w2, c2) ([], -1, Some ErrNotExist))
               else if status \<noteq> Status_OK then Some (Done (w2, c2) ([], -1, Some (UnexpectedStatusError status)))
               else
                 (case read_workers N (sched chunks)
                         ((w2, c2), \<lparr>rs_data = [], rs_meta = [], rs_err = None, rs_cancelled = False\<rparr>) of
                    None \<Rightarrow> None
                  | Some (Panicked (st, _)) \<Rightarrow> Some (Panicked st)
                  | Some (Done (st, rs) _) \<Rightarrow>
                      let res = connect (rs_data rs) (rs_meta rs)
                      in Some (Done st (res, int (length res), rs_err rs)))))"

end
