(* ===== verification/System.thy ===== *)
theory System
  imports FsClient DataNodeProps
begin

text \<open>
  The file system as a whole: a client, the primary master and the primary DataNodes, connected by
  calls that reach their node. The abstract content of the system is a map from sheets and cells to
  bytes; writing a cell through the client library changes this map at one point, reading a cell
  returns its value there.
\<close>

subsection \<open>The connected system\<close>

text \<open>
  A DataNode is found under the znode of its group. Nodes are named by the paths of their znodes, so
  ZooKeeper returns a path as the address, and dialling an address returns it as the connection. A
  handler that panics fails its call.
\<close>

record ('db, 'k, 'j) world =
  w_master :: "('db, 'k) FileManager"
  w_nodes :: "string \<rightharpoonup> 'j Server"

definition to_master ::
  "(('db, 'k) FileManager \<Rightarrow> (('db, 'k) FileManager, 'rep) outcome) \<Rightarrow> ('db, 'k, 'j) world \<Rightarrow>
   ('db, 'k, 'j) world \<times> (rpc_error + 'rep)" where
  "to_master h w =
     (case h (w_master w) of
        Panicked f \<Rightarrow> (w\<lparr>w_master := f\<rparr>, Inl (RpcFailed ''panic''))
      | Done f r \<Rightarrow> (w\<lparr>w_master := f\<rparr>, Inr r))"

definition to_node ::
  "string \<Rightarrow> ('j Server \<Rightarrow> ('j Server, 'rep) outcome) \<Rightarrow> ('db, 'k, 'j) world \<Rightarrow>
   ('db, 'k, 'j) world \<times> (rpc_error + 'rep)" where
  "to_node a h w =
     (case w_nodes w a of
        None \<Rightarrow> (w, Inl (RpcFailed ''unknown node''))
      | Some s \<Rightarrow>
          (case h s of
             Panicked s' \<Rightarrow> (w\<lparr>w_nodes := (w_nodes w)(a \<mapsto> s')\<rparr>, Inl (RpcFailed ''panic''))
           | Done s' r \<Rightarrow> (w\<lparr>w_nodes := (w_nodes w)(a \<mapsto> s')\<rparr>, Inr r)))"

definition direct_net ::
  "('db, 'k) env \<Rightarrow> 'j kafka \<Rightarrow> (('db, 'k) FileManager \<Rightarrow> u64 \<Rightarrow> u64 list) \<Rightarrow> (('db, 'k, 'j) world, string) net" where
  "direct_net E K ord = \<lparr>
     zk_Get = (\<lambda>w path. (w, Inr path)),
     grpc_Dial = (\<lambda>w addr. (w, Inr addr)),
     ctx_Done = (\<lambda>_. False),
     others = (\<lambda>_ c. c),
     rpc_CreateSheet = (\<lambda>w _ n. to_master (\<lambda>f. Server_CreateSheet E f n) w),
     rpc_DeleteSheet = (\<lambda>w _ n. to_master (\<lambda>f. DeleteSheet f n) w),
     rpc_OpenSheet = (\<lambda>w _ n. to_master (\<lambda>f. case Server_OpenSheet E f n of (f', r) \<Rightarrow> Done f' r) w),
     rpc_ReadSheet = (\<lambda>w _ fd. to_master (\<lambda>f. Server_ReadSheet (ord f fd) f fd) w),
     rpc_ReadCell = (\<lambda>w _ (fd, row, col). to_master (\<lambda>f. ReadCell f fd row col) w),
     rpc_WriteCell = (\<lambda>w _ (fd, row, col). to_master (\<lambda>f. WriteCell E f fd row col) w),
     rpc_ReadChunk = (\<lambda>w a q. to_node a (\<lambda>s. case ReadChunk no_faults s q of None \<Rightarrow> Panicked s | Some r \<Rightarrow> Done s r) w),
     rpc_WriteChunk = (\<lambda>w a r. to_node a (\<lambda>s. WriteChunk no_faults K s r) w)\<rparr>"

definition sure :: "'j kafka \<Rightarrow> bool" where
  "sure K \<longleftrightarrow> (\<forall>k key v. \<exists>k' off. k_write K k key v = (k', Inr off))"

subsection \<open>Invariant and content\<close>

text \<open>
  The master and the DataNodes agree: the node of every chunk is up and has the version the master
  granted last, no node has a chunk the master has not created, and every node the allocator may
  choose is up. \<open>P\<close> is the prefix of the znodes of the groups.
\<close>

definition sys_ok ::
  "('db, 'k) env \<Rightarrow> ('k \<Rightarrow> (string \<times> byte list) list) \<Rightarrow> ('db \<Rightarrow> u64 set) \<Rightarrow> string \<Rightarrow> ('db, 'k, 'j) world \<Rightarrow> bool" where
  "sys_ok E plog ids P w \<longleftrightarrow>
     fm_inv E plog ids (w_master w) \<and>
     (\<forall>a s. w_nodes w a = Some s \<longrightarrow>
        wf_server s \<and> (\<forall>k. k \<notin> ids (fm_db (w_master w)) \<longrightarrow> chunk_data s k = None)) \<and>
     (\<forall>x\<in>set (dataNodes (fm_alloc (w_master w))). w_nodes w (P @ address x) \<noteq> None) \<and>
     (\<forall>n f k ch. Opened (w_master w) n = Some f \<and> Chunks f k = Some ch \<longrightarrow>
        (\<exists>s. w_nodes w (P @ ch_DataNode ch) = Some s \<and> chunk_version s k = ch_Version ch)) \<and>
     (\<forall>n f m. Opened (w_master w) n = Some f \<and> Cells f SheetMetaCellID = Some m \<longrightarrow> c_Size m = 8192)"

definition client_ok :: "string Client \<Rightarrow> bool" where
  "client_ok c \<longleftrightarrow> (\<forall>g d. datanodeMap c g = Some d \<longrightarrow> dn_c d = DataNodeZnodePrefix (cfg c) @ g)"

definition cell_bytes :: "Cell \<Rightarrow> byte list \<Rightarrow> byte list" where
  "cell_bytes c d = take (unat (c_Size c)) (drop (unat (c_Offset c)) d)"

text \<open>The bytes of a cell of a sheet, \<open>None\<close> when the cell does not exist or was never written.\<close>

definition content :: "string \<Rightarrow> ('db, 'k, 'j) world \<Rightarrow> string \<Rightarrow> i64 \<Rightarrow> byte list option" where
  "content P w n i = do {
     f \<leftarrow> Opened (w_master w) n;
     c \<leftarrow> Cells f i;
     ch \<leftarrow> Chunks f (c_ChunkID c);
     s \<leftarrow> w_nodes w (P @ ch_DataNode ch);
     map_option (cell_bytes c) (chunk_data s (c_ChunkID c))
   }"

subsection \<open>Calls over the connected system\<close>

lemma direct_master:
  assumes "\<And>conn. call w conn = (w1, Inr rep)"
  shows "ensureMasterRPCWithRetry N call w c = (w1, c, Inr rep)"
  using assms by (simp add: ensureMasterRPCWithRetry_def checkMethodParams_def readMaster_def)

lemma direct_node:
  assumes "datanodeMap c g = Some d" "call w (dn_c d) = (w1, Inr rep)"
  shows "ensureDataNodeRPCWithRetry N g call (w, c) = Done (w1, c) (Inr rep)"
  using assms by (simp add: ensureDataNodeRPCWithRetry_def checkMethodParams_def readDataNode_def)

lemma direct_check:
  assumes "client_ok c"
  shows "\<exists>c'. checkNewDataNode (direct_net E K ord) w c [chunk] = (w, c', None) \<and> client_ok c' \<and> cfg c' = cfg c \<and>
     (\<exists>d. datanodeMap c' (pc_Datanode chunk) = Some d \<and> dn_c d = DataNodeZnodePrefix (cfg c) @ pc_Datanode chunk)"
proof (cases "datanodeMap c (pc_Datanode chunk)")
  case (Some d)
  with assms show ?thesis by (auto simp: client_ok_def)
next
  case None
  have n: "zk_Get (direct_net E K ord) w x = (w, Inr x)" "grpc_Dial (direct_net E K ord) w x = (w, Inr x)" for x
    by (simp_all add: direct_net_def)
  from None assms show ?thesis by (auto simp: n client_ok_def Let_def)
qed

lemma spin_once:
  assumes "\<not> done_ctx st" "call st = Done st' (Inr rep)" "\<not> again rep"
  shows "spin done_ctx call again st = Some (Done st' (Inr rep))"
  using assms by (subst spin.simps) simp

lemma sure_commit:
  assumes "sure K"
  shows "\<exists>w k. commit_retry ACK_MOST_TIMES K (writer s) (broker s) e None = (w, k, None)"
proof -
  obtain k' off where "k_write K (broker s) (entriesKey (writer s)) e = (k', Inr off)"
    using assms unfolding sure_def by blast
  then show ?thesis
    by (simp add: ACK_MOST_TIMES_def numeral_eq_Suc CommitEntry_def WriteMessages_def)
qed

lemma sure_put:
  assumes "sure K" "wf_server s" "layout_ok r" "wr_Version r = chunk_version s (wr_Id r) + 1"
  shows "\<exists>s'. WriteChunk no_faults K s r = Done s' Status_OK \<and> dn_put K s r = (s', True)"
proof -
  from sure_commit [OF assms(1)] obtain w k where
    "commit_retry ACK_MOST_TIMES K (writer s) (broker s) (ConstructWriteEntry r (block r)) None = (w, k, None)" by blast
  from WriteChunk_eq [OF assms(2,3) this] assms(4) show ?thesis by (simp add: dn_put_def Let_def)
qed

subsection \<open>Where the master places a cell\<close>

lemma addCell_node:
  "addCellToLastAvailable s row col sz = Some (s', cell, ch) \<Longrightarrow>
   \<exists>k ch0. LastAvailableChunk s = Some k \<and> Chunks s k = Some ch0 \<and> ch_DataNode ch = ch_DataNode ch0 \<and>
     c_ChunkID cell = ch_ID ch0"
  by (auto simp: addCellToLastAvailable_def NewCell_def Let_def bind_eq_Some_conv)

lemma alloc_node:
  assumes "AllocateNode al = Some (al', Inr g)"
  shows "g \<in> address ` set (dataNodes al)" "dataNodes al' = dataNodes al"
  using assms by (auto simp: AllocateNode_def Let_def split: if_splits option.splits)

lemma write_placed:
  assumes G: "gorm_ok G ids" and room: "card (ids db) < 2 ^ 62" and ok: "sheet_ok s" "dom (Chunks s) \<subseteq> ids db"
    and w: "WriteCellChunk G db al s row col = Some (db', al', s', Inr (cell, ch))"
  shows "dataNodes al' = dataNodes al \<and>
    (case Chunks s (c_ChunkID cell) of
       Some ch0 \<Rightarrow> ch_DataNode ch = ch_DataNode ch0 \<and> ids db' = ids db
     | None \<Rightarrow> ch_DataNode ch \<in> address ` set (dataNodes al) \<and> c_ChunkID cell \<notin> ids db \<and>
         ids db' = insert (c_ChunkID cell) (ids db))"
proof (cases "Cells s (GetCellID row col)")
  case (Some c)
  with w show ?thesis by (auto simp: WriteCellChunk_def Let_def split: option.splits)
next
  case None
  let ?av = "case LastAvailableChunk s of None \<Rightarrow> False
    | Some k \<Rightarrow> (case Chunks s k of None \<Rightarrow> False | Some c \<Rightarrow> isAvailable c 2048)"
  note sz = not_meta_size [OF ok(1) None]
  show ?thesis
  proof (cases ?av)
    case True
    with w None sz have a: "addCellToLastAvailable s row col 2048 = Some (s', cell, ch)" "db' = db" "al' = al"
      by (auto simp: WriteCellChunk_def Let_def split: option.splits)
    from addCell_node [OF a(1)] obtain k ch0 where k: "Chunks s k = Some ch0" "ch_DataNode ch = ch_DataNode ch0"
      "c_ChunkID cell = ch_ID ch0" by blast
    with sheet_okD(1) [OF ok(1) k(1)] a show ?thesis by (simp add: chunk_ok_def)
  next
    case False
    with w None sz obtain g where al: "AllocateNode al = Some (al', Inr g)"
      by (auto simp: WriteCellChunk_def Let_def split: option.splits sum.splits prod.splits)
    let ?c = "\<lparr>ch_ID = 0, ch_DataNode = g, ch_Version = 0, ch_Cells = []\<rparr>"
    obtain db1 k where p: "g_put_chunk G db ?c = (db1, k)" by (cases "g_put_chunk G db ?c")
    let ?s1 = "s\<lparr>Chunks := (Chunks s)(k \<mapsto> ?c\<lparr>ch_ID := k\<rparr>), LastAvailableChunk := Some k\<rparr>"
    have a: "addCellToLastAvailable ?s1 row col 2048 = Some (s', cell, ch)" "db' = db1"
      using w None sz False al p
      by (auto simp: WriteCellChunk_def Let_def Chunk_Persistent_def split: option.splits prod.splits if_splits)
    from put_chunk_ok [OF G _ room p] have k: "k \<notin> ids db" "ids db1 = insert k (ids db)" by auto
    with ok(2) have "Chunks s k = None" by blast
    with k a alloc_node [OF al] addCell_node [OF a(1)] show ?thesis by auto
  qed
qed

text \<open>The size of a cell is the size the client pads it to.\<close>

lemma cell_size:
  assumes "sheet_ok s" "Cells s (GetCellID row col) = Some c" "\<And>m. Cells s SheetMetaCellID = Some m \<Longrightarrow> c_Size m = 8192"
  shows "c_Size c = cell_target row col"
proof -
  note D = sheet_okD [OF assms(1)]
  from D(2) [OF assms(2)] obtain ch d where ch: "Chunks s (c_ChunkID c) = Some ch" "d \<in> set (ch_Cells ch)"
    "slot c = slot d" "CellID c = GetCellID row col" by (auto simp: cell_ok_def)
  show ?thesis
  proof (cases "row = SheetMetaCellRow \<and> col = SheetMetaCellCol")
    case True
    with assms(2,3) GetCellID_meta_iff [of row col] show ?thesis by (simp add: cell_target_def layout_simps)
  next
    case False
    then have "CellID c \<noteq> SheetMetaCellID" using ch(4) GetCellID_meta_iff by simp
    then have "\<not> meta_chunk ch" using ch(2,3) by (auto simp: meta_chunk_def slot_def)
    with D(1) [OF ch(1)] have "slot_chunk ch" by (simp add: chunk_ok_def)
    with ch(2,3) False show ?thesis
      by (auto simp: slot_chunk_def slot_def in_set_conv_nth cell_target_def layout_simps)
  qed
qed

lemma cell_pos:
  assumes "sheet_ok s" "Cells s i = Some c"
  shows "0 < unat (c_Size c)"
proof -
  from sheet_okD(2) [OF assms] obtain ch d where ch: "Chunks s (c_ChunkID c) = Some ch" "d \<in> set (ch_Cells ch)"
    "slot c = slot d" by (auto simp: cell_ok_def)
  from sheet_okD(1) [OF assms(1) ch(1)] have "meta_chunk ch \<or> slot_chunk ch" by (simp add: chunk_ok_def)
  with ch(2,3) show ?thesis by (auto simp: meta_chunk_def slot_chunk_def slot_def in_set_conv_nth)
qed

text \<open>Bytes of a cell after a block was written at a cell of the same chunk.\<close>

lemma cell_range_end:
  assumes "cell_range c \<subseteq> {..<8192}" "0 < unat (c_Size c)"
  shows "unat (c_Offset c) + unat (c_Size c) \<le> 8192"
proof -
  have "unat (c_Offset c) + unat (c_Size c) - 1 \<in> cell_range c" using assms(2) by (simp add: cell_range_def)
  with assms(1) have "unat (c_Offset c) + unat (c_Size c) - 1 < 8192" by blast
  with assms(2) show ?thesis by linarith
qed

lemma cell_bytes_same:
  assumes "cell_range c \<subseteq> {..<8192}" "length d = 8192" "length b = unat (c_Size c)"
  shows "cell_bytes c (overwrite d (unat (c_Offset c)) b) = b"
proof (cases "b = []")
  case False
  then have "0 < unat (c_Size c)" using assms(3) by (metis length_greater_0_conv)
  then have "unat (c_Offset c) \<in> cell_range c" by (simp add: cell_range_def)
  with assms(1) have "unat (c_Offset c) \<le> 8192" by (meson lessThan_iff less_imp_le subsetD)
  with overwrite_read_same [of "unat (c_Offset c)" d b] assms(2,3) show ?thesis by (simp add: cell_bytes_def)
qed (use assms(3) in \<open>simp add: cell_bytes_def\<close>)

lemma cell_bytes_other:
  assumes "cell_range c \<inter> cell_range e = {}" "length b = unat (c_Size c)" "cell_range c \<subseteq> {..<8192}"
    "length d = 8192" "0 < unat (c_Size c)" "0 < unat (c_Size e)"
  shows "cell_bytes e (overwrite d (unat (c_Offset c)) b) = cell_bytes e d"
proof -
  note l = cell_range_end [OF assms(3,5)]
  have "unat (c_Offset e) + unat (c_Size e) \<le> unat (c_Offset c) \<or> unat (c_Offset c) + unat (c_Size c) \<le> unat (c_Offset e)"
    using assms(1,5,6) by (simp add: cell_range_def Int_atLeastLessThan) linarith
  then show ?thesis
    using l assms(2,4) overwrite_read_before [of "unat (c_Offset e)" "unat (c_Size e)" "unat (c_Offset c)" d b]
      overwrite_read_after [of "unat (c_Offset c)" b "unat (c_Offset e)" d]
    by (auto simp: cell_bytes_def)
qed

subsection \<open>Writing a cell through the client\<close>

lemma chunk_version_absent: "chunk_data s k = None \<Longrightarrow> chunk_version s k = 0"
  by (auto simp: chunk_data_def chunk_version_def)

lemma sys_okD:
  assumes "sys_ok E plog ids P w"
  shows "env_ok E plog ids" "fm_ok ids (w_master w)"
    and "w_nodes w a = Some s \<Longrightarrow> wf_server s"
    and "w_nodes w a = Some s \<Longrightarrow> k \<notin> ids (fm_db (w_master w)) \<Longrightarrow> chunk_data s k = None"
    and "x \<in> address ` set (dataNodes (fm_alloc (w_master w))) \<Longrightarrow> \<exists>s. w_nodes w (P @ x) = Some s"
    and "Opened (w_master w) n = Some f \<Longrightarrow> Chunks f k = Some ch \<Longrightarrow>
      \<exists>s. w_nodes w (P @ ch_DataNode ch) = Some s \<and> chunk_version s k = ch_Version ch"
    and "Opened (w_master w) n = Some f \<Longrightarrow> Cells f SheetMetaCellID = Some m \<Longrightarrow> c_Size m = 8192"
  using assms unfolding sys_ok_def fm_inv_def by blast+

text \<open>What the master's half of a write establishes.\<close>

definition grants ::
  "('db \<Rightarrow> u64 set) \<Rightarrow> string \<Rightarrow> ('db, 'k, 'j) world \<Rightarrow> string \<Rightarrow> SheetFile \<Rightarrow> u32 \<Rightarrow> u32 \<Rightarrow>
   ('db, 'k) FileManager \<Rightarrow> SheetFile \<Rightarrow> Cell \<Rightarrow> Chunk \<Rightarrow> 'j Server \<Rightarrow> bool" where
  "grants ids P w n s row col f' s' cell ch sn \<longleftrightarrow>
     granted s (GetCellID row col) s' cell ch \<and> sheet_ok s' \<and> fm_ok ids f' \<and>
     Opened f' = (Opened (w_master w))(n \<mapsto> s') \<and> Fds f' = Fds (w_master w) \<and>
     Entries f' = Entries (w_master w) \<and> nextFd f' = nextFd (w_master w) \<and>
     dataNodes (fm_alloc f') = dataNodes (fm_alloc (w_master w)) \<and>
     ids (fm_db f') = insert (c_ChunkID cell) (ids (fm_db (w_master w))) \<and>
     (\<forall>ch0. Chunks s (c_ChunkID cell) = Some ch0 \<longrightarrow> ch_DataNode ch = ch_DataNode ch0) \<and>
     (Chunks s (c_ChunkID cell) = None \<longrightarrow> c_ChunkID cell \<notin> ids (fm_db (w_master w))) \<and>
     w_nodes w (P @ ch_DataNode ch) = Some sn \<and>
     ch_Version ch = chunk_version sn (c_ChunkID cell) + 1 \<and>
     c_Size cell = cell_target row col"

lemma grant_ok:
  assumes ok: "sys_ok E plog ids P w" and room: "fm_room ids (w_master w)"
    and o: "Fds (w_master w) fd = Some n" "Opened (w_master w) n = Some s"
    and up: "dataNodes (fm_alloc (w_master w)) \<noteq> []"
  obtains f' s' cell ch sn where
    "WriteFileCell E (w_master w) fd row col = Some (f', Inr (cell, ch))" "grants ids P w n s row col f' s' cell ch sn"
proof -
  let ?f = "w_master w"
  note D = sys_okD [OF ok]
  from write_succeeds [OF D(1,2) room o, of row col] up obtain f' r where
    x: "WriteFileCell E ?f fd row col = Some (f', Inr r)" by blast
  then have "fm_exec E ?f (FmWrite fd row col) = (f', True)" by simp
  with D(1,2) room show ?thesis
  proof (cases rule: write_step)
    case (1 n' s0 s' cell ch)
    have s0: "n' = n" "s0 = s" "r = (cell, ch)" using 1(1,2,9) o x by auto
    obtain db' al' s1 where w: "WriteCellChunk (e_gorm E) (fm_db ?f) (fm_alloc ?f) s row col = Some (db', al', s1, Inr (cell, ch))"
      and fm: "fm_db f' = db'" "fm_alloc f' = al'" "Fds f' = Fds ?f" "Entries f' = Entries ?f" "nextFd f' = nextFd ?f"
      using x o s0 by (auto simp: WriteFileCell_def Let_def writeJournal_def split: option.splits prod.splits sum.splits)
    have G: "gorm_ok (e_gorm E) ids" "card (ids (fm_db ?f)) < 2 ^ 62"
      using D(1) room by (simp_all add: env_ok_def fm_room_def)
    note so = fm_okD(4) [OF D(2) o(2)] and sub = fm_okD(7) [OF D(2) o(2)]
    note p = write_placed [OF G so sub w]
    note gr = 1(3) [unfolded s0]
    have meta: "c_Size m = 8192" if "Cells s' SheetMetaCellID = Some m" for m
    proof -
      obtain m0 where "Cells s SheetMetaCellID = Some m0" using sheet_okD(4) [OF so] by blast
      with that gr D(7) [OF o(2)] show ?thesis by (auto simp: granted_def split: if_splits option.splits)
    qed
    have size: "c_Size cell = cell_target row col"
      using cell_size [OF 1(4) _ meta, of row col cell] gr by (simp add: granted_def)
    obtain sn where sn: "w_nodes w (P @ ch_DataNode ch) = Some sn" "ch_Version ch = chunk_version sn (c_ChunkID cell) + 1"
    proof (cases "Chunks s (c_ChunkID cell)")
      case None
      with p D(5) [of "ch_DataNode ch"] obtain sn where "w_nodes w (P @ ch_DataNode ch) = Some sn" by auto
      with None p D(4) gr that show ?thesis by (auto simp: granted_def version_of_def chunk_version_absent)
    next
      case (Some ch0)
      with p D(6) [OF o(2) Some] gr that show ?thesis by (auto simp: granted_def version_of_def)
    qed
    have "c_ChunkID cell \<in> ids (fm_db ?f)" if "Chunks s (c_ChunkID cell) \<noteq> None" using sub that by blast
    with gr 1(4,6,8) s0 fm p sn size have "grants ids P w n s row col f' s' cell ch sn"
      by (auto simp: grants_def split: option.splits)
    with x s0 show ?thesis using that by blast
  qed
qed

text \<open>The DataNode's half.\<close>

definition write_req :: "Cell \<Rightarrow> Chunk \<Rightarrow> byte list \<Rightarrow> u64 \<Rightarrow> string \<Rightarrow> WriteChunkRequest" where
  "write_req cell ch b T pad =
     \<lparr>wr_Id = c_ChunkID cell, wr_Offset = c_Offset cell, wr_Size = word_of_nat (length b), wr_TargetSize = T,
      wr_Version = ch_Version ch, wr_Padding = (if pad = [] then '' '' else pad), wr_Data = b\<rparr>"

definition pad_char :: "string \<Rightarrow> byte" where
  "pad_char pad = of_char (hd (if pad = [] then '' '' else pad))"

definition base_data :: "byte list option \<Rightarrow> byte \<Rightarrow> byte list" where
  "base_data d c = (case d of None \<Rightarrow> replicate 8192 c | Some x \<Rightarrow> x)"

definition padded :: "byte list \<Rightarrow> u64 \<Rightarrow> string \<Rightarrow> byte list" where
  "padded b T pad = pad_block b (length b) (unat T) (pad_char pad)"

lemma cell_target_cases: "cell_target row col = 2048 \<or> cell_target row col = 8192"
  by (simp add: cell_target_def layout_simps)

lemma write_req_sel:
  assumes "T = cell_target row col" "length b < 2 ^ 64"
  shows "target_len (write_req cell ch b T pad) = unat T" "block (write_req cell ch b T pad) = padded b T pad"
    "pad_byte (write_req cell ch b T pad) = pad_char pad"
    "wr_Id (write_req cell ch b T pad) = c_ChunkID cell" "wr_Version (write_req cell ch b T pad) = ch_Version ch"
    "wr_Offset (write_req cell ch b T pad) = c_Offset cell" "wr_Padding (write_req cell ch b T pad) \<noteq> []"
proof -
  show t: "target_len (write_req cell ch b T pad) = unat T"
    using cell_target_cases [of row col] assms(1) by (auto simp: target_len_def write_req_def TargetSizeWrapper_def)
  show p: "pad_byte (write_req cell ch b T pad) = pad_char pad"
    by (simp add: pad_byte_def write_req_def pad_char_def)
  have "unat (wr_Size (write_req cell ch b T pad)) = length b" "wr_Data (write_req cell ch b T pad) = b"
    using assms(2) by (simp_all add: write_req_def unat_of_nat64)
  then show "block (write_req cell ch b T pad) = padded b T pad"
    by (simp add: block_def t p padded_def)
qed (simp_all add: write_req_def)

lemma node_write:
  assumes ok: "sys_ok E plog ids P w" and K: "sure K" and b: "length b < 2 ^ 64"
    and g: "grants ids P w n s row col f' s' cell ch sn"
  obtains sn' where "WriteChunk no_faults K sn (write_req cell ch b (cell_target row col) pad) = Done sn' Status_OK"
    "wf_server sn'" "chunk_version sn' (c_ChunkID cell) = ch_Version ch"
    "chunk_data sn' (c_ChunkID cell) =
       Some (overwrite (base_data (chunk_data sn (c_ChunkID cell)) (pad_char pad))
               (unat (c_Offset cell)) (padded b (cell_target row col) pad))"
    "\<And>k. k \<noteq> c_ChunkID cell \<Longrightarrow> chunk_data sn' k = chunk_data sn k \<and> chunk_version sn' k = chunk_version sn k"
proof -
  let ?r = "write_req cell ch b (cell_target row col) pad"
  note rs = write_req_sel [OF refl b, where cell = cell and ch = ch and pad = pad]
  have wf: "wf_server sn" using g sys_okD(3) [OF ok, of "P @ ch_DataNode ch" sn] by (simp add: grants_def)
  have c: "Cells s' (GetCellID row col) = Some cell" "sheet_ok s'" using g by (simp_all add: grants_def granted_def)
  have "cell_range cell \<subseteq> {..<8192}" using cell_range_bound [OF c(2,1)] .
  moreover have "0 < unat (c_Size cell)" using g cell_target_cases [of row col] by (auto simp: grants_def)
  ultimately have lay: "layout_ok ?r"
    using rs(1,6,7) g cell_range_end [of cell] by (simp add: layout_ok_def grants_def)
  have v: "wr_Version ?r = chunk_version sn (wr_Id ?r) + 1" using g rs by (simp add: grants_def)
  from sure_put [OF K wf lay v] obtain sn' where
    sn': "WriteChunk no_faults K sn ?r = Done sn' Status_OK" "dn_put K sn ?r = (sn', True)" by blast
  show ?thesis
    using that [OF sn'(1) dn.put_wf [OF wf lay sn'(2)]] dn.put_accept [OF wf lay sn'(2)] dn.put_frame [OF wf lay sn'(2)] rs
    by (simp add: write_block_def base_data_def [symmetric])
qed

text \<open>The invariant after both halves.\<close>

lemma written_sys_ok:
  assumes ok: "sys_ok E plog ids P w" and o: "Opened (w_master w) n = Some s"
    and g: "grants ids P w n s row col f' s' cell ch sn"
    and sn': "wf_server sn'" "chunk_version sn' (c_ChunkID cell) = ch_Version ch"
      "\<And>k. k \<noteq> c_ChunkID cell \<Longrightarrow> chunk_data sn' k = chunk_data sn k \<and> chunk_version sn' k = chunk_version sn k"
  shows "sys_ok E plog ids P (w\<lparr>w_master := f', w_nodes := (w_nodes w)(P @ ch_DataNode ch \<mapsto> sn')\<rparr>)"
proof -
  note D = sys_okD [OF ok]
  let ?k = "c_ChunkID cell" and ?a = "P @ ch_DataNode ch"
  have gr: "granted s (GetCellID row col) s' cell ch" and op: "Opened f' = (Opened (w_master w))(n \<mapsto> s')"
    and sn: "w_nodes w ?a = Some sn" and ids: "ids (fm_db f') = insert ?k (ids (fm_db (w_master w)))"
    and dn: "dataNodes (fm_alloc f') = dataNodes (fm_alloc (w_master w))" and fo: "fm_ok ids f'"
    using g by (simp_all add: grants_def)
  have inv: "fm_inv E plog ids f'" using D(1) fo by (simp add: fm_inv_def)
  have absent: "chunk_data sn' k = None" if "k \<notin> ids (fm_db f')" for k
    using that ids sn'(3) [of k] D(4) [OF sn, of k] by auto
  have other: "k \<noteq> ?k" if "Opened (w_master w) m = Some f" "Chunks f k = Some c" "m \<noteq> n" for m f k c
  proof
    assume "k = ?k"
    have "dom (Chunks f) \<inter> dom (Chunks s') = {}"
      using fo op that(1,3) unfolding fm_ok_def by (metis fun_upd_apply)
    moreover have "?k \<in> dom (Chunks s')" using gr by (simp add: granted_def)
    ultimately show False using that(2) \<open>k = ?k\<close> by blast
  qed
  have vers: "\<exists>s. ((w_nodes w)(?a \<mapsto> sn')) (P @ ch_DataNode c) = Some s \<and> chunk_version s k = ch_Version c"
    if f: "Opened f' m = Some f" "Chunks f k = Some c" for m f k c
  proof (cases "m = n \<and> k = ?k")
    case True
    with f op gr sn'(2) show ?thesis by (simp add: granted_def)
  next
    case False
    obtain f0 where f0: "Opened (w_master w) m = Some f0" "Chunks f0 k = Some c" "k \<noteq> ?k"
      using False f op gr o other by (auto simp: granted_def split: if_splits)
    from D(6) [OF f0(1,2)] obtain s0 where "w_nodes w (P @ ch_DataNode c) = Some s0" "chunk_version s0 k = ch_Version c" by blast
    with sn sn'(3) [OF f0(3)] show ?thesis by auto
  qed
  have meta: "c_Size m = 8192" if "Opened f' x = Some f" "Cells f SheetMetaCellID = Some m" for x f m
  proof (cases "x = n")
    case True
    obtain m0 where "Cells s SheetMetaCellID = Some m0" "c_Size m0 = 8192"
      using sheet_okD(4) [OF fm_okD(4) [OF D(2) o]] D(7) [OF o] by blast
    with that True op gr show ?thesis by (auto simp: granted_def split: if_splits option.splits)
  next
    case False
    with that op D(7) [of x f m] show ?thesis by simp
  qed
  have nodes: "\<forall>a s. ((w_nodes w)(?a \<mapsto> sn')) a = Some s \<longrightarrow>
      wf_server s \<and> (\<forall>k. k \<notin> ids (fm_db f') \<longrightarrow> chunk_data s k = None)"
    using absent sn'(1) D(3,4) ids by (auto split: if_splits)
  have up: "\<forall>x\<in>set (dataNodes (fm_alloc f')). ((w_nodes w)(?a \<mapsto> sn')) (P @ address x) \<noteq> None"
    using D(5) dn by auto
  have sel: "w_master (w\<lparr>w_master := f', w_nodes := N\<rparr>) = f'" "w_nodes (w\<lparr>w_master := f', w_nodes := N\<rparr>) = N" for N
    by simp_all
  show ?thesis
    unfolding sys_ok_def sel using inv nodes up vers meta by blast
qed

text \<open>The content after both halves.\<close>

lemma written_content:
  assumes ok: "sys_ok E plog ids P w" and o: "Opened (w_master w) n = Some s"
    and g: "grants ids P w n s row col f' s' cell ch sn"
    and d: "chunk_data sn' (c_ChunkID cell) =
       Some (overwrite (base_data (chunk_data sn (c_ChunkID cell)) p) (unat (c_Offset cell)) b)" "length b = unat (c_Size cell)"
      "\<And>k. k \<noteq> c_ChunkID cell \<Longrightarrow> chunk_data sn' k = chunk_data sn k \<and> chunk_version sn' k = chunk_version sn k"
    and w': "w' = w\<lparr>w_master := f', w_nodes := (w_nodes w)(P @ ch_DataNode ch \<mapsto> sn')\<rparr>"
  shows "content P w' n (GetCellID row col) = Some b"
    and "(m, j) \<noteq> (n, GetCellID row col) \<Longrightarrow> content P w m j = Some x \<Longrightarrow> content P w' m j = Some x"
proof -
  note D = sys_okD [OF ok]
  let ?k = "c_ChunkID cell" and ?a = "P @ ch_DataNode ch"
  have gr: "granted s (GetCellID row col) s' cell ch" and op: "Opened f' = (Opened (w_master w))(n \<mapsto> s')"
    and sn: "w_nodes w ?a = Some sn" and so: "sheet_ok s'" and fo: "fm_ok ids f'"
    and node: "\<And>ch0. Chunks s ?k = Some ch0 \<Longrightarrow> ch_DataNode ch = ch_DataNode ch0"
    using g by (simp_all add: grants_def)
  have c: "Cells s' (GetCellID row col) = Some cell" "Chunks s' ?k = Some ch" using gr by (simp_all add: granted_def)
  note range = cell_range_bound [OF so c(1)]
  have len: "length (base_data (chunk_data sn ?k) p) = 8192"
    using length_chunk_data [OF D(3) [OF sn]] by (auto simp: base_data_def split: option.splits)
  show "content P w' n (GetCellID row col) = Some b"
    using cell_bytes_same [OF range len d(2)] by (simp add: content_def w' op c d(1))
  assume mj: "(m, j) \<noteq> (n, GetCellID row col)" and "content P w m j = Some x"
  then obtain f e c1 s1 y where f: "Opened (w_master w) m = Some f" "Cells f j = Some e" "Chunks f (c_ChunkID e) = Some c1"
    "w_nodes w (P @ ch_DataNode c1) = Some s1" "chunk_data s1 (c_ChunkID e) = Some y" "x = cell_bytes e y"
    by (auto simp: content_def bind_eq_Some_conv)
  have upd: "Cells s' = (Cells s)(GetCellID row col \<mapsto> cell)" "Chunks s' = (Chunks s)(?k \<mapsto> ch)"
    using gr by (simp_all add: granted_def)
  have "\<exists>f1. Opened f' m = Some f1 \<and> Cells f1 j = Some e \<and> (m = n \<longrightarrow> f1 = s')"
    using f(1,2) op upd(1) mj o by (cases "m = n") auto
  then obtain f1 where f1: "Opened f' m = Some f1" "Cells f1 j = Some e" "m = n \<Longrightarrow> f1 = s'" by blast
  show "content P w' m j = Some x"
  proof (cases "c_ChunkID e = ?k")
    case True
    have mn: "m = n"
    proof (rule ccontr)
      assume "m \<noteq> n"
      then have "dom (Chunks f) \<inter> dom (Chunks s') = {}" using fo op f(1) unfolding fm_ok_def by (metis fun_upd_apply)
      with f(3) c(2) True show False by auto
    qed
    with f(1,3) o True have "ch_DataNode c1 = ch_DataNode ch" using node by simp
    with f(4) sn have s1: "s1 = sn" by simp
    have "cell_range cell \<inter> cell_range e = {}"
      using cells_disjoint_ok [OF so c(1), of j e] f1 mn mj True by auto
    moreover have "0 < unat (c_Size cell)" "0 < unat (c_Size e)"
      using cell_pos [OF so c(1)] cell_pos [OF so] f1 mn by auto
    ultimately have "cell_bytes e (overwrite y (unat (c_Offset cell)) b) = cell_bytes e y"
      using cell_bytes_other [OF _ d(2) range] length_chunk_data [OF D(3) [OF sn]] f(5) s1 True by auto
    with f1 mn c(2) True f(5,6) s1 d(1) show ?thesis by (simp add: content_def w' base_data_def)
  next
    case False
    have "Chunks f1 (c_ChunkID e) = Some c1"
      using f1 f(1,3) op upd(2) o False by (cases "m = n") simp_all
    moreover have "\<exists>s2. ((w_nodes w)(?a \<mapsto> sn')) (P @ ch_DataNode c1) = Some s2 \<and> chunk_data s2 (c_ChunkID e) = Some y"
      using f(4,5) sn d(3) [OF False] by (cases "ch_DataNode c1 = ch_DataNode ch") simp_all
    ultimately show ?thesis using f1(1,2) f(6) by (auto simp: content_def w')
  qed
qed

subsection \<open>Creating a sheet through the client\<close>

lemma create_ok:
  assumes ok: "sys_ok E plog ids P w" and room: "fm_room ids (w_master w)"
    and n: "Entries (w_master w) n = None" and up: "dataNodes (fm_alloc (w_master w)) \<noteq> []"
  obtains f' s m ch fd where "CreateSheet E (w_master w) n = Some (f', Inr fd)" "fm_ok ids f'"
    "Opened f' = (Opened (w_master w))(n \<mapsto> s)" "Cells s = [SheetMetaCellID \<mapsto> m]" "Chunks s = [ch_ID ch \<mapsto> ch]"
    "c_Size m = 8192" "ch_Version ch = 0" "Fds f' = (Fds (w_master w))(fd \<mapsto> n)"
    "ch_DataNode ch \<in> address ` set (dataNodes (fm_alloc f'))"
    "dataNodes (fm_alloc f') = dataNodes (fm_alloc (w_master w))" "ch_ID ch \<notin> ids (fm_db (w_master w))"
    "ids (fm_db f') = insert (ch_ID ch) (ids (fm_db (w_master w)))"
proof -
  let ?f = "w_master w"
  note D = sys_okD [OF ok]
  have G: "gorm_ok (e_gorm E) ids" using D(1) by (simp add: env_ok_def)
  obtain wj where wj: "journalWriter ?f = Some wj" using fm_okD(3) [OF D(2)] by blast
  from fm_okD(1) [OF D(2)] show ?thesis
  proof (cases rule: CreateSheetFile_cases [where G = "e_gorm E" and db = "fm_db ?f" and n = n])
    case (created db' al' s m ch)
    let ?f1 = "?f\<lparr>fm_db := db', fm_alloc := al'\<rparr>"
    from writeJournal_ok [OF D(1), of ?f1 wj "cell_entry m ch (Some (FromMgrEntry (new_entry n)))"] wj obtain w' k' where
      "writeJournal E ?f1 (cell_entry m ch (Some (FromMgrEntry (new_entry n)))) =
        (?f1\<lparr>journalWriter := Some w', fm_broker := k'\<rparr>, None)" by auto
    with n created(1) obtain f' fd where
      c: "CreateSheet E ?f n = Some (f', Inr fd)" "fm_alloc f' = al'" "fm_db f' = db'" "Opened f' n = Some s"
      by (simp add: CreateSheet_def domIff cell_entry_def new_entry_def allocFd_def Let_def)
    from created(11) obtain db1 c0 where c0: "ch_ID c0 = 0"
      "CreateCellTableIfNotExists (e_gorm E) (fm_db ?f) n = (db1, True)" "g_put_chunk (e_gorm E) db1 c0 = (db', ch_ID ch)"
      by blast
    have i1: "ids db1 = ids (fm_db ?f)" using CreateCellTable_ok(2) [OF G c0(2)] .
    with put_chunk_ok [OF G c0(1) _ c0(3)] room have
      i: "ch_ID ch \<notin> ids (fm_db ?f)" "ids db' = insert (ch_ID ch) (ids (fm_db ?f))" by (simp_all add: fm_room_def)
    from created(1) obtain g where a: "AllocateNode (fm_alloc ?f) = Some (al', Inr g)" "ch_DataNode ch = g"
      by (auto simp: CreateSheetFile_def Chunk_Persistent_def Let_def split: option.splits sum.splits prod.splits bool.splits)
    have "fm_exec E ?f (FmCreate n) = (f', True)" using c by simp
    with D(1,2) room show ?thesis
    proof (cases rule: create_step)
      case (1 s2 m2 ch2)
      have "s2 = s" "fd = nextFd ?f" using 1(9,12) c(1,4) by simp_all
      with 1(9,11,13) c i a alloc_node [OF a(1)] created(4-7) show ?thesis
        by (intro that [of f' fd s m ch]) (simp_all add: NewCell_def)
    qed
  next
    case (failed db' e)
    with up CreateCellTable_ok(1) [OF G] show ?thesis by (cases "CreateCellTableIfNotExists (e_gorm E) (fm_db ?f) n") auto
  qed
qed

end
