(* ===== verification/SystemProps.thy ===== *)
theory SystemProps
  imports System
begin

text \<open>
  What a client of the file system sees: creating a sheet, writing a cell and reading a cell, from the
  client library through the master to the DataNode.
\<close>

subsection \<open>The operations through all components\<close>

lemma create_through:
  assumes ok: "sys_ok E plog ids P w" and room: "fm_room ids (w_master w)"
    and n: "\<not> bad_name n" "Entries (w_master w) n = None" and up: "dataNodes (fm_alloc (w_master w)) \<noteq> []"
  shows "\<exists>w' fl. Create (direct_net E K ord) n w c = (w', c, Inr fl) \<and>
     CreateSheet E (w_master w) n = Some (w_master w', Inr (f_fd fl)) \<and> sys_ok E plog ids P w' \<and>
     Fds (w_master w') = (Fds (w_master w))(f_fd fl \<mapsto> n) \<and> f_filename fl = n \<and>
     (\<forall>m i. m \<noteq> n \<longrightarrow> content P w' m i = content P w m i) \<and> (\<forall>i. content P w' n i = None)"
proof -
  note D = sys_okD [OF ok]
  from create_ok [OF ok room n(2) up] obtain f' s m ch fd where
    c: "CreateSheet E (w_master w) n = Some (f', Inr fd)" "fm_ok ids f'" "Opened f' = (Opened (w_master w))(n \<mapsto> s)"
      "Cells s = [SheetMetaCellID \<mapsto> m]" "Chunks s = [ch_ID ch \<mapsto> ch]" "c_Size m = 8192" "ch_Version ch = 0"
      "Fds f' = (Fds (w_master w))(fd \<mapsto> n)" "ch_DataNode ch \<in> address ` set (dataNodes (fm_alloc f'))"
      "dataNodes (fm_alloc f') = dataNodes (fm_alloc (w_master w))" "ch_ID ch \<notin> ids (fm_db (w_master w))"
      "ids (fm_db f') = insert (ch_ID ch) (ids (fm_db (w_master w)))" .
  let ?w = "w\<lparr>w_master := f'\<rparr>"
  have "Create (direct_net E K ord) n w c = (?w, c, Inr (newFile fd n))"
  proof -
    have "rpc_CreateSheet (direct_net E K ord) w conn n = (?w, Inr (Status_OK, fd))" for conn
      using c(1) by (simp add: direct_net_def to_master_def Server_CreateSheet_def)
    from direct_master [where call = "\<lambda>w conn. rpc_CreateSheet (direct_net E K ord) w conn n", OF this] n(1) show ?thesis by (simp add: Create_def)
  qed
  moreover have "sys_ok E plog ids P ?w"
  proof -
    have nodes: "\<forall>a s. w_nodes w a = Some s \<longrightarrow> wf_server s \<and> (\<forall>k. k \<notin> ids (fm_db f') \<longrightarrow> chunk_data s k = None)"
      using D(3,4) c(12) by blast
    have vers: "\<exists>s0. w_nodes w (P @ ch_DataNode d) = Some s0 \<and> chunk_version s0 k = ch_Version d"
      if "Opened f' x = Some f" "Chunks f k = Some d" for x f k d
    proof (cases "x = n")
      case True
      with that c(3,5) have d: "k = ch_ID ch" "d = ch" by (auto split: if_splits)
      obtain s0 where s0: "w_nodes w (P @ ch_DataNode ch) = Some s0" using D(5) c(9,10) by auto
      with D(4) [OF s0 c(11)] d c(7) show ?thesis by (simp add: chunk_version_absent)
    next
      case False
      with that c(3) D(6) [of x f k d] show ?thesis by simp
    qed
    have up': "\<forall>x\<in>set (dataNodes (fm_alloc f')). w_nodes w (P @ address x) \<noteq> None" using D(5) c(10) by auto
    have meta: "c_Size y = 8192" if "Opened f' x = Some f" "Cells f SheetMetaCellID = Some y" for x f y
      using that c(3,4,6) D(7) [of x f y] by (auto split: if_splits)
    have sel: "w_master ?w = f'" "w_nodes ?w = w_nodes w" by simp_all
    have inv: "fm_inv E plog ids f'" using D(1) c(2) by (simp add: fm_inv_def)
    show ?thesis unfolding sys_ok_def sel using inv nodes up' vers meta by blast
  qed
  moreover have "content P ?w n i = None" for i
  proof -
    obtain s0 where s0: "w_nodes w (P @ ch_DataNode ch) = Some s0" using D(5) c(9,10) by auto
    have "fm_ok ids f'" "Opened f' n = Some s" using c by simp_all
    then have "sheet_ok s" using fm_okD(4) by blast
    from sheet_okD(2) [OF this, of SheetMetaCellID m] c(4,5) have "c_ChunkID m = ch_ID ch"
      by (auto simp: cell_ok_def split: if_splits)
    with s0 D(4) [OF s0 c(11)] c(3,4,5) show ?thesis by (simp add: content_def)
  qed
  moreover have "content P ?w x i = content P w x i" if "x \<noteq> n" for x i
    using that c(3) by (simp add: content_def)
  ultimately show ?thesis using c(1,8) by (auto simp: newFile_def)
qed

text \<open>A write is a grant of the master followed by a write of the chunk; \<open>written\<close> relates the two halves.\<close>

definition written ::
  "('db \<Rightarrow> u64 set) \<Rightarrow> string \<Rightarrow> ('db, 'k, 'j) world \<Rightarrow> string \<Rightarrow> u32 \<Rightarrow> u32 \<Rightarrow> byte list \<Rightarrow> string \<Rightarrow> ('db, 'k, 'j) world \<Rightarrow> bool" where
  "written ids P w n row col b pad w' \<longleftrightarrow> (\<exists>s f' s' cell ch sn sn'.
     Opened (w_master w) n = Some s \<and> grants ids P w n s row col f' s' cell ch sn \<and>
     w' = w\<lparr>w_master := f', w_nodes := (w_nodes w)(P @ ch_DataNode ch \<mapsto> sn')\<rparr> \<and>
     wf_server sn' \<and> chunk_version sn' (c_ChunkID cell) = ch_Version ch \<and>
     chunk_data sn' (c_ChunkID cell) =
       Some (overwrite (base_data (chunk_data sn (c_ChunkID cell)) (pad_char pad)) (unat (c_Offset cell))
         (padded b (cell_target row col) pad)) \<and>
     (\<forall>k. k \<noteq> c_ChunkID cell \<longrightarrow> chunk_data sn' k = chunk_data sn k \<and> chunk_version sn' k = chunk_version sn k))"

lemma write_halves:
  assumes ok: "sys_ok E plog ids P w" and K: "sure K" and room: "fm_room ids (w_master w)"
    and o: "Fds (w_master w) (f_fd fl) = Some n" and up: "dataNodes (fm_alloc (w_master w)) \<noteq> []"
    and c: "client_ok c" "DataNodeZnodePrefix (cfg c) = P" and b: "length b < 2 ^ 64"
  shows "\<exists>w' c'. File_WriteAt (direct_net E K ord) fl b row col pad w c = Some (Done (w', c') (int (length b), None)) \<and>
     client_ok c' \<and> cfg c' = cfg c \<and> written ids P w n row col b pad w'"
proof -
  let ?N = "direct_net E K ord"
  note D = sys_okD [OF ok]
  obtain s where s: "Opened (w_master w) n = Some s" using fm_okD(9) [OF D(2) o] by blast
  obtain f' s' cell ch sn where
    g: "WriteFileCell E (w_master w) (f_fd fl) row col = Some (f', Inr (cell, ch))" "grants ids P w n s row col f' s' cell ch sn"
    by (rule grant_ok [OF ok room o s up])
  obtain sn' where
    sn': "WriteChunk no_faults K sn (write_req cell ch b (cell_target row col) pad) = Done sn' Status_OK" "wf_server sn'"
      "chunk_version sn' (c_ChunkID cell) = ch_Version ch"
      "chunk_data sn' (c_ChunkID cell) =
         Some (overwrite (base_data (chunk_data sn (c_ChunkID cell)) (pad_char pad)) (unat (c_Offset cell))
           (padded b (cell_target row col) pad))"
      "\<And>k. k \<noteq> c_ChunkID cell \<Longrightarrow> chunk_data sn' k = chunk_data sn k \<and> chunk_version sn' k = chunk_version sn k"
    by (rule node_write [OF ok K b g(2), of pad]) blast
  let ?w1 = "w\<lparr>w_master := f'\<rparr>" and ?a = "P @ ch_DataNode ch"
  let ?w2 = "w\<lparr>w_master := f', w_nodes := (w_nodes w)(?a \<mapsto> sn')\<rparr>"
  let ?l = "\<lparr>pl_Chunk = (pb_chunk ch)\<lparr>pc_HoldsMeta := False\<rparr>, pl_Offset = c_Offset cell, pl_Size = c_Size cell\<rparr>"
  have id: "ch_ID ch = c_ChunkID cell" "w_nodes w ?a = Some sn" using g(2) by (simp_all add: grants_def granted_def)
  have m: "rpc_WriteCell ?N w conn (f_fd fl, row, col) = (?w1, Inr (Status_OK, Some ?l))" for conn
    using g(1) by (simp add: direct_net_def to_master_def WriteCell_def)
  from direct_check [OF c(1), of E K ord ?w1 "pl_Chunk ?l"] obtain c' d where
    c': "checkNewDataNode ?N ?w1 c [pl_Chunk ?l] = (?w1, c', None)" "client_ok c'" "cfg c' = cfg c"
      "datanodeMap c' (ch_DataNode ch) = Some d" "dn_c d = ?a"
    using c(2) by (auto simp: pb_chunk_def)
  have req: "\<lparr>wr_Id = pc_Id (pl_Chunk ?l), wr_Offset = pl_Offset ?l, wr_Size = word_of_nat (length b),
      wr_TargetSize = cell_target row col, wr_Version = pc_Version (pl_Chunk ?l),
      wr_Padding = (if pad = [] then '' '' else pad), wr_Data = b\<rparr> = write_req cell ch b (cell_target row col) pad"
    by (simp add: write_req_def pb_chunk_def id)
  have "rpc_WriteChunk ?N ?w1 ?a (write_req cell ch b (cell_target row col) pad) = (?w2, Inr Status_OK)"
    using sn'(1) id(2) by (simp add: direct_net_def to_node_def)
  then have "concurrentWriteChunk ?N (pl_Chunk ?l) (write_req cell ch b (cell_target row col) pad) (?w1, c') =
      Done (?w2, c') (Inr Status_OK)"
    unfolding concurrentWriteChunk_def using c'(4,5) by (intro direct_node [of _ _ d]) (simp_all add: pb_chunk_def)
  moreover have "\<not> ctx_Done ?N x" for x by (simp add: direct_net_def)
  ultimately have sp: "spin (\<lambda>st. ctx_Done ?N (fst st))
      (concurrentWriteChunk ?N (pl_Chunk ?l) (write_req cell ch b (cell_target row col) pad))
      (\<lambda>r. r = Status_WrongVersion) (?w1, c') = Some (Done (?w2, c') (Inr Status_OK))"
    by (intro spin_once) simp_all
  have "File_WriteAt ?N fl b row col pad w c = Some (Done (?w2, c') (int (length b), None))"
    unfolding File_WriteAt_def direct_master [where call = "\<lambda>w conn. rpc_WriteCell ?N w conn (f_fd fl, row, col)", OF m]
      prod.case sum.case option.case c'(1) Let_def req sp by simp
  moreover have "written ids P w n row col b pad ?w2"
    unfolding written_def using s g(2) sn'(2-5) by blast
  ultimately show ?thesis using c'(2,3) by blast
qed

lemma writtenD:
  assumes ok: "sys_ok E plog ids P w" and w: "written ids P w n row col b pad w'"
  shows "sys_ok E plog ids P w'" "Fds (w_master w') = Fds (w_master w)" "Entries (w_master w') = Entries (w_master w)"
    "nextFd (w_master w') = nextFd (w_master w)" "dataNodes (fm_alloc (w_master w')) = dataNodes (fm_alloc (w_master w))"
    "\<exists>k. ids (fm_db (w_master w')) = insert k (ids (fm_db (w_master w)))"
    "content P w' n (GetCellID row col) = Some (padded b (cell_target row col) pad)"
    "(m, j) \<noteq> (n, GetCellID row col) \<Longrightarrow> content P w m j = Some x \<Longrightarrow> content P w' m j = Some x"
proof -
  from w obtain s f' s' cell ch sn sn' where o: "Opened (w_master w) n = Some s"
    and g: "grants ids P w n s row col f' s' cell ch sn"
    and w': "w' = w\<lparr>w_master := f', w_nodes := (w_nodes w)(P @ ch_DataNode ch \<mapsto> sn')\<rparr>"
    and sn': "wf_server sn'" "chunk_version sn' (c_ChunkID cell) = ch_Version ch"
      "chunk_data sn' (c_ChunkID cell) =
         Some (overwrite (base_data (chunk_data sn (c_ChunkID cell)) (pad_char pad)) (unat (c_Offset cell))
           (padded b (cell_target row col) pad))"
      "\<And>k. k \<noteq> c_ChunkID cell \<Longrightarrow> chunk_data sn' k = chunk_data sn k \<and> chunk_version sn' k = chunk_version sn k"
    unfolding written_def by blast
  have len: "length (padded b (cell_target row col) pad) = unat (c_Size cell)"
    using g by (simp add: padded_def grants_def)
  show "sys_ok E plog ids P w'" unfolding w' by (rule written_sys_ok [OF ok o g sn'(1,2,4)])
  show "Fds (w_master w') = Fds (w_master w)" "Entries (w_master w') = Entries (w_master w)"
    "nextFd (w_master w') = nextFd (w_master w)" "dataNodes (fm_alloc (w_master w')) = dataNodes (fm_alloc (w_master w))"
    "\<exists>k. ids (fm_db (w_master w')) = insert k (ids (fm_db (w_master w)))"
    using g by (auto simp: w' grants_def)
  show "content P w' n (GetCellID row col) = Some (padded b (cell_target row col) pad)"
    by (rule written_content(1) [OF ok o g sn'(3) len sn'(4) w'])
  show "(m, j) \<noteq> (n, GetCellID row col) \<Longrightarrow> content P w m j = Some x \<Longrightarrow> content P w' m j = Some x"
    by (rule written_content(2) [OF ok o g sn'(3) len sn'(4) w'])
qed

lemma write_through:
  assumes ok: "sys_ok E plog ids P w" and K: "sure K" and room: "fm_room ids (w_master w)"
    and o: "Fds (w_master w) (f_fd fl) = Some n" and up: "dataNodes (fm_alloc (w_master w)) \<noteq> []"
    and c: "client_ok c" "DataNodeZnodePrefix (cfg c) = P" and b: "length b < 2 ^ 64"
  shows "\<exists>w' c'. File_WriteAt (direct_net E K ord) fl b row col pad w c = Some (Done (w', c') (int (length b), None)) \<and>
     sys_ok E plog ids P w' \<and> client_ok c' \<and> cfg c' = cfg c \<and> Fds (w_master w') = Fds (w_master w) \<and>
     content P w' n (GetCellID row col) = Some (padded b (cell_target row col) pad) \<and>
     (\<forall>m j x. (m, j) \<noteq> (n, GetCellID row col) \<longrightarrow> content P w m j = Some x \<longrightarrow> content P w' m j = Some x)"
proof -
  from write_halves [OF assms, of ord row col pad] obtain w' c' where
    x: "File_WriteAt (direct_net E K ord) fl b row col pad w c = Some (Done (w', c') (int (length b), None))"
      "client_ok c'" "cfg c' = cfg c" and w: "written ids P w n row col b pad w'" by blast
  from x writtenD [OF ok w] show ?thesis by blast
qed

lemma read_through:
  assumes ok: "sys_ok E plog ids P w" and o: "Fds (w_master w) (f_fd fl) = Some n"
    and c: "client_ok c" "DataNodeZnodePrefix (cfg c) = P" and d: "content P w n (GetCellID row col) = Some d"
  shows "\<exists>c'. File_ReadAt (direct_net E K ord) fl buf row col w c = Some (Done (w, c') (go_copy buf d, int (length d), None)) \<and>
     client_ok c' \<and> cfg c' = cfg c"
proof -
  let ?N = "direct_net E K ord"
  note D = sys_okD [OF ok]
  from d obtain s cell ch sn y where s: "Opened (w_master w) n = Some s" "Cells s (GetCellID row col) = Some cell"
    "Chunks s (c_ChunkID cell) = Some ch" "w_nodes w (P @ ch_DataNode ch) = Some sn"
    "chunk_data sn (c_ChunkID cell) = Some y" "d = cell_bytes cell y"
    by (auto simp: content_def bind_eq_Some_conv)
  note so = fm_okD(4) [OF D(2) s(1)]
  have id: "ch_ID ch = c_ChunkID cell" using sheet_okD(1) [OF so s(3)] by (simp add: chunk_ok_def)
  have v: "chunk_version sn (c_ChunkID cell) = ch_Version ch" using D(6) [OF s(1,3)] s(4) by auto
  have rg: "unat (c_Offset cell) + unat (c_Size cell) \<le> 8192"
    using cell_range_end [OF cell_range_bound [OF so s(2)] cell_pos [OF so s(2)]] .
  have len: "length d = unat (c_Size cell)" "sint (c_Size cell) = int (length d)"
    using rg length_chunk_data [OF D(3) [OF s(4)] s(5)] cell_size [OF so s(2) D(7) [OF s(1)]] cell_target_cases [of row col]
    by (auto simp: s(6) cell_bytes_def)
  let ?l = "\<lparr>pl_Chunk = pb_chunk ch, pl_Offset = c_Offset cell, pl_Size = c_Size cell\<rparr>"
  let ?q = "\<lparr>rd_Id = pc_Id (pl_Chunk ?l), rd_Offset = pl_Offset ?l, rd_Size = pl_Size ?l, rd_Version = pc_Version (pl_Chunk ?l)\<rparr>"
  have m: "rpc_ReadCell ?N w conn (f_fd fl, row, col) = (w, Inr (Status_OK, Some ?l))" for conn
    using o s by (simp add: direct_net_def to_master_def ReadCell_def ReadFileCell_def getFileByFd_def GetCellChunk_def)
  from direct_check [OF c(1), of E K ord w "pl_Chunk ?l"] obtain c' e where
    c': "checkNewDataNode ?N w c [pl_Chunk ?l] = (w, c', None)" "client_ok c'" "cfg c' = cfg c"
      "datanodeMap c' (ch_DataNode ch) = Some e" "dn_c e = P @ ch_DataNode ch"
    using c(2) by (auto simp: pb_chunk_def)
  have "ReadChunk no_faults sn ?q = Some (Status_OK, d)"
    using ReadChunk_eq [OF D(3) [OF s(4)], of ?q] rg s(5,6) v by (simp add: pb_chunk_def id cell_bytes_def)
  then have "rpc_ReadChunk ?N w (P @ ch_DataNode ch) ?q = (w, Inr (Status_OK, d))"
    using s(4) by (simp add: direct_net_def to_node_def fun_upd_idem)
  then have "concurrentReadChunk ?N (pl_Chunk ?l) ?q (w, c') = Done (w, c') (Inr (Status_OK, d))"
    unfolding concurrentReadChunk_def using c'(4,5) by (intro direct_node [of _ _ e]) (simp_all add: pb_chunk_def)
  moreover have "\<not> ctx_Done ?N x" for x by (simp add: direct_net_def)
  ultimately have sp: "spin (\<lambda>st. ctx_Done ?N (fst st)) (concurrentReadChunk ?N (pl_Chunk ?l) ?q)
      (\<lambda>r. fst r = Status_WrongVersion) (w, c') = Some (Done (w, c') (Inr (Status_OK, d)))"
    by (intro spin_once) simp_all
  have "File_ReadAt ?N fl buf row col w c = Some (Done (w, c') (go_copy buf d, int (length d), None))"
    unfolding File_ReadAt_def direct_master [where call = "\<lambda>w conn. rpc_ReadCell ?N w conn (f_fd fl, row, col)", OF m]
      prod.case sum.case option.case c'(1) Let_def sp by (simp add: len(2))
  with c'(2,3) show ?thesis by blast
qed

subsection \<open>A system to evaluate the properties at\<close>

definition wit_node :: "(string \<times> byte list) list Server" where
  "wit_node = NewServer ''data'' Map.empty
     \<lparr>lastWriteOffset = 0, entriesKey = ''t-entries'', checkpointsKey = ''t-ckpts''\<rparr> []"

definition wit_world :: "(mem_db, (string \<times> byte list) list, (string \<times> byte list) list) world" where
  "wit_world = \<lparr>w_master = wit_fm, w_nodes = [''/d_g0'' \<mapsto> wit_node, ''/d_g1'' \<mapsto> wit_node]\<rparr>"

definition wit_client :: "string Client" where
  "wit_client = \<lparr>cfg = \<lparr>MasterZnode = ''/m'', DataNodeZnodePrefix = ''/d_'', MaxRetry = 3\<rparr>,
     cl_master = \<lparr>mn_c = ''/m'', mn_version = 0\<rparr>, datanodeMap = Map.empty\<rparr>"

lemma wit_client_ok: "client_ok wit_client" "DataNodeZnodePrefix (cfg wit_client) = ''/d_''"
  by (simp_all add: wit_client_def client_ok_def)

lemma wit_sure: "sure sure_kafka"
  by (simp add: sure_def sure_kafka_def)

lemma wit_world_sel: "w_master wit_world = wit_fm" "dataNodes (fm_alloc wit_fm) \<noteq> []"
  by (simp_all add: wit_world_def wit_fm_sel NewDataNodeAllocatorWithGroups_eq)

lemma wit_world_ok: "sys_ok mem_env (\<lambda>l. l) mem_ids ''/d_'' wit_world"
proof -
  have "wf_server wit_node" "chunk_data wit_node k = None" for k
    by (simp_all add: wit_node_def NewServer_def wf_server_def chunk_data_def)
  with wit_fm_inv show ?thesis
    by (auto simp: sys_ok_def wit_world_def wit_fm_sel NewDataNodeAllocatorWithGroups_eq split: if_splits)
qed

text \<open>The system after the sheet \<open>s\<close> was created.\<close>

lemma wit_created:
  "\<exists>w fl. Create (direct_net mem_env sure_kafka (\<lambda>_ _. [])) ''s'' wit_world wit_client = (w, wit_client, Inr fl) \<and>
     sys_ok mem_env (\<lambda>l. l) mem_ids ''/d_'' w \<and> fm_room mem_ids (w_master w) \<and>
     Fds (w_master w) (f_fd fl) = Some ''s'' \<and> dataNodes (fm_alloc (w_master w)) \<noteq> []"
proof -
  have r: "fm_room mem_ids (w_master wit_world)" "\<not> bad_name ''s''" "Entries (w_master wit_world) ''s'' = None"
    "dataNodes (fm_alloc (w_master wit_world)) \<noteq> []"
    using wit_fm_room wit_world_sel by (simp_all add: bad_name_def wit_fm_sel(1))
  from create_through [OF wit_world_ok r, where K = sure_kafka and ord = "\<lambda>_ _. []" and c = wit_client] obtain w fl where
    c: "Create (direct_net mem_env sure_kafka (\<lambda>_ _. [])) ''s'' wit_world wit_client = (w, wit_client, Inr fl)"
      "CreateSheet mem_env wit_fm ''s'' = Some (w_master w, Inr (f_fd fl))"
      "sys_ok mem_env (\<lambda>l. l) mem_ids ''/d_'' w" "Fds (w_master w) = (Fds wit_fm)(f_fd fl \<mapsto> ''s'')"
    by (auto simp: wit_world_sel)
  from c(2) have x: "fm_exec mem_env wit_fm (FmCreate ''s'') = (w_master w, True)" by simp
  with wit_create_fm have "fm_room mem_ids (w_master w)" by auto
  moreover have "dataNodes (fm_alloc (w_master w)) \<noteq> []"
    using create_ok [OF wit_world_ok r(1,3,4)] c(2) by (metis option.inject prod.inject r(4) wit_world_sel(1))
  ultimately show ?thesis using c by auto
qed

subsection \<open>Properties\<close>



text \<open>
  C1: writing a cell. On an open sheet, \<open>WriteAt\<close> returns the number of bytes given and no error;
  afterwards the content of the cell is the bytes, cut or padded to the size of the cell, every cell
  of every sheet that had a content still has the same one, and master and DataNodes agree again.
\<close>

theorem client_write_cell:
  assumes ok: "sys_ok E plog ids P w" and K: "sure K" and room: "fm_room ids (w_master w)"
    and o: "Fds (w_master w) (f_fd fl) = Some n" and up: "dataNodes (fm_alloc (w_master w)) \<noteq> []"
    and c: "client_ok c" "DataNodeZnodePrefix (cfg c) = P" and b: "length b < 2 ^ 64"
  shows "\<exists>w' c'. File_WriteAt (direct_net E K ord) fl b row col pad w c = Some (Done (w', c') (int (length b), None)) \<and>
     sys_ok E plog ids P w' \<and> client_ok c' \<and> cfg c' = cfg c \<and> Fds (w_master w') = Fds (w_master w) \<and>
     content P w' n (GetCellID row col) = Some (padded b (cell_target row col) pad) \<and>
     (\<forall>m j x. (m, j) \<noteq> (n, GetCellID row col) \<longrightarrow> content P w m j = Some x \<longrightarrow> content P w' m j = Some x)"
  by (rule write_through [OF assms])

theorem client_write_cell_witness:
  "\<exists>w fl w' c'. File_WriteAt (direct_net mem_env sure_kafka (\<lambda>_ _. [])) fl [104, 105] 0 0 '' '' w wit_client =
       Some (Done (w', c') (2, None)) \<and>
     content ''/d_'' w' ''s'' (GetCellID 0 0) = Some (padded [104, 105] 2048 '' '')"
proof -
  obtain w :: "(mem_db, (string \<times> byte list) list, (string \<times> byte list) list) world" and fl :: File where
    w: "sys_ok mem_env (\<lambda>l. l) mem_ids ''/d_'' w" "fm_room mem_ids (w_master w)"
    "Fds (w_master w) (f_fd fl) = Some ''s''" "dataNodes (fm_alloc (w_master w)) \<noteq> []" using wit_created by blast
  have t: "cell_target 0 0 = 2048" by (simp add: cell_target_def layout_simps SheetMetaCellRow_def)
  have l: "length [104 :: byte, 105] < 2 ^ 64" "int (length [104 :: byte, 105]) = 2" by simp_all
  from client_write_cell [OF w(1) wit_sure w(2-4) wit_client_ok l(1), of "\<lambda>_ _. []" 0 0 "'' ''", unfolded t l(2)]
  show ?thesis by blast
qed

text \<open>
  C2: reading a cell that has a content returns exactly this content: \<open>ReadAt\<close> copies it into the
  buffer, returns its size and no error, and changes nothing in the system.
\<close>

theorem client_read_cell:
  assumes "sys_ok E plog ids P w" "Fds (w_master w) (f_fd fl) = Some n"
    and "client_ok c" "DataNodeZnodePrefix (cfg c) = P" "content P w n (GetCellID row col) = Some d"
  shows "\<exists>c'. File_ReadAt (direct_net E K ord) fl buf row col w c = Some (Done (w, c') (go_copy buf d, int (length d), None))"
  using read_through [OF assms] by blast

theorem client_read_cell_witness:
  "\<exists>w c fl c'. File_ReadAt (direct_net mem_env sure_kafka (\<lambda>_ _. [])) fl [0, 0] 0 0 w c =
     Some (Done (w, c') ([104, 105], 2048, None))"
proof -
  obtain w :: "(mem_db, (string \<times> byte list) list, (string \<times> byte list) list) world" and fl :: File where
    w: "sys_ok mem_env (\<lambda>l. l) mem_ids ''/d_'' w" "fm_room mem_ids (w_master w)"
    "Fds (w_master w) (f_fd fl) = Some ''s''" "dataNodes (fm_alloc (w_master w)) \<noteq> []" using wit_created by blast
  have t: "cell_target 0 0 = 2048" by (simp add: cell_target_def layout_simps SheetMetaCellRow_def)
  have l: "length [104 :: byte, 105] < 2 ^ 64" by simp
  from write_through [OF w(1) wit_sure w(2-4) wit_client_ok l, of "\<lambda>_ _. []" 0 0 "'' ''", unfolded t] obtain w' c1 where
    w1: "File_WriteAt (direct_net mem_env sure_kafka (\<lambda>_ _. [])) fl [104, 105] 0 0 '' '' w wit_client =
      Some (Done (w', c1) (int (length [104 :: byte, 105]), None))" and
    "sys_ok mem_env (\<lambda>l. l) mem_ids ''/d_'' w'" "Fds (w_master w') = Fds (w_master w)" "client_ok c1"
      "cfg c1 = cfg wit_client" "content ''/d_'' w' ''s'' (GetCellID 0 0) = Some (padded [104, 105] 2048 '' '')"
    by blast
  then have w': "sys_ok mem_env (\<lambda>l. l) mem_ids ''/d_'' w'" "Fds (w_master w') (f_fd fl) = Some ''s''" "client_ok c1"
      "DataNodeZnodePrefix (cfg c1) = ''/d_''" "content ''/d_'' w' ''s'' (GetCellID 0 0) = Some (padded [104, 105] 2048 '' '')"
    using w(3) wit_client_ok(2) by simp_all
  have len: "length (padded [104, 105] 2048 '' '') = 2048" by (simp add: padded_def)
  have "take (Suc (Suc 0)) (padded [104, 105] 2048 '' '') = [104, 105]" by (simp add: padded_def pad_block_def)
  with len have cp: "go_copy [0, 0] (padded [104, 105] 2048 '' '') = [104, 105]" by (simp add: go_copy_def)
  from client_read_cell [OF w', of sure_kafka "\<lambda>_ _. []" "[0, 0]", unfolded cp len of_nat_numeral]
  show ?thesis by (elim exE) (intro exI)
qed

subsection \<open>Writes that never return\<close>

text \<open>A loop whose every round asks for another one does not return.\<close>

lemma spin_diverges:
  assumes "Inv st" "\<And>st. Inv st \<Longrightarrow> \<not> done_ctx st \<and> (\<exists>st' rep. call st = Done st' (Inr rep) \<and> again rep \<and> Inv st')"
  shows "spin done_ctx call again st = None"
proof (rule ccontr)
  assume "spin done_ctx call again st \<noteq> None"
  then obtain r where r: "spin done_ctx call again st = Some r" by blast
  have "done_ctx = done_ctx \<and> call = call \<and> again = again \<longrightarrow> \<not> Inv st"
  proof (rule spin.raw_induct [where P = "\<lambda>d c a st r. d = done_ctx \<and> c = call \<and> a = again \<longrightarrow> \<not> Inv st", OF _ r])
    fix sp d c a st r
    assume IH: "\<And>d c a st r. sp d c a st = Some r \<Longrightarrow> d = done_ctx \<and> c = call \<and> a = again \<longrightarrow> \<not> Inv st"
      and e: "(if d st then Some (Done st (Inl CancelledError))
        else case c st of Done st' (Inl e) \<Rightarrow> Some (Done st' (Inl e))
           | Done st' (Inr rep) \<Rightarrow> if a rep then sp d c a st' else Some (Done st' (Inr rep))
           | Panicked st' \<Rightarrow> Some (Panicked st')) = Some r"
    show "d = done_ctx \<and> c = call \<and> a = again \<longrightarrow> \<not> Inv st"
    proof (intro impI notI, elim conjE)
      assume eq: "d = done_ctx" "c = call" "a = again" and "Inv st"
      with assms(2) [of st] obtain st' rep where "\<not> d st" "c st = Done st' (Inr rep)" "a rep" "Inv st'" by auto
      with e IH [of d c a st' r] eq show False by simp
    qed
  qed
  with assms(1) show False by simp
qed



end
