(* ===== verification/Bitset.thy ===== *)
theory Bitset
  imports Prelude
begin

text \<open>
  \<open>lab4-mapreduce/src/linearizability/bitset.go\<close>: sets of small numbers as slices of 64-bit words.
  An index outside the slice is a run-time panic, \<open>None\<close>.
\<close>

unbundle bit_operations_syntax

type_synonym bitset = "u64 list"

definition newBitset :: "nat \<Rightarrow> bitset" where
  "newBitset bits =
     (let extra = (if bits mod 64 \<noteq> 0 then 1 else 0); chunks = bits div 64 + extra
      in replicate chunks 0)"

definition bs_clone :: "bitset \<Rightarrow> bitset" where
  "bs_clone b = go_copy (replicate (length b) 0) b"

definition bitsetIndex :: "nat \<Rightarrow> nat \<times> nat" where
  "bitsetIndex pos = (pos div 64, pos mod 64)"

definition bs_set :: "bitset \<Rightarrow> nat \<Rightarrow> bitset option" where
  "bs_set b pos =
     (case bitsetIndex pos of (major, minor) \<Rightarrow>
      if major < length b then Some (b[major := b ! major OR push_bit minor 1]) else None)"

definition bs_clear :: "bitset \<Rightarrow> nat \<Rightarrow> bitset option" where
  "bs_clear b pos =
     (case bitsetIndex pos of (major, minor) \<Rightarrow>
      if major < length b then Some (b[major := b ! major AND NOT (push_bit minor 1)]) else None)"

definition bs_get :: "bitset \<Rightarrow> nat \<Rightarrow> bool option" where
  "bs_get b pos =
     (case bitsetIndex pos of (major, minor) \<Rightarrow>
      if major < length b then Some (b ! major AND push_bit minor 1 \<noteq> 0) else None)"

definition popcnt_word :: "u64 \<Rightarrow> u64" where
  "popcnt_word v0 =
     (let v1 = (v0 AND 0x5555555555555555) + drop_bit 1 (v0 AND 0xAAAAAAAAAAAAAAAA);
          v2 = (v1 AND 0x3333333333333333) + drop_bit 2 (v1 AND 0xCCCCCCCCCCCCCCCC);
          v3 = (v2 AND 0x0F0F0F0F0F0F0F0F) + drop_bit 4 (v2 AND 0xF0F0F0F0F0F0F0F0);
          v4 = v3 * 0x0101010101010101
      in drop_bit 56 v4 AND 0xFF)"

definition popcnt :: "bitset \<Rightarrow> u64" where
  "popcnt b = foldl (\<lambda>total v. total + popcnt_word v) 0 b"

definition bs_hash :: "bitset \<Rightarrow> u64" where
  "bs_hash b = foldl (\<lambda>hash v. hash XOR v) (popcnt b) b"

definition bs_equals :: "bitset \<Rightarrow> bitset \<Rightarrow> bool" where
  "bs_equals b b2 \<longleftrightarrow>
     (if length b \<noteq> length b2 then False else list_all (\<lambda>i. b ! i = b2 ! i) [0..<length b])"

subsection \<open>The set a bitset stands for\<close>

definition bits_of :: "bitset \<Rightarrow> nat set" where
  "bits_of b = {i. i div 64 < length b \<and> bit (b ! (i div 64)) (i mod 64)}"

lemma bits_new: "bits_of (newBitset n) = {}"
  by (auto simp: bits_of_def newBitset_def Let_def)

lemma bs_clone_eq [simp]: "bs_clone b = b"
  by (simp add: bs_clone_def go_copy_def)

lemma length_new:
  assumes "i < n"
  shows "i div 64 < length (newBitset n)"
proof (cases "n mod 64 = 0")
  case True
  then have "i < n div 64 * 64" using assms by (metis div_mult_mod_eq add_0_right)
  then have "i div 64 < n div 64" by (rule less_mult_imp_div_less)
  then show ?thesis using True by (simp add: newBitset_def)
next
  case False
  have "i div 64 \<le> n div 64" using assms by (intro div_le_mono) simp
  then show ?thesis using False by (simp add: newBitset_def)
qed

lemma div_mod_64_eq: "i div 64 = j div 64 \<Longrightarrow> i mod 64 = j mod 64 \<Longrightarrow> i = (j :: nat)"
  by (metis mod_div_mult_eq)

lemma bit_one_at: "m < 64 \<Longrightarrow> bit (push_bit m (1 :: u64)) j \<longleftrightarrow> j = m"
  by (auto simp: bit_simps)

lemma bits_update:
  assumes "k < length b"
  shows "x \<in> bits_of (b[k := w]) \<longleftrightarrow> (if x div 64 = k then bit w (x mod 64) else x \<in> bits_of b)"
  using assms by (auto simp: bits_of_def)

lemma bs_set_bits:
  assumes "bs_set b i = Some b'"
  shows "bits_of b' = insert i (bits_of b) \<and> length b' = length b"
proof -
  have k: "i div 64 < length b" and b': "b' = b[i div 64 := b ! (i div 64) OR push_bit (i mod 64) 1]"
    using assms by (auto simp: bs_set_def bitsetIndex_def split: if_splits)
  have "x \<in> bits_of b' \<longleftrightarrow> x = i \<or> x \<in> bits_of b" for x
  proof (cases "x div 64 = i div 64")
    case True
    then have "x \<in> bits_of b' \<longleftrightarrow> bit (b ! (i div 64)) (x mod 64) \<or> x mod 64 = i mod 64"
      using k by (simp only: b' bits_update bit_or_iff bit_one_at if_True mod_less_divisor)  (simp add: bit_one_at)
    then show ?thesis using True k div_mod_64_eq [OF True] by (auto simp: bits_of_def)
  next
    case False
    then show ?thesis using k by (auto simp only: b' bits_update if_False)
  qed
  then show ?thesis using b' by auto
qed

lemma bs_clear_bits:
  assumes "bs_clear b i = Some b'"
  shows "bits_of b' = bits_of b - {i} \<and> length b' = length b"
proof -
  have k: "i div 64 < length b" and b': "b' = b[i div 64 := b ! (i div 64) AND NOT (push_bit (i mod 64) 1)]"
    using assms by (auto simp: bs_clear_def bitsetIndex_def split: if_splits)
  have "x \<in> bits_of b' \<longleftrightarrow> x \<noteq> i \<and> x \<in> bits_of b" for x
  proof (cases "x div 64 = i div 64")
    case True
    have "x mod 64 < LENGTH(64)" by simp
    then have n: "bit (NOT (push_bit (i mod 64) (1 :: u64))) (x mod 64) \<longleftrightarrow> x mod 64 \<noteq> i mod 64"
      by (simp only: bit_not_iff possible_bit_word bit_one_at mod_less_divisor) (simp add: bit_one_at)
    have "x \<in> bits_of b' \<longleftrightarrow> bit (b ! (i div 64)) (x mod 64) \<and> x mod 64 \<noteq> i mod 64"
      using k True unfolding b' bits_update [OF k] bit_and_iff n by simp
    then show ?thesis using True k div_mod_64_eq [OF True] by (auto simp: bits_of_def)
  next
    case False
    then show ?thesis using k by (auto simp only: b' bits_update if_False)
  qed
  then show ?thesis using b' by auto
qed

lemma bs_get_bits: "i div 64 < length b \<Longrightarrow> bs_get b i = Some (i \<in> bits_of b)"
  by (auto simp: bs_get_def bitsetIndex_def bits_of_def bit_iff_and_push_bit_not_eq_0)

lemma bs_set_total: "i div 64 < length b \<Longrightarrow> \<exists>b'. bs_set b i = Some b'"
  by (simp add: bs_set_def bitsetIndex_def)

lemma bs_clear_total: "i div 64 < length b \<Longrightarrow> \<exists>b'. bs_clear b i = Some b'"
  by (simp add: bs_clear_def bitsetIndex_def)

lemma bs_equals_iff: "bs_equals b b2 \<longleftrightarrow> b = b2"
  by (auto simp: bs_equals_def list_all_iff intro: nth_equalityI)

lemma bits_of_inject:
  assumes "length b = length b2" "bits_of b = bits_of b2"
  shows "b = b2"
proof (rule nth_equalityI [OF assms(1)])
  fix k assume k: "k < length b"
  have "bit (b ! k) j = bit (b2 ! k) j" if "j < 64" for j
  proof -
    have "(64 * k + j) \<in> bits_of b \<longleftrightarrow> (64 * k + j) \<in> bits_of b2" using assms(2) by simp
    then show ?thesis using that k assms(1) by (simp add: bits_of_def)
  qed
  then show "b ! k = b2 ! k" by (auto intro!: bit_word_eqI)
qed

subsection \<open>Counting bits\<close>

text \<open>
  A number as a list of digits to the base \<open>B\<close>, least significant first. The three folding steps of
  the source add the two halves of every digit; the multiplication adds all digits.
\<close>

fun val :: "nat \<Rightarrow> nat list \<Rightarrow> nat" where
  "val B [] = 0"
| "val B (d # ds) = d + B * val B ds"

fun pairs :: "nat \<Rightarrow> nat list \<Rightarrow> nat list" where
  "pairs B (a # b # ds) = (a + B * b) # pairs B ds"
| "pairs B ds = ds"

lemma val_pairs: "even (length ds) \<Longrightarrow> val (B * B) (pairs B ds) = val B ds"
  by (induction B ds rule: pairs.induct) (auto simp: algebra_simps)

lemma length_pairs: "even (length ds) \<Longrightarrow> length (pairs B ds) = length ds div 2"
  by (induction B ds rule: pairs.induct) auto

lemma halves_pairs:
  assumes "list_all (\<lambda>d. d < B) ds" "even (length ds)"
  shows "sum_list (map (\<lambda>d. d mod B + d div B) (pairs B ds)) = sum_list ds"
  using assms by (induction B ds rule: pairs.induct) auto

lemma halves_bound:
  assumes "list_all (\<lambda>d. d \<le> m) ds" "m < B" "even (length ds)"
  shows "list_all (\<lambda>d. d \<le> 2 * m) (map (\<lambda>d. d mod B + d div B) (pairs B ds))"
  using assms by (induction B ds rule: pairs.induct) auto

lemma pairs_bound:
  assumes "list_all (\<lambda>d. d < B) ds" "even (length ds)"
  shows "list_all (\<lambda>d. d < B * B) (pairs B ds)"
proof -
  have "a + B * b < B * B" if "a < B" "b < B" for a b
  proof -
    have "B * Suc b \<le> B * B" using that(2) by (intro mult_le_mono) auto
    with that(1) show ?thesis by simp
  qed
  with assms show ?thesis by (induction B ds rule: pairs.induct) auto
qed

text \<open>Bitwise conjunction works digit by digit when the base is a power of two.\<close>

lemma and_digit:
  fixes a b x y :: nat
  assumes "a < 2 ^ k" "b < 2 ^ k"
  shows "(a + 2 ^ k * x) AND (b + 2 ^ k * y) = (a AND b) + 2 ^ k * (x AND y)"
proof -
  let ?X = "a + 2 ^ k * x" and ?Y = "b + 2 ^ k * y"
  have t: "take_bit k ?X = a" "take_bit k ?Y = b" "drop_bit k ?X = x" "drop_bit k ?Y = y"
    using assms by (simp_all add: take_bit_eq_mod drop_bit_eq_div)
  have "?X AND ?Y = push_bit k (drop_bit k (?X AND ?Y)) + take_bit k (?X AND ?Y)" by (simp only: bits_ident)
  also have "\<dots> = push_bit k (x AND y) + (a AND b)" unfolding drop_bit_and take_bit_and t ..
  finally show ?thesis by (simp add: push_bit_eq_mult mult.commute add.commute)
qed

lemma val_and:
  assumes "length ds = length ms" "list_all (\<lambda>d. d < 2 ^ k) ds" "list_all (\<lambda>d. d < 2 ^ k) ms"
  shows "val (2 ^ k) ds AND val (2 ^ k) ms = val (2 ^ k) (map2 (AND) ds ms)"
  using assms by (induction ds ms rule: list_induct2) (simp_all add: and_digit)

lemma val_add: "val B (map f ds) + val B (map g ds) = val B (map (\<lambda>d. f d + g d) ds)"
proof (induction ds)
  case (Cons d ds)
  have "B * val B (map f ds) + B * val B (map g ds) = B * val B (map (\<lambda>d. f d + g d) ds)"
    unfolding Cons.IH [symmetric] by (simp add: algebra_simps)
  then show ?case by simp
qed simp

lemma val_scale: "val B (map (\<lambda>d. c * f d) ds) = c * val B (map f ds)"
  by (induction ds) (auto simp: algebra_simps)

lemma val_bound: "list_all (\<lambda>d. d < B) ds \<Longrightarrow> val B ds < B ^ length ds"
proof (induction ds)
  case (Cons d ds)
  then have "B * Suc (val B ds) \<le> B * B ^ length ds" by (intro mult_le_mono) auto
  with Cons.prems show ?case by simp
qed simp

lemma and_low: "(d :: nat) AND (2 ^ k - 1) = d mod 2 ^ k"
  by (simp add: take_bit_eq_mod [symmetric] take_bit_eq_mask mask_eq_exp_minus_1)

lemma and_high:
  fixes d :: nat
  assumes "d < 2 ^ (2 * k)"
  shows "d AND (2 ^ k - 1) * 2 ^ k = 2 ^ k * (d div 2 ^ k)"
proof -
  have q: "d div 2 ^ k < 2 ^ k" using assms by (intro less_mult_imp_div_less) (simp add: mult_2 power_add)
  have "d AND (2 ^ k - 1) * 2 ^ k = (d mod 2 ^ k + 2 ^ k * (d div 2 ^ k)) AND (0 + 2 ^ k * (2 ^ k - 1))"
    by (simp add: mult.commute)
  also have "\<dots> = (d mod 2 ^ k AND 0) + 2 ^ k * (d div 2 ^ k AND (2 ^ k - 1))" by (rule and_digit) simp_all
  also have "\<dots> = 2 ^ k * (d div 2 ^ k)" using q by (simp only: and_low) simp
  finally show ?thesis .
qed

text \<open>One folding step, on numbers.\<close>

lemma fold_nat:
  fixes k :: nat
  defines "B \<equiv> 2 ^ (2 * k)"
  assumes "list_all (\<lambda>d. d < B) ds" "n = length ds"
  shows "(val B ds AND val B (replicate n (2 ^ k - 1))) +
     drop_bit k (val B ds AND val B (replicate n ((2 ^ k - 1) * 2 ^ k))) =
     val B (map (\<lambda>d. d mod 2 ^ k + d div 2 ^ k) ds)"
proof -
  have p: "2 ^ k - 1 < (2 ^ k :: nat)" "(2 :: nat) ^ k \<le> 2 ^ k * 2 ^ k" by simp_all
  have B: "B = 2 ^ k * 2 ^ k" by (simp add: B_def mult_2 power_add)
  have "2 ^ k - 1 < B" using p unfolding B by (rule less_le_trans)
  moreover have "(2 ^ k - 1) * 2 ^ k < B" unfolding B using p(1) by (intro mult_strict_right_mono) simp_all
  ultimately have lo: "list_all (\<lambda>d. d < B) (replicate n (2 ^ k - 1))"
    "list_all (\<lambda>d. d < B) (replicate n ((2 ^ k - 1) * 2 ^ k))"
    by (simp_all only: list_all_iff set_replicate_conv_if split: if_split) simp_all
  have m: "map2 (AND) ds (replicate n x) = map (\<lambda>d. d AND x) ds" for x :: nat
    using assms(3) by (simp add: zip_replicate2 map2_map_map)
  have "val B ds AND val B (replicate n (2 ^ k - 1)) = val B (map (\<lambda>d. d mod 2 ^ k) ds)"
    using val_and [OF _ assms(2) [unfolded B_def] lo(1) [unfolded B_def]] assms(3)
    unfolding B_def m and_low by simp
  moreover have "val B ds AND val B (replicate n ((2 ^ k - 1) * 2 ^ k)) = 2 ^ k * val B (map (\<lambda>d. d div 2 ^ k) ds)"
  proof -
    have e: "map (\<lambda>d. d AND (2 ^ k - 1) * 2 ^ k) ds = map (\<lambda>d. 2 ^ k * (d div 2 ^ k)) ds"
      using assms(2) and_high by (auto simp: list_all_iff B_def)
    show ?thesis
      using val_and [OF _ assms(2) [unfolded B_def] lo(2) [unfolded B_def]] assms(3)
      unfolding B_def m e val_scale by simp
  qed
  ultimately show ?thesis by (simp add: drop_bit_eq_div val_add)
qed

text \<open>The state of the fold: \<open>v\<close> holds digits of \<open>k\<close> bits, each at most \<open>m\<close>, that add up to
  \<open>s\<close>.\<close>

definition swar :: "nat \<Rightarrow> nat \<Rightarrow> nat \<Rightarrow> nat list \<Rightarrow> u64 \<Rightarrow> bool" where
  "swar k m s ds v \<longleftrightarrow> unat v = val (2 ^ k) ds \<and> list_all (\<lambda>d. d \<le> m) ds \<and> sum_list ds = s \<and> k * length ds = 64"

lemma take_bit_unat: "take_bit 64 (unat (x :: u64)) = unat x"
proof -
  have "unat x < 2 ^ 64" using unsigned_less [of x, where ?'a = nat] by simp
  then show ?thesis by (rule take_bit_nat_eq_self)
qed

lemma unat_drop_bit: "unat (drop_bit k (x :: u64)) = drop_bit k (unat x)"
  by (simp add: unsigned_drop_bit_eq take_bit_unat)

lemma swar_step:
  assumes v: "swar k m s ds v" and m: "m < 2 ^ k" and ev: "even (length ds)"
    and lo: "unat lo = val (2 ^ (2 * k)) (replicate (length ds div 2) (2 ^ k - 1))"
    and hi: "unat hi = val (2 ^ (2 * k)) (replicate (length ds div 2) ((2 ^ k - 1) * 2 ^ k))"
    and m2: "2 * m < 2 ^ (2 * k)"
  shows "swar (2 * k) (2 * m) s (map (\<lambda>d. d mod 2 ^ k + d div 2 ^ k) (pairs (2 ^ k) ds))
    ((v AND lo) + drop_bit k (v AND hi))" (is "swar _ _ _ ?es ?r")
proof -
  have BB: "(2 :: nat) ^ k * 2 ^ k = 2 ^ (2 * k)" by (simp add: mult_2 power_add)
  have d: "list_all (\<lambda>d. d < 2 ^ k) ds" using v m by (auto simp: swar_def list_all_iff)
  have v1: "unat v = val (2 ^ (2 * k)) (pairs (2 ^ k) ds)"
    using v val_pairs [OF ev, of "2 ^ k"] by (simp add: swar_def BB)
  have es: "unat v AND unat lo = unat (v AND lo)" "drop_bit k (unat v AND unat hi) = unat (drop_bit k (v AND hi))"
    by (simp_all add: unsigned_and_eq unat_drop_bit)
  have sum: "unat (v AND lo) + unat (drop_bit k (v AND hi)) = val (2 ^ (2 * k)) ?es"
    using fold_nat [OF pairs_bound [OF d ev, unfolded BB], of "length ds div 2"] length_pairs [OF ev]
    unfolding es [symmetric] v1 lo hi by simp
  have len: "2 * k * length ?es = 64" using v length_pairs [OF ev, of "2 ^ k"] ev by (auto simp: swar_def mult.commute elim!: evenE)
  have b: "list_all (\<lambda>d. d \<le> 2 * m) ?es" using halves_bound [of m ds "2 ^ k"] v m ev by (simp add: swar_def)
  then have "list_all (\<lambda>d. d < 2 ^ (2 * k)) ?es" using m2 by (auto simp: list_all_iff)
  from val_bound [OF this] have "val (2 ^ (2 * k)) ?es < 2 ^ 64"
    unfolding power_mult [symmetric] len .
  then have "unat ?r = val (2 ^ (2 * k)) ?es" unfolding sum [symmetric]
    by (intro unat_add_lem [THEN iffD1]) simp
  then show ?thesis using b len halves_pairs [OF d ev] v by (simp add: swar_def)
qed

lemma swar_bits: "swar 1 1 (card {i. i < 64 \<and> bit v i}) (map (\<lambda>i. of_bool (bit v i)) [0..<64]) v"
proof -
  have h: "val 2 (map of_bool bs) = horner_sum of_bool 2 bs" for bs by (induction bs) simp_all
  have "val 2 (map (\<lambda>i. of_bool (bit v i)) [0..<64]) = unat v"
  proof -
    have e: "map (bit v) [0..<64] = map (bit (unat v)) [0..<64]" by (simp add: bit_unsigned_iff)
    show ?thesis using h [of "map (bit v) [0..<64]"]
      unfolding e horner_sum_bit_eq_take_bit take_bit_unat by (simp add: comp_def bit_unsigned_iff)
  qed
  moreover have "sum_list (map (\<lambda>i. of_bool (bit v i)) [0..<64]) = card {i. i < 64 \<and> bit v i}"
  proof -
    have "sum_list (map (\<lambda>i. of_bool (bit v i)) [0..<64]) = (\<Sum>i\<in>{0..<64}. of_bool (bit v i))"
      by (simp only: interv_sum_list_conv_sum_set_nat) simp
    also have "\<dots> = card ({0..<64} \<inter> {i. bit v i})" by (subst sum_of_bool_eq) simp_all
    also have "{0..<64} \<inter> {i. bit v i} = {i. i < 64 \<and> bit v i}" by auto
    finally show ?thesis .
  qed
  ultimately show ?thesis by (simp add: swar_def list_all_iff)
qed

text \<open>Multiplying eight byte digits by \<open>0x0101010101010101\<close> leaves their sum in the top byte.\<close>

lemma swar_top:
  assumes "swar 8 8 s ds v"
  shows "unat (drop_bit 56 (v * 0x0101010101010101) AND 0xFF) = s"
proof -
  have "length ds = 8" using assms by (simp add: swar_def)
  then obtain a b c d e f g h where ds: "ds = [a, b, c, d, e, f, g, h]"
    by (auto simp: numeral_eq_Suc length_Suc_conv)
  have le: "a \<le> 8" "b \<le> 8" "c \<le> 8" "d \<le> 8" "e \<le> 8" "f \<le> 8" "g \<le> 8" "h \<le> 8"
    and v: "unat v = val 256 ds" and s: "s = a + b + c + d + e + f + g + h"
    using assms by (auto simp: swar_def ds)
  define r where "r = a + (a + b) * 2 ^ 8 + (a + b + c) * 2 ^ 16 + (a + b + c + d) * 2 ^ 24 +
    (a + b + c + d + e) * 2 ^ 32 + (a + b + c + d + e + f) * 2 ^ 40 + (a + b + c + d + e + f + g) * 2 ^ 48"
  define q where "q = (b + c + d + e + f + g + h) + (c + d + e + f + g + h) * 2 ^ 8 + (d + e + f + g + h) * 2 ^ 16 +
    (e + f + g + h) * 2 ^ 24 + (f + g + h) * 2 ^ 32 + (g + h) * 2 ^ 40 + h * 2 ^ 48"
  have p: "unat v * 0x0101010101010101 = q * 2 ^ 64 + (s * 2 ^ 56 + r)"
    unfolding v ds q_def r_def s by (simp add: algebra_simps)
  have r: "r < 2 ^ 56" using le unfolding r_def by simp
  have s64: "s \<le> 64" using le unfolding s by simp
  have "unat (v * 0x0101010101010101) = (unat v * 0x0101010101010101) mod 2 ^ 64"
    by (simp add: unat_word_ariths)
  also have "\<dots> = s * 2 ^ 56 + r" unfolding p using r s64 by simp
  finally have "unat (drop_bit 56 (v * 0x0101010101010101)) = s"
    using r unat_drop_bit [of 56 "v * 0x0101010101010101"] by (simp add: drop_bit_eq_div)
  then show ?thesis using s64 and_low [of s 8] by (simp add: unsigned_and_eq)
qed

lemma replicate_num: "replicate (numeral k) x = x # replicate (pred_numeral k) x"
  by (simp add: numeral_eq_Suc)

lemma popcnt_word_card: "unat (popcnt_word v) = card {i. i < 64 \<and> bit v i}"
proof -
  let ?s = "card {i. i < 64 \<and> bit v i}"
  define v1 where "v1 = (v AND 0x5555555555555555) + drop_bit 1 (v AND 0xAAAAAAAAAAAAAAAA)"
  define v2 where "v2 = (v1 AND 0x3333333333333333) + drop_bit 2 (v1 AND 0xCCCCCCCCCCCCCCCC)"
  define v3 where "v3 = (v2 AND 0x0F0F0F0F0F0F0F0F) + drop_bit 4 (v2 AND 0xF0F0F0F0F0F0F0F0)"
  have "swar (2 * 1) (2 * 1) ?s (map (\<lambda>d. d mod 2 ^ 1 + d div 2 ^ 1) (pairs (2 ^ 1) (map (\<lambda>i. of_bool (bit v i)) [0..<64]))) v1"
    unfolding v1_def by (rule swar_step [OF swar_bits]) (simp_all add: replicate_num)
  then obtain ds1 where 1: "swar 2 2 ?s ds1 v1" by simp
  then have l1: "length ds1 = 32" by (simp add: swar_def)
  have "swar (2 * 2) (2 * 2) ?s (map (\<lambda>d. d mod 2 ^ 2 + d div 2 ^ 2) (pairs (2 ^ 2) ds1)) v2"
    unfolding v2_def by (rule swar_step [OF 1]) (simp_all add: l1 replicate_num)
  then obtain ds2 where 2: "swar 4 4 ?s ds2 v2" by simp
  then have l2: "length ds2 = 16" by (simp add: swar_def)
  have "swar (2 * 4) (2 * 4) ?s (map (\<lambda>d. d mod 2 ^ 4 + d div 2 ^ 4) (pairs (2 ^ 4) ds2)) v3"
    unfolding v3_def by (rule swar_step [OF 2]) (simp_all add: l2 replicate_num)
  then obtain ds3 where 3: "swar 8 8 ?s ds3 v3" by simp
  have "popcnt_word v = drop_bit 56 (v3 * 0x0101010101010101) AND 0xFF"
    unfolding popcnt_word_def Let_def v1_def v2_def v3_def ..
  then show ?thesis using swar_top [OF 3] by simp
qed

lemma bits_of_Cons: "bits_of (v # b) = {i. i < 64 \<and> bit v i} \<union> (\<lambda>i. i + 64) ` bits_of b"
proof -
  have "x \<in> bits_of (v # b) \<longleftrightarrow> (x < 64 \<and> bit v x) \<or> (64 \<le> x \<and> x - 64 \<in> bits_of b)" for x
  proof (cases "x < 64")
    case True
    then show ?thesis by (simp add: bits_of_def)
  next
    case False
    then obtain y where y: "x = y + 64" by (metis add.commute le_Suc_ex not_less)
    have "(y + 64) div 64 = Suc (y div 64)" "(y + 64) mod 64 = y mod 64" by simp_all
    then show ?thesis using False by (simp only: y bits_of_def mem_Collect_eq nth_Cons_Suc) simp
  qed
  moreover have "x \<in> (\<lambda>i. i + 64) ` bits_of b \<longleftrightarrow> 64 \<le> x \<and> x - 64 \<in> bits_of b" for x
    by (auto intro!: image_eqI [of _ _ "x - 64"])
  ultimately show ?thesis by blast
qed

lemma finite_bits: "finite (bits_of b)"
  by (induction b) (simp_all add: bits_of_Cons, simp add: bits_of_def)

lemma card_bits_Cons: "card (bits_of (v # b)) = card {i. i < 64 \<and> bit v i} + card (bits_of b)"
  unfolding bits_of_Cons
  by (subst card_Un_disjoint) (auto simp: finite_bits card_image)

lemma popcnt_foldl: "foldl (\<lambda>total v. total + popcnt_word v) t b = t + of_nat (card (bits_of b))"
proof (induction b arbitrary: t)
  case Nil
  then show ?case by (simp add: bits_of_def)
next
  case (Cons v b)
  have "popcnt_word v = of_nat (card {i. i < 64 \<and> bit v i})"
    by (simp flip: popcnt_word_card)
  then show ?case by (simp add: Cons.IH card_bits_Cons)
qed

text \<open>C23: The branch-free \<open>popcnt\<close> (three masked folding steps and a multiplication per word, all on
  wrapping 64-bit arithmetic) equals the number of positions that are set, for every slice; the
  total, like the source's, is a 64-bit word.\<close>

theorem popcnt_counts: "popcnt b = of_nat (card (bits_of b))"
  by (simp add: popcnt_def popcnt_foldl)

subsection \<open>The interface the checker uses\<close>

text \<open>
  A mutable set of numbers below a capacity: what \<open>checkSingle\<close> relies on. \<open>same\<close> is the comparison
  of two sets; the capacity is the shape of the representation and no operation changes it.
\<close>

locale bounded_set =
  fixes abs :: "'b \<Rightarrow> nat set" and room :: "'b \<Rightarrow> nat \<Rightarrow> bool"
    and ins :: "'b \<Rightarrow> nat \<Rightarrow> 'b option" and del :: "'b \<Rightarrow> nat \<Rightarrow> 'b option"
    and same :: "'b \<Rightarrow> 'b \<Rightarrow> bool"
  assumes ins_ok: "room b i \<Longrightarrow> \<exists>b'. ins b i = Some b' \<and> abs b' = insert i (abs b) \<and> room b' = room b"
    and del_ok: "room b i \<Longrightarrow> \<exists>b'. del b i = Some b' \<and> abs b' = abs b - {i} \<and> room b' = room b"
    and same_iff: "room b = room b2 \<Longrightarrow> same b b2 \<longleftrightarrow> abs b = abs b2"
begin

lemma ins_absE:
  assumes "room b i"
  obtains b' where "ins b i = Some b'" "abs b' = insert i (abs b)" "room b' = room b"
  using ins_ok [OF assms] by blast

lemma del_absE:
  assumes "room b i"
  obtains b' where "del b i = Some b'" "abs b' = abs b - {i}" "room b' = room b"
  using del_ok [OF assms] by blast

lemma del_undoes_ins:
  assumes "room b i" "i \<notin> abs b" "ins b i = Some b'" "del b' i = Some b''"
  shows "same b'' b"
proof -
  have 1: "abs b' = insert i (abs b)" "room b' = room b" using ins_ok [OF assms(1)] assms(3) by auto
  then have "room b' i" using assms(1) by simp
  from del_ok [OF this] have "abs b'' = abs b' - {i}" "room b'' = room b'" using assms(4) by auto
  then show ?thesis using 1 assms(2) by (simp add: same_iff)
qed

lemma order_irrelevant:
  assumes "room b i" "room b j" "ins b i = Some b1" "ins b1 j = Some b2" "ins b j = Some c1" "ins c1 i = Some c2"
  shows "same b2 c2"
proof -
  have 1: "abs b1 = insert i (abs b)" "room b1 = room b" using ins_ok [OF assms(1)] assms(3) by auto
  have 2: "abs c1 = insert j (abs b)" "room c1 = room b" using ins_ok [OF assms(2)] assms(5) by auto
  have "abs b2 = insert j (abs b1)" "room b2 = room b1" using ins_ok [of b1 j] assms(2,4) 1 by auto
  moreover have "abs c2 = insert i (abs c1)" "room c2 = room c1" using ins_ok [of c1 i] assms(1,6) 2 by auto
  ultimately show ?thesis using 1 2 by (simp add: same_iff insert_commute)
qed

end

definition bs_room :: "bitset \<Rightarrow> nat \<Rightarrow> bool" where
  "bs_room b i \<longleftrightarrow> i div 64 < length b"

lemma bs_room_length: "bs_room b = bs_room b2 \<longleftrightarrow> length b = length b2"
proof
  assume "bs_room b = bs_room b2"
  then have "k < length b \<longleftrightarrow> k < length b2" for k
    by (drule_tac x = "64 * k" in fun_cong) (simp add: bs_room_def)
  then show "length b = length b2" by (metis linorder_neq_iff less_irrefl)
qed (simp add: bs_room_def fun_eq_iff)

interpretation bs: bounded_set bits_of bs_room bs_set bs_clear bs_equals
proof unfold_locales
  show "\<exists>b'. bs_set b i = Some b' \<and> bits_of b' = insert i (bits_of b) \<and> bs_room b' = bs_room b" if "bs_room b i" for b i
    using bs_set_total [of i b] bs_set_bits [of b i] that unfolding bs_room_length by (auto simp: bs_room_def)
  show "\<exists>b'. bs_clear b i = Some b' \<and> bits_of b' = bits_of b - {i} \<and> bs_room b' = bs_room b" if "bs_room b i" for b i
    using bs_clear_total [of i b] bs_clear_bits [of b i] that unfolding bs_room_length by (auto simp: bs_room_def)
  show "bs_equals b b2 \<longleftrightarrow> bits_of b = bits_of b2" if "bs_room b = bs_room b2" for b b2
    using that bits_of_inject unfolding bs_room_length by (auto simp: bs_equals_iff)
qed

lemma room_new: "i < n \<Longrightarrow> bs_room (newBitset n) i"
  by (simp add: bs_room_def length_new)

end
