(* ===== verification/LinEntries.thy ===== *)
theory LinEntries
  imports Bitset
begin

text \<open>
  The data of the linearizability checker: \<open>lab4-mapreduce/src/linearizability/model.go\<close> (operations,
  events) and the first half of \<open>linearizability.go\<close> (entries, the doubly linked list of nodes,
  \<open>lift\<close> and \<open>unlift\<close>). Nodes live in an explicit heap because the checker mutates one shared list:
  an address is a number, \<open>nil\<close> is \<open>None\<close>, and a dereference of \<open>nil\<close> is a panic, again \<open>None\<close>.
\<close>

subsection \<open>Operations, events, entries\<close>

text \<open>A Go \<open>interface{}\<close>; \<open>None\<close> is the \<open>nil\<close> interface.\<close>

type_synonym 'v iface = "'v option"

record 'v Operation =
  Input :: "'v iface"
  Call :: int
  Output :: "'v iface"
  Return :: int

datatype EventKind = CallEvent | ReturnEvent

record 'v Event =
  EKind :: EventKind
  EValue :: "'v iface"
  EId :: nat

datatype entryKind = callEntry | returnEntry

record 'v entry =
  kind :: entryKind
  evalue :: "'v iface"
  eid :: nat
  etime :: int

definition byTime_Less :: "'v entry \<Rightarrow> 'v entry \<Rightarrow> bool" where
  "byTime_Less a b \<longleftrightarrow> etime a < etime b"

text \<open>
  \<open>makeEntries\<close>. \<open>sort.Sort\<close> is not stable: which permutation it picks among entries with equal times
  is not specified, so the sort is an argument, and \<open>is_sort\<close> is what its documentation promises.
\<close>

fun entries_from :: "nat \<Rightarrow> 'v Operation list \<Rightarrow> 'v entry list" where
  "entries_from n [] = []"
| "entries_from n (elem # rest) =
     \<lparr>kind = callEntry, evalue = Input elem, eid = n, etime = Call elem\<rparr> #
     \<lparr>kind = returnEntry, evalue = Output elem, eid = n, etime = Return elem\<rparr> #
     entries_from (Suc n) rest"

definition makeEntries :: "('v entry list \<Rightarrow> 'v entry list) \<Rightarrow> 'v Operation list \<Rightarrow> 'v entry list" where
  "makeEntries sort_Sort history = sort_Sort (entries_from 0 history)"

definition is_sort :: "('v entry list \<Rightarrow> 'v entry list) \<Rightarrow> bool" where
  "is_sort srt \<longleftrightarrow>
     (\<forall>es. mset (srt es) = mset es \<and> sorted_wrt (\<lambda>a b. \<not> byTime_Less b a) (srt es))"

text \<open>\<open>renumber\<close>: identifiers are replaced by \<open>0, 1, \<dots>\<close> in the order of first appearance.\<close>

fun renumber_from :: "(nat \<rightharpoonup> nat) \<Rightarrow> nat \<Rightarrow> 'v Event list \<Rightarrow> 'v Event list" where
  "renumber_from m n [] = []"
| "renumber_from m n (v # rest) =
     (case m (EId v) of
        Some r \<Rightarrow> \<lparr>EKind = EKind v, EValue = EValue v, EId = r\<rparr> # renumber_from m n rest
      | None \<Rightarrow> \<lparr>EKind = EKind v, EValue = EValue v, EId = n\<rparr> # renumber_from (m(EId v \<mapsto> n)) (Suc n) rest)"

definition renumber :: "'v Event list \<Rightarrow> 'v Event list" where
  "renumber events = renumber_from Map.empty 0 events"

definition convertEntries :: "'v Event list \<Rightarrow> 'v entry list" where
  "convertEntries events =
     map (\<lambda>elem. \<lparr>kind = (if EKind elem = ReturnEvent then returnEntry else callEntry),
                  evalue = EValue elem, eid = EId elem, etime = - 1\<rparr>) events"

subsection \<open>The node list\<close>

record 'v node =
  nvalue :: "'v iface"
  nmatch :: "nat option"
  nid :: nat
  nnext :: "nat option"
  nprev :: "nat option"

type_synonym 'v heap = "nat \<rightharpoonup> 'v node"

definition set_next :: "'v heap \<Rightarrow> nat \<Rightarrow> nat option \<Rightarrow> 'v heap option" where
  "set_next h a v = (case h a of None \<Rightarrow> None | Some n \<Rightarrow> Some (h(a \<mapsto> n\<lparr>nnext := v\<rparr>)))"

definition set_prev :: "'v heap \<Rightarrow> nat \<Rightarrow> nat option \<Rightarrow> 'v heap option" where
  "set_prev h a v = (case h a of None \<Rightarrow> None | Some n \<Rightarrow> Some (h(a \<mapsto> n\<lparr>nprev := v\<rparr>)))"

definition insertBefore :: "'v heap \<Rightarrow> nat \<Rightarrow> nat option \<Rightarrow> ('v heap \<times> nat) option" where
  "insertBefore h n mark =
     (case mark of
        None \<Rightarrow> Some (h, n)
      | Some mark \<Rightarrow> do {
          mk \<leftarrow> h mark;
          let beforeMark = nprev mk;
          h \<leftarrow> set_prev h mark (Some n);
          h \<leftarrow> set_next h n (Some mark);
          case beforeMark of
            None \<Rightarrow> Some (h, n)
          | Some b \<Rightarrow> do {
              h \<leftarrow> set_prev h n (Some b);
              h \<leftarrow> set_next h b (Some n);
              Some (h, n)
            }
        })"

text \<open>\<open>length\<close> follows \<open>next\<close> until \<open>nil\<close>; on a cyclic list it would not return. The inner option is
  the panic.\<close>

partial_function (option) length_from :: "'v heap \<Rightarrow> nat option \<Rightarrow> nat \<Rightarrow> nat option option" where
  "length_from h n l =
     (case n of
        None \<Rightarrow> Some (Some l)
      | Some a \<Rightarrow> (case h a of None \<Rightarrow> Some None | Some nd \<Rightarrow> length_from h (nnext nd) (Suc l)))"

definition length_list :: "'v heap \<Rightarrow> nat option \<Rightarrow> nat option option" where
  "length_list h n = length_from h n 0"

text \<open>
  \<open>makeLinkedEntries\<close> walks the entries from the last to the first; the argument is the reversed
  slice. Node number \<open>k\<close> is the \<open>k\<close>-th node allocated.
\<close>

definition link_entry ::
  "'v entry \<Rightarrow> 'v heap \<times> nat \<times> nat option \<times> (nat \<rightharpoonup> nat) \<Rightarrow> ('v heap \<times> nat \<times> nat option \<times> (nat \<rightharpoonup> nat)) option" where
  "link_entry elem st =
     (case st of (h, fresh, root, mtch) \<Rightarrow>
      if kind elem = returnEntry then do {
        let h = h(fresh \<mapsto> \<lparr>nvalue = evalue elem, nmatch = None, nid = eid elem, nnext = None, nprev = None\<rparr>);
        let mtch = mtch(eid elem \<mapsto> fresh);
        (h, _) \<leftarrow> insertBefore h fresh root;
        Some (h, Suc fresh, Some fresh, mtch)
      } else do {
        let h = h(fresh \<mapsto> \<lparr>nvalue = evalue elem, nmatch = mtch (eid elem), nid = eid elem, nnext = None, nprev = None\<rparr>);
        (h, _) \<leftarrow> insertBefore h fresh root;
        Some (h, Suc fresh, Some fresh, mtch)
      })"

fun link_entries ::
  "'v entry list \<Rightarrow> 'v heap \<times> nat \<times> nat option \<times> (nat \<rightharpoonup> nat) \<Rightarrow> ('v heap \<times> nat \<times> nat option \<times> (nat \<rightharpoonup> nat)) option" where
  "link_entries [] st = Some st"
| "link_entries (elem # rest) st = Option.bind (link_entry elem st) (link_entries rest)"

definition makeLinkedEntries :: "'v entry list \<Rightarrow> ('v heap \<times> nat \<times> nat option) option" where
  "makeLinkedEntries entries =
     map_option (\<lambda>(h, fresh, root, _). (h, fresh, root)) (link_entries (rev entries) (Map.empty, 0, None, Map.empty))"

definition lift_node :: "'v heap \<Rightarrow> nat \<Rightarrow> 'v heap option" where
  "lift_node h entry = do {
     e \<leftarrow> h entry; p \<leftarrow> nprev e;
     h \<leftarrow> set_next h p (nnext e);
     e \<leftarrow> h entry; q \<leftarrow> nnext e;
     h \<leftarrow> set_prev h q (nprev e);
     e \<leftarrow> h entry; mtch \<leftarrow> nmatch e;
     m \<leftarrow> h mtch; p \<leftarrow> nprev m;
     h \<leftarrow> set_next h p (nnext m);
     m \<leftarrow> h mtch;
     case nnext m of None \<Rightarrow> Some h | Some q \<Rightarrow> set_prev h q (nprev m)
   }"

definition unlift_node :: "'v heap \<Rightarrow> nat \<Rightarrow> 'v heap option" where
  "unlift_node h entry = do {
     e \<leftarrow> h entry; mtch \<leftarrow> nmatch e;
     m \<leftarrow> h mtch; p \<leftarrow> nprev m;
     h \<leftarrow> set_next h p (Some mtch);
     m \<leftarrow> h mtch;
     h \<leftarrow> (case nnext m of None \<Rightarrow> Some h | Some q \<Rightarrow> set_prev h q (Some mtch));
     e \<leftarrow> h entry; p \<leftarrow> nprev e;
     h \<leftarrow> set_next h p (Some entry);
     e \<leftarrow> h entry; q \<leftarrow> nnext e;
     set_prev h q (Some entry)
   }"

subsection \<open>Segments of the list\<close>

text \<open>\<open>seg h p as q\<close>: the nodes \<open>as\<close> are linked in both directions, the first one points back to \<open>p\<close> and
  the last one forward to \<open>q\<close>.\<close>

fun first :: "nat list \<Rightarrow> nat option \<Rightarrow> nat option" where
  "first [] q = q"
| "first (a # as) q = Some a"

definition lastp :: "nat list \<Rightarrow> nat option \<Rightarrow> nat option" where
  "lastp as p = (if as = [] then p else Some (last as))"

fun seg :: "'v heap \<Rightarrow> nat option \<Rightarrow> nat list \<Rightarrow> nat option \<Rightarrow> bool" where
  "seg h p [] q \<longleftrightarrow> True"
| "seg h p (a # as) q \<longleftrightarrow> (\<exists>n. h a = Some n \<and> nprev n = p \<and> nnext n = first as q) \<and> seg h (Some a) as q"

lemma lastp_simps [simp]: "lastp [] p = p" "lastp (a # as) p = lastp as (Some a)" "lastp (as @ [a]) p = Some a"
  by (auto simp: lastp_def)

lemma first_append [simp]: "first (xs @ ys) q = first xs (first ys q)"
  by (cases xs) auto

lemma seg_append [simp]: "seg h p (xs @ ys) q \<longleftrightarrow> seg h p xs (first ys q) \<and> seg h (lastp xs p) ys q"
  by (induction xs arbitrary: p) auto

lemma seg_other [simp]: "a \<notin> set as \<Longrightarrow> seg (h(a \<mapsto> n)) p as q = seg h p as q"
  by (induction as arbitrary: p) auto

lemma seg_nodes: "seg h p as q \<Longrightarrow> a \<in> set as \<Longrightarrow> \<exists>n. h a = Some n"
  by (induction as arbitrary: p) auto

lemma seg_prev_Some:
  "seg h (Some b) as q \<Longrightarrow> a \<in> set as \<Longrightarrow> \<exists>n c. h a = Some n \<and> nprev n = Some c"
  by (induction as arbitrary: b) auto

text \<open>The part of a node that \<open>lift\<close> and \<open>unlift\<close> never touch.\<close>

definition body :: "'v node \<Rightarrow> 'v iface \<times> nat option \<times> nat" where
  "body n = (nvalue n, nmatch n, nid n)"

definition bodies :: "'v heap \<Rightarrow> nat \<Rightarrow> ('v iface \<times> nat option \<times> nat) option" where
  "bodies h a = map_option body (h a)"

text \<open>Taking a node out of the list, as both halves of \<open>lift\<close> do, and putting it back.\<close>

definition unlink :: "'v heap \<Rightarrow> nat \<Rightarrow> 'v heap option" where
  "unlink h x = do {
     n \<leftarrow> h x; p \<leftarrow> nprev n;
     h \<leftarrow> set_next h p (nnext n);
     n \<leftarrow> h x;
     case nnext n of None \<Rightarrow> Some h | Some q \<Rightarrow> set_prev h q (nprev n)
   }"

definition relink :: "'v heap \<Rightarrow> nat \<Rightarrow> 'v heap option" where
  "relink h x = do {
     n \<leftarrow> h x; p \<leftarrow> nprev n;
     h \<leftarrow> set_next h p (Some x);
     n \<leftarrow> h x;
     case nnext n of None \<Rightarrow> Some h | Some q \<Rightarrow> set_prev h q (Some x)
   }"

lemma unlink_ok:
  assumes "seg h None (pre @ [p] @ x # post) None" "distinct (pre @ [p] @ x # post)"
  obtains h' where "unlink h x = Some h'" "seg h' None (pre @ [p] @ post) None" "h' x = h x"
    "bodies h' = bodies h" "relink h' x = Some h"
proof -
  obtain np nx where n: "h p = Some np" "nprev np = lastp pre None" "nnext np = Some x"
      "h x = Some nx" "nprev nx = Some p" "nnext nx = first post None"
    and s: "seg h None pre (Some p)" "seg h (Some x) post None" using assms(1) by auto
  have ne: "p \<noteq> x" using assms(2) by auto
  show ?thesis
  proof (cases post)
    case Nil
    let ?h = "h(p \<mapsto> np\<lparr>nnext := None\<rparr>)"
    have "unlink h x = Some ?h" using n ne Nil by (simp add: unlink_def set_next_def)
    moreover have "relink ?h x = Some h" using n ne Nil by (auto simp: relink_def set_next_def fun_eq_iff)
    ultimately show ?thesis using that [of ?h] n s ne assms(2) Nil by (auto simp: bodies_def body_def fun_eq_iff)
  next
    case (Cons q rest)
    obtain nq where q: "h q = Some nq" "nprev nq = Some x" "nnext nq = first rest None"
      and r: "seg h (Some q) rest None" using s(2) Cons by auto
    have neq: "q \<noteq> x" "q \<noteq> p" using assms(2) Cons by auto
    let ?h = "h(p \<mapsto> np\<lparr>nnext := Some q\<rparr>, q \<mapsto> nq\<lparr>nprev := Some p\<rparr>)"
    have "unlink h x = Some ?h" using n ne q neq Cons by (simp add: unlink_def set_next_def set_prev_def)
    moreover have "relink ?h x = Some h"
      using n ne q neq Cons by (auto simp: relink_def set_next_def set_prev_def fun_eq_iff)
    ultimately show ?thesis using that [of ?h] n q r s ne neq assms(2) Cons by (auto simp: bodies_def body_def fun_eq_iff)
  qed
qed

lemma unlink_ok':
  assumes "seg h None (r # pre @ x # post) None" "distinct (r # pre @ x # post)"
  obtains h' where "unlink h x = Some h'" "seg h' None (r # pre @ post) None" "h' x = h x"
    "bodies h' = bodies h" "relink h' x = Some h"
proof -
  obtain ps p where "r # pre = ps @ [p]" by (cases "r # pre" rule: rev_cases) auto
  then have e: "r # pre @ ys = ps @ [p] @ ys" for ys by (metis append_Cons append_assoc)
  show ?thesis using unlink_ok [OF assms [unfolded e]] that unfolding e by blast
qed

lemma set_next_same:
  "set_next h p (nnext n) = Some h' \<Longrightarrow> h e = Some n \<Longrightarrow> \<exists>n'. h' e = Some n' \<and> nnext n' = nnext n \<and> nprev n' = nprev n"
  by (auto simp: set_next_def split: option.splits)

lemma set_next_other:
  "set_next h p v = Some h' \<Longrightarrow> h e = Some n \<Longrightarrow> p \<noteq> e \<Longrightarrow> h' e = Some n"
  by (auto simp: set_next_def split: option.splits)

lemma lift_unlink:
  assumes "unlink h e = Some h1" "h1 e = Some n" "nnext n = Some q" "h e = Some n" "nmatch n = Some m" "unlink h1 m = Some h2"
  shows "lift_node h e = Some h2"
proof -
  obtain p ha where a: "nprev n = Some p" "set_next h p (nnext n) = Some ha"
    using assms(1,4) by (auto simp: unlink_def split: bind_splits)
  obtain na where na: "ha e = Some na" "nnext na = Some q" "nprev na = Some p"
    using set_next_same [OF a(2) assms(4)] assms(3) a(1) by auto
  then have b: "set_prev ha q (Some p) = Some h1" using assms(1,4) a by (simp add: unlink_def)
  show ?thesis using assms(2,5,6) b unfolding lift_node_def assms(4) a na unlink_def
    by (simp add: a na)
qed

lemma unlift_relink:
  assumes "h2 e = Some n2" "nmatch n2 = Some m" "relink h2 m = Some h1" "h1 e = Some n" "nnext n = Some q" "relink h1 e = Some h"
    and "nprev n \<noteq> Some e"
  shows "unlift_node h2 e = Some h"
proof -
  obtain nm p ha where a: "h2 m = Some nm" "nprev nm = Some p" "set_next h2 p (Some m) = Some ha"
    using assms(3) by (auto simp: relink_def split: bind_splits)
  obtain na where na: "ha m = Some na" 
     "(case nnext na of None \<Rightarrow> Some ha | Some q \<Rightarrow> set_prev ha q (Some m)) = Some h1"
    using assms(3) a by (auto simp: relink_def split: bind_splits)
  obtain p' hb where b: "nprev n = Some p'" "set_next h1 p' (Some e) = Some hb"
    using assms(4,6) by (auto simp: relink_def split: bind_splits)
  have "hb e = Some n" using set_next_other [OF b(2) assms(4)] b(1) assms(7) by simp
  then show ?thesis using assms(6) unfolding unlift_node_def assms(1) relink_def
    by (simp add: a na assms b)
qed

text \<open>\<open>lift\<close> removes a call and its return from the list, and \<open>unlift\<close> restores the heap exactly.\<close>

lemma lift_ok:
  assumes L: "seg h None (r # pre @ e # mid @ m # post) None" "distinct (r # pre @ e # mid @ m # post)"
    and m: "h e = Some n" "nmatch n = Some m"
  obtains h' where "lift_node h e = Some h'" "seg h' None (r # pre @ mid @ post) None"
    "bodies h' = bodies h" "unlift_node h' e = Some h"
proof -
  obtain h1 where h1: "unlink h e = Some h1" "seg h1 None (r # pre @ mid @ m # post) None" "h1 e = h e"
    "bodies h1 = bodies h" "relink h1 e = Some h"
    using unlink_ok' [OF L] by blast
  have "seg h1 None (r # (pre @ mid) @ m # post) None" "distinct (r # (pre @ mid) @ m # post)"
    using h1(2) L(2) by auto
  from unlink_ok' [OF this] obtain h2 where h2: "unlink h1 m = Some h2" "seg h2 None (r # (pre @ mid) @ post) None"
    "bodies h2 = bodies h1" "relink h2 m = Some h1"
    by blast
  obtain q where q: "nnext n = Some q" using L m by (cases mid) auto
  have "nprev n = lastp pre (Some r)" using L(1) m(1) by simp
  then have ne: "nprev n \<noteq> Some e" using L(2) by (auto simp: lastp_def)
  have "lift_node h e = Some h2" using lift_unlink [OF h1(1) _ q m h2(1)] h1(3) m(1) by simp
  moreover obtain n2 where n2: "h2 e = Some n2" "nmatch n2 = Some m"
    using fun_cong [OF h2(3) [unfolded h1(4)], of e] m by (auto simp: bodies_def body_def)
  have "unlift_node h2 e = Some h" using unlift_relink [OF n2 h2(4) _ q h1(5) ne] h1(3) m(1) by simp
  ultimately show ?thesis using that h2 h1(4) by simp
qed

subsection \<open>The list \<open>makeLinkedEntries\<close> builds\<close>

text \<open>The node of an entry that has \<open>k\<close> entries after it is node number \<open>k\<close>. \<open>retmap\<close> is the map
  \<open>match\<close> of the source after the entries have been processed.\<close>

fun retmap :: "'v entry list \<Rightarrow> nat \<rightharpoonup> nat" where
  "retmap [] = Map.empty"
| "retmap (e # es) = (if kind e = returnEntry then (retmap es)(eid e \<mapsto> length es) else retmap es)"

fun node_bodies :: "'v entry list \<Rightarrow> nat \<rightharpoonup> 'v iface \<times> nat option \<times> nat" where
  "node_bodies [] = Map.empty"
| "node_bodies (e # es) =
     (node_bodies es)(length es \<mapsto>
        (evalue e, if kind e = returnEntry then None else retmap es (eid e), eid e))"

definition addrs :: "'a list \<Rightarrow> nat list" where
  "addrs es = rev [0..<length es]"

lemma addrs_simps [simp]: "addrs [] = []" "addrs (e # es) = length es # addrs es"
  "set (addrs es) = {..<length es}" "distinct (addrs es)" "length (addrs es) = length es"
  by (auto simp: addrs_def)

lemma link_entries_append:
  "link_entries (xs @ ys) st = Option.bind (link_entries xs st) (link_entries ys)"
  by (induction xs arbitrary: st) (auto split: bind_splits)

lemma insert_front:
  assumes "seg h None as None" "fresh \<notin> set as" "nnext nd = None" "nprev nd = None"
  obtains h' where "insertBefore (h(fresh \<mapsto> nd)) fresh (first as None) = Some (h', fresh)"
    "seg h' None (fresh # as) None" "bodies h' = (bodies h)(fresh \<mapsto> body nd)"
proof (cases as)
  case Nil
  then show ?thesis using that [of "h(fresh \<mapsto> nd)"] assms by (auto simp: insertBefore_def bodies_def fun_eq_iff)
next
  case (Cons a rest)
  then obtain n where n: "h a = Some n" "nprev n = None" "nnext n = first rest None" "a \<noteq> fresh"
    and r: "seg h (Some a) rest None" "fresh \<notin> set rest" using assms by auto
  show ?thesis
  proof (cases "a \<in> set rest")
    case True
    then show ?thesis using seg_prev_Some [OF r(1)] n by fastforce
  next
    case False
    let ?h = "h(fresh \<mapsto> nd\<lparr>nnext := Some a\<rparr>, a \<mapsto> n\<lparr>nprev := Some fresh\<rparr>)"
    have "insertBefore (h(fresh \<mapsto> nd)) fresh (first as None) = Some (?h, fresh)"
      using n Cons by (auto simp: insertBefore_def set_next_def set_prev_def fun_eq_iff)
    then show ?thesis using that [of ?h] n r False assms Cons by (auto simp: bodies_def body_def fun_eq_iff)
  qed
qed

lemma link_entries_ok:
  "\<exists>h. link_entries (rev es) (Map.empty, 0, None, Map.empty) = Some (h, length es, first (addrs es) None, retmap es) \<and>
     seg h None (addrs es) None \<and> bodies h = node_bodies es"
proof (induction es)
  case Nil
  show ?case by (auto simp: bodies_def fun_eq_iff)
next
  case (Cons e es)
  then obtain h where h: "link_entries (rev es) (Map.empty, 0, None, Map.empty) = Some (h, length es, first (addrs es) None, retmap es)"
    "seg h None (addrs es) None" "bodies h = node_bodies es" by blast
  define nd where "nd = \<lparr>nvalue = evalue e, nmatch = (if kind e = returnEntry then None else retmap es (eid e)),
    nid = eid e, nnext = None, nprev = None\<rparr>"
  obtain h' where h': "insertBefore (h(length es \<mapsto> nd)) (length es) (first (addrs es) None) = Some (h', length es)"
    "seg h' None (length es # addrs es) None" "bodies h' = (bodies h)(length es \<mapsto> body nd)"
    using insert_front [OF h(2), of "length es" nd] by (auto simp: nd_def)
  have "link_entry e (h, length es, first (addrs es) None, retmap es) =
    Some (h', length (e # es), first (addrs (e # es)) None, retmap (e # es))"
    using h'(1) by (auto simp: link_entry_def nd_def)
  then show ?case using h h' by (auto simp: link_entries_append body_def nd_def)
qed

theorem makeLinkedEntries_ok:
  obtains h where "makeLinkedEntries es = Some (h, length es, first (addrs es) None)"
    "seg h None (addrs es) None" "bodies h = node_bodies es"
  using link_entries_ok [of es] by (auto simp: makeLinkedEntries_def)

lemma length_from_seg:
  "seg h p as None \<Longrightarrow> length_from h (first as None) l = Some (Some (l + length as))"
proof (induction as arbitrary: p l)
  case Nil
  then show ?case by (simp add: length_from.simps)
next
  case (Cons a as)
  then obtain n where n: "h a = Some n" "nnext n = first as None" by auto
  have "length_from h (first (a # as) None) l = length_from h (first as None) (Suc l)"
    by (subst length_from.simps) (simp add: n)
  then show ?case using Cons.IH [of "Some a" "Suc l"] Cons.prems by simp
qed

end
