(* ===== verification/LinCheck.thy ===== *)
theory LinCheck
  imports LinEntries
begin

text \<open>
  The search of the linearizability checker: the \<open>Model\<close> of \<open>model.go\<close>, the configuration cache and
  \<open>checkSingle\<close> of \<open>linearizability.go\<close>. A callback of the model that panics is \<open>None\<close>; so is a
  dereference of \<open>nil\<close> or an index out of range in the checker itself.
\<close>

subsection \<open>Models\<close>

record ('v, 's) Model =
  Partition :: "('v Operation list \<Rightarrow> 'v Operation list list option) option"
  PartitionEvent :: "('v Event list \<Rightarrow> 'v Event list list option) option"
  Init :: 's
  Step :: "'s \<Rightarrow> 'v iface \<Rightarrow> 'v iface \<Rightarrow> (bool \<times> 's) option"
  Equal :: "('s \<Rightarrow> 's \<Rightarrow> bool) option"

definition NoPartition :: "'v Operation list \<Rightarrow> 'v Operation list list option" where
  "NoPartition history = Some [history]"

definition NoPartitionEvent :: "'v Event list \<Rightarrow> 'v Event list list option" where
  "NoPartitionEvent history = Some [history]"

text \<open>\<open>ShallowEqual\<close> is Go's \<open>==\<close>, on states of a comparable type.\<close>

definition ShallowEqual :: "'s \<Rightarrow> 's \<Rightarrow> bool" where
  "ShallowEqual state1 state2 \<longleftrightarrow> state1 = state2"

definition fillDefault :: "('v, 's) Model \<Rightarrow> ('v, 's) Model" where
  "fillDefault model =
     (let model = (if Partition model = None then model\<lparr>Partition := Some NoPartition\<rparr> else model);
          model = (if PartitionEvent model = None then model\<lparr>PartitionEvent := Some NoPartitionEvent\<rparr> else model);
          model = (if Equal model = None then model\<lparr>Equal := Some ShallowEqual\<rparr> else model)
      in model)"

subsection \<open>The cache of configurations\<close>

record 's cacheEntry =
  linearized :: bitset
  cstate :: 's

type_synonym 's cache = "u64 \<Rightarrow> 's cacheEntry list"

fun cache_scan :: "('s \<Rightarrow> 's \<Rightarrow> bool) option \<Rightarrow> 's cacheEntry \<Rightarrow> 's cacheEntry list \<Rightarrow> bool option" where
  "cache_scan eq entry [] = Some False"
| "cache_scan eq entry (elem # rest) =
     (if bs_equals (linearized entry) (linearized elem)
      then case eq of
             None \<Rightarrow> None
           | Some equal \<Rightarrow> if equal (cstate entry) (cstate elem) then Some True else cache_scan eq entry rest
      else cache_scan eq entry rest)"

definition cacheContains :: "('v, 's) Model \<Rightarrow> 's cache \<Rightarrow> 's cacheEntry \<Rightarrow> bool option" where
  "cacheContains model cache entry = cache_scan (Equal model) entry (cache (bs_hash (linearized entry)))"

subsection \<open>The search\<close>

record ('v, 's) search =
  heapS :: "'v heap"
  entryS :: "nat option"
  stateS :: 's
  linS :: bitset
  cacheS :: "'s cache"
  callsS :: "(nat \<times> 's) list"

text \<open>One iteration of the loop of \<open>checkSingle\<close>: \<open>Inl\<close> leaves the function, \<open>Inr\<close> goes round.\<close>

definition check_body :: "('v, 's) Model \<Rightarrow> nat \<Rightarrow> ('v, 's) search \<Rightarrow> (bool + ('v, 's) search) option" where
  "check_body model headEntry st = do {
     entry \<leftarrow> entryS st;
     e \<leftarrow> heapS st entry;
     case nmatch e of
       Some matching \<Rightarrow> do {
         m \<leftarrow> heapS st matching;
         (ok, newState) \<leftarrow> Step model (stateS st) (nvalue e) (nvalue m);
         if ok then do {
           newLinearized \<leftarrow> bs_set (bs_clone (linS st)) (nid e);
           let newCacheEntry = \<lparr>linearized = newLinearized, cstate = newState\<rparr>;
           found \<leftarrow> cacheContains model (cacheS st) newCacheEntry;
           if \<not> found then do {
             let hash = bs_hash newLinearized;
             let cache = (cacheS st)(hash := cacheS st hash @ [newCacheEntry]);
             let calls = callsS st @ [(entry, stateS st)];
             lin \<leftarrow> bs_set (linS st) (nid e);
             h \<leftarrow> lift_node (heapS st) entry;
             hn \<leftarrow> h headEntry;
             Some (Inr \<lparr>heapS = h, entryS = nnext hn, stateS = newState, linS = lin, cacheS = cache, callsS = calls\<rparr>)
           } else Some (Inr (st\<lparr>entryS := nnext e\<rparr>))
         } else Some (Inr (st\<lparr>entryS := nnext e\<rparr>))
       }
     | None \<Rightarrow>
         if callsS st = [] then Some (Inl False)
         else do {
           let callsTop = last (callsS st);
           let entry = fst callsTop;
           e \<leftarrow> heapS st entry;
           lin \<leftarrow> bs_clear (linS st) (nid e);
           h \<leftarrow> unlift_node (heapS st) entry;
           e \<leftarrow> h entry;
           Some (Inr \<lparr>heapS = h, entryS = nnext e, stateS = snd callsTop, linS = lin, cacheS = cacheS st,
             callsS = butlast (callsS st)\<rparr>)
         }
   }"

text \<open>
  The loop: \<open>kill i\<close> is what the \<open>i\<close>-th atomic load of the kill flag returns. Not returning is the
  value \<open>None\<close> of \<open>check_loop\<close>.
\<close>

datatype 'a run = Returned 'a | Crashed

partial_function (option) check_loop ::
  "('v, 's) Model \<Rightarrow> (nat \<Rightarrow> bool) \<Rightarrow> nat \<Rightarrow> nat \<Rightarrow> ('v, 's) search \<Rightarrow> bool run option" where
  "check_loop model kill headEntry i st =
     (case heapS st headEntry of
        None \<Rightarrow> Some Crashed
      | Some hn \<Rightarrow>
          if nnext hn = None then Some (Returned True)
          else if kill i then Some (Returned False)
          else (case check_body model headEntry st of
                  None \<Rightarrow> Some Crashed
                | Some (Inl r) \<Rightarrow> Some (Returned r)
                | Some (Inr st') \<Rightarrow> check_loop model kill headEntry (Suc i) st'))"

definition checkSingle ::
  "('v, 's) Model \<Rightarrow> 'v heap \<times> nat \<times> nat option \<Rightarrow> (nat \<Rightarrow> bool) \<Rightarrow> bool run option" where
  "checkSingle model hist kill =
     (case hist of (h, fresh, subhistory) \<Rightarrow>
      case length_list h subhistory of
        None \<Rightarrow> None
      | Some None \<Rightarrow> Some Crashed
      | Some (Some l) \<Rightarrow>
          (let n = l div 2;
               h = h(fresh \<mapsto> \<lparr>nvalue = None, nmatch = None, nid = 2 ^ 64 - 1, nnext = None, nprev = None\<rparr>)
           in case insertBefore h fresh subhistory of
                None \<Rightarrow> Some Crashed
              | Some (h, headEntry) \<Rightarrow>
                  check_loop model kill headEntry 0
                    \<lparr>heapS = h, entryS = subhistory, stateS = Init model, linS = newBitset n,
                     cacheS = (\<lambda>_. []), callsS = []\<rparr>))"

end
