(* ===== verification/LinSpec.thy ===== *)
theory LinSpec
  imports Prelude
begin

text \<open>
  Linearizability, independently of the checker. A history has \<open>n\<close> operations \<open>0, \<dots>, n - 1\<close>; \<open>prec i j\<close>
  says that operation \<open>i\<close> returned before operation \<open>j\<close> was called; \<open>stp s i\<close> runs operation \<open>i\<close> of the
  sequential specification, \<open>None\<close> when its recorded output is not possible in state \<open>s\<close>.
\<close>

fun runs :: "('s \<Rightarrow> nat \<Rightarrow> 's option) \<Rightarrow> 's \<Rightarrow> nat list \<Rightarrow> 's option" where
  "runs stp s [] = Some s"
| "runs stp s (i # is) = Option.bind (stp s i) (\<lambda>s'. runs stp s' is)"

definition linearization ::
  "nat set \<Rightarrow> (nat \<Rightarrow> nat \<Rightarrow> bool) \<Rightarrow> ('s \<Rightarrow> nat \<Rightarrow> 's option) \<Rightarrow> 's \<Rightarrow> nat list \<Rightarrow> bool" where
  "linearization ops prec stp s order \<longleftrightarrow>
     distinct order \<and> set order = ops \<and> sorted_wrt (\<lambda>i j. \<not> prec j i) order \<and> runs stp s order \<noteq> None"

text \<open>The game the search plays: extend the set \<open>S\<close> of linearized operations by an operation that no
  remaining one precedes.\<close>

definition frontier :: "nat \<Rightarrow> (nat \<Rightarrow> nat \<Rightarrow> bool) \<Rightarrow> nat set \<Rightarrow> nat set" where
  "frontier n prec S = {i. i < n \<and> i \<notin> S \<and> (\<forall>j<n. j \<notin> S \<longrightarrow> \<not> prec j i)}"

inductive wins :: "nat \<Rightarrow> (nat \<Rightarrow> nat \<Rightarrow> bool) \<Rightarrow> ('s \<Rightarrow> nat \<Rightarrow> 's option) \<Rightarrow> nat set \<Rightarrow> 's \<Rightarrow> bool"
  for n prec stp where
  wins_done: "{..<n} \<subseteq> S \<Longrightarrow> wins n prec stp S s"
| wins_step: "i \<in> frontier n prec S \<Longrightarrow> stp s i = Some s' \<Longrightarrow> wins n prec stp (insert i S) s' \<Longrightarrow> wins n prec stp S s"

inductive_cases winsE: "wins n prec stp S s"

lemma wins_complete:
  assumes "distinct order" "set order = {..<n} - S" "sorted_wrt (\<lambda>i j. \<not> prec j i) order"
    "runs stp s order \<noteq> None" "\<And>i. i < n \<Longrightarrow> \<not> prec i i"
  shows "wins n prec stp S s"
  using assms(1-4)
proof (induction order arbitrary: S s)
  case Nil
  then show ?case by (auto intro: wins_done)
next
  case (Cons i order)
  obtain s' where s': "stp s i = Some s'" "runs stp s' order \<noteq> None" using Cons.prems(4) by (cases "stp s i") auto
  have set: "set order = {..<n} - insert i S" using Cons.prems(1,2) by auto
  have i: "i < n" "i \<notin> S" using Cons.prems(2) by auto
  have "i \<in> frontier n prec S" unfolding frontier_def
  proof (intro CollectI conjI allI impI i)
    fix j assume "j < n" "j \<notin> S"
    then show "\<not> prec j i" using set Cons.prems(3) assms(5) by (cases "j = i") auto
  qed
  moreover have "wins n prec stp (insert i S) s'" using Cons.IH [OF _ set _ s'(2)] Cons.prems by simp
  ultimately show ?case using s'(1) by (blast intro: wins_step)
qed

lemma wins_sound:
  assumes "wins n prec stp S s"
  shows "\<exists>order. linearization ({..<n} - S) prec stp s order"
  using assms
proof induction
  case (wins_done S s)
  then show ?case by (intro exI [of _ "[]"]) (auto simp: linearization_def)
next
  case (wins_step i S s s')
  then obtain order where o: "linearization ({..<n} - insert i S) prec stp s' order" by blast
  then have "linearization ({..<n} - S) prec stp s (i # order)"
    using wins_step.hyps by (auto simp: linearization_def frontier_def)
  then show ?case by blast
qed

lemma wins_iff:
  assumes "\<And>i. i < n \<Longrightarrow> \<not> prec i i"
  shows "wins n prec stp {} s \<longleftrightarrow> (\<exists>order. linearization {..<n} prec stp s order)"
  using wins_sound [of n prec stp "{}" s] wins_complete [of _ n "{}" prec stp s] assms
  by (auto simp: linearization_def)

subsection \<open>Renaming and restriction\<close>

lemma runs_cong:
  "(\<And>s i. i \<in> set is \<Longrightarrow> stp s i = stp' s i) \<Longrightarrow> runs stp s is = runs stp' s is"
proof (induction "is" arbitrary: s)
  case (Cons i "is")
  then show ?case by (cases "stp' s i") auto
qed simp

lemma sorted_wrt_cong:
  "(\<And>i j. i \<in> set xs \<Longrightarrow> j \<in> set xs \<Longrightarrow> P i j = Q i j) \<Longrightarrow> sorted_wrt P xs = sorted_wrt Q xs"
  by (induction xs) auto

lemma linearization_cong:
  assumes "\<And>i j. i \<in> ops \<Longrightarrow> j \<in> ops \<Longrightarrow> prec i j = prec' i j" "\<And>s i. i \<in> ops \<Longrightarrow> stp s i = stp' s i"
  shows "linearization ops prec stp s order \<longleftrightarrow> linearization ops prec' stp' s order"
proof (cases "set order = ops")
  case True
  then have "sorted_wrt (\<lambda>i j. \<not> prec j i) order = sorted_wrt (\<lambda>i j. \<not> prec' j i) order"
    using assms(1) by (intro sorted_wrt_cong) auto
  moreover have "runs stp s order = runs stp' s order" using assms(2) True by (intro runs_cong) auto
  ultimately show ?thesis by (simp add: linearization_def)
qed (simp add: linearization_def)

lemma runs_map: "runs stp s (map f is) = runs (\<lambda>s i. stp s (f i)) s is"
proof (induction "is" arbitrary: s)
  case (Cons i "is")
  then show ?case by (cases "stp s (f i)") auto
qed simp

lemma linearization_rename:
  assumes "inj_on f ops"
  shows "(\<exists>order. linearization (f ` ops) prec stp s order) \<longleftrightarrow>
    (\<exists>order. linearization ops (\<lambda>i j. prec (f i) (f j)) (\<lambda>s i. stp s (f i)) s order)"
proof
  assume "\<exists>order. linearization ops (\<lambda>i j. prec (f i) (f j)) (\<lambda>s i. stp s (f i)) s order"
  then obtain order where "linearization ops (\<lambda>i j. prec (f i) (f j)) (\<lambda>s i. stp s (f i)) s order" by blast
  then have "linearization (f ` ops) prec stp s (map f order)"
    using assms by (auto simp: linearization_def distinct_map sorted_wrt_map runs_map)
  then show "\<exists>order. linearization (f ` ops) prec stp s order" by blast
next
  assume "\<exists>order. linearization (f ` ops) prec stp s order"
  then obtain order where o: "linearization (f ` ops) prec stp s order" by blast
  let ?g = "the_inv_into ops f"
  have m: "map f (map ?g order) = order"
    unfolding map_map comp_def using o assms by (intro map_idI f_the_inv_into_f) (auto simp: linearization_def)
  have "set (map ?g order) = ops" using o assms by (auto simp: linearization_def the_inv_into_f_f image_iff)
  moreover have "distinct (map ?g order)" using o m distinct_map [of f "map ?g order"] by (simp only: linearization_def) blast
  moreover have "sorted_wrt (\<lambda>i j. \<not> prec (f j) (f i)) (map ?g order)"
    using o m sorted_wrt_map [of "\<lambda>i j. \<not> prec j i" f "map ?g order"] by (simp only: linearization_def)
  moreover have "runs (\<lambda>s i. stp s (f i)) s (map ?g order) \<noteq> None"
    using o m runs_map [of stp s f "map ?g order"] by (simp only: linearization_def) simp
  ultimately have "linearization ops (\<lambda>i j. prec (f i) (f j)) (\<lambda>s i. stp s (f i)) s (map ?g order)"
    unfolding linearization_def by blast
  then show "\<exists>order. linearization ops (\<lambda>i j. prec (f i) (f j)) (\<lambda>s i. stp s (f i)) s order" by blast
qed

subsection \<open>Locality\<close>

text \<open>A store keeps one state per key and an operation acts on the state of its own key.\<close>

definition store_step :: "(nat \<Rightarrow> 'k) \<Rightarrow> ('s \<Rightarrow> nat \<Rightarrow> 's option) \<Rightarrow> ('k \<Rightarrow> 's) \<Rightarrow> nat \<Rightarrow> ('k \<Rightarrow> 's) option" where
  "store_step key stp g i = map_option (\<lambda>s'. g(key i := s')) (stp (g (key i)) i)"

lemma store_step_Some: "stp (g (key i)) i = Some s' \<Longrightarrow> store_step key stp g i = Some (g(key i := s'))"
  and store_step_None: "stp (g (key i)) i = None \<Longrightarrow> store_step key stp g i = None"
  by (simp_all add: store_step_def)

lemma runs_project:
  "runs (store_step key stp) g order = Some g' \<Longrightarrow>
   runs stp (g k) (filter (\<lambda>i. key i = k) order) = Some (g' k)"
proof (induction order arbitrary: g)
  case (Cons i order)
  obtain s' where s': "stp (g (key i)) i = Some s'" "runs (store_step key stp) (g(key i := s')) order = Some g'"
    using Cons.prems by (cases "stp (g (key i)) i") (simp_all add: store_step_Some store_step_None)
  show ?case using Cons.IH [OF s'(2)] s'(1) by auto
qed simp

lemma locality_split:
  assumes "linearization A prec (store_step key stp) g order"
  shows "linearization (A \<inter> {i. key i = k}) prec stp (g k) (filter (\<lambda>i. key i = k) order)"
  using assms runs_project [of key stp g order _ k]
  by (auto simp: linearization_def intro: sorted_wrt_filter)

lemma linearization_Cons:
  "linearization A prec stp s (i # order) \<longleftrightarrow>
     i \<in> A \<and> (\<forall>j\<in>A - {i}. \<not> prec j i) \<and> (\<exists>s'. stp s i = Some s' \<and> linearization (A - {i}) prec stp s' order)"
proof -
  have "set (i # order) = A \<and> i \<notin> set order \<longleftrightarrow> i \<in> A \<and> set order = A - {i}" by auto
  then show ?thesis unfolding linearization_def by (cases "stp s i") auto
qed

text \<open>Linearizations of the keys can be merged: the remaining operation that returns first belongs to
  some key, and the next operation of that key may always go first.\<close>

lemma locality_join:
  fixes call ret :: "nat \<Rightarrow> int"
  defines "prec \<equiv> \<lambda>i j. ret i < call j"
  assumes "finite A" "\<And>i. i \<in> A \<Longrightarrow> call i < ret i"
    "\<And>k. \<exists>order. linearization (A \<inter> {i. key i = k}) prec stp (g k) order"
  shows "\<exists>order. linearization A prec (store_step key stp) g order"
  using assms(2-)
proof (induction "card A" arbitrary: A g)
  case 0
  then show ?case by (intro exI [of _ "[]"]) (simp add: linearization_def)
next
  case (Suc n)
  have "A \<noteq> {}" using Suc.hyps(2) by auto
  then obtain j where j: "j \<in> A" "\<And>i. i \<in> A \<Longrightarrow> ret j \<le> ret i"
    using ex_is_arg_min_if_finite [of A ret] Suc.prems(1) by (auto simp: is_arg_min_linorder)
  let ?K = "A \<inter> {i. key i = key j}"
  obtain order where o: "linearization ?K prec stp (g (key j)) order" using Suc.prems(3) by blast
  then obtain h rest where hr: "order = h # rest" using j(1) by (cases order) (auto simp: linearization_def)
  obtain s' where h: "h \<in> A" "key h = key j" "\<forall>i\<in>?K - {h}. \<not> prec i h" "stp (g (key j)) h = Some s'"
    "linearization (?K - {h}) prec stp s' rest"
    using o unfolding hr linearization_Cons by auto
  have "\<not> ret j < call h" using h(1-3) j(1) Suc.prems(2) [OF h(1)] by (cases "h = j") (auto simp: prec_def)
  then have min: "\<forall>i\<in>A - {h}. \<not> prec i h" using j(2) by (auto simp: prec_def dest!: j(2))
  have "\<exists>order. linearization ((A - {h}) \<inter> {i. key i = k}) prec stp ((g(key h := s')) k) order" for k
  proof (cases "k = key h")
    case True
    have "(A - {h}) \<inter> {i. key i = k} = ?K - {h}" using True h(2) by auto
    then show ?thesis using h(5) True by auto
  next
    case False
    then have "(A - {h}) \<inter> {i. key i = k} = A \<inter> {i. key i = k}" by auto
    then show ?thesis using Suc.prems(3) [of k] False by simp
  qed
  moreover have "n = card (A - {h})" "finite (A - {h})" using Suc.prems(1) Suc.hyps(2) h(1) by simp_all
  ultimately obtain order' where o': "linearization (A - {h}) prec (store_step key stp) (g(key h := s')) order'"
    using Suc.hyps(1) [of "A - {h}" "g(key h := s')"] Suc.prems(2) by blast
  have "linearization A prec (store_step key stp) g (h # order')"
    unfolding linearization_Cons using h(1,2,4) min o' by (simp add: store_step_def)
  then show ?case by blast
qed

end
