(* ===== verification/LinProof.thy ===== *)
theory LinProof
  imports LinCheck LinSpec
begin

text \<open>
  Correctness of \<open>checkSingle\<close>: on the list of a well-formed history and with a true equality on
  states it returns, never panics, and answers exactly whether the history is linearizable. The
  search is followed step by step: the heap is the initial heap with the calls on the stack lifted,
  every configuration in the cache is on the stack or cannot be completed, and each iteration makes
  progress in a lexicographic measure.
\<close>

subsection \<open>A history laid out in the heap\<close>

text \<open>Operation \<open>i\<close> has its call at node \<open>vca i\<close> and its return at node \<open>vra i\<close>; nodes are numbered from
  the end of the list, so a node with a larger number comes earlier.\<close>

record 'v view =
  vN :: nat
  vn :: nat
  vca :: "nat \<Rightarrow> nat"
  vra :: "nat \<Rightarrow> nat"
  vin :: "nat \<Rightarrow> 'v iface"
  vout :: "nat \<Rightarrow> 'v iface"

definition vprec :: "'v view \<Rightarrow> nat \<Rightarrow> nat \<Rightarrow> bool" where
  "vprec V i j \<longleftrightarrow> vca V j < vra V i"

definition vstep :: "('v, 's) Model \<Rightarrow> 'v view \<Rightarrow> 's \<Rightarrow> nat \<Rightarrow> 's option" where
  "vstep m V s i = (case Step m s (vin V i) (vout V i) of Some (ok, s') \<Rightarrow> if ok then Some s' else None | None \<Rightarrow> None)"

definition vfront :: "'v view \<Rightarrow> nat set \<Rightarrow> nat set" where
  "vfront V S = frontier (vn V) (vprec V) S"

definition vwins :: "('v, 's) Model \<Rightarrow> 'v view \<Rightarrow> nat set \<Rightarrow> 's \<Rightarrow> bool" where
  "vwins m V S s \<longleftrightarrow> wins (vn V) (vprec V) (vstep m V) S s"

definition nodes_ok :: "(nat \<rightharpoonup> 'v iface \<times> nat option \<times> nat) \<Rightarrow> 'v view \<Rightarrow> bool" where
  "nodes_ok B V \<longleftrightarrow>
     (\<forall>i<vn V. vca V i < vN V \<and> vra V i < vca V i \<and> B (vca V i) = Some (vin V i, Some (vra V i), i) \<and>
        B (vra V i) = Some (vout V i, None, i)) \<and>
     (\<forall>a<vN V. \<exists>i<vn V. a = vca V i \<or> a = vra V i)"

definition remaining :: "'v view \<Rightarrow> nat set \<Rightarrow> nat list" where
  "remaining V S = filter (\<lambda>a. \<forall>i<vn V. i \<in> S \<longrightarrow> a \<noteq> vca V i \<and> a \<noteq> vra V i) (rev [0..<vN V])"

lemma nodes_okD:
  assumes "nodes_ok B V" "i < vn V"
  shows "vca V i < vN V" "vra V i < vca V i" "B (vca V i) = Some (vin V i, Some (vra V i), i)"
    "B (vra V i) = Some (vout V i, None, i)"
  using assms by (auto simp: nodes_ok_def)

lemma node_inj:
  assumes "nodes_ok B V" "i < vn V" "j < vn V"
  shows "vca V i = vca V j \<longleftrightarrow> i = j" "vra V i = vra V j \<longleftrightarrow> i = j" "vca V i \<noteq> vra V j" "vra V i \<noteq> vca V j"
proof -
  have key: "a = b \<Longrightarrow> B a = Some x \<Longrightarrow> B b = Some y \<Longrightarrow> x = y" for a b x y by simp
  note i = nodes_okD(3,4) [OF assms(1,2)] and j = nodes_okD(3,4) [OF assms(1,3)]
  show "vca V i = vca V j \<longleftrightarrow> i = j" using key [OF _ i(1) j(1)] by blast
  show "vra V i = vra V j \<longleftrightarrow> i = j" using key [OF _ i(2) j(2)] by blast
  show "vca V i \<noteq> vra V j" using key [OF _ i(1) j(2)] by blast
  show "vra V i \<noteq> vca V j" using key [OF _ i(2) j(1)] by blast
qed

lemma remaining_sorted: "sorted_wrt (>) (remaining V S)"
proof -
  have "sorted_wrt (>) (rev [0..<k])" for k by (induction k) (auto simp: sorted_wrt_append)
  then show ?thesis unfolding remaining_def by (rule sorted_wrt_filter)
qed

lemma remaining_distinct: "distinct (remaining V S)"
  by (simp add: remaining_def)

lemma in_remaining:
  assumes "nodes_ok B V"
  shows "a \<in> set (remaining V S) \<longleftrightarrow> (\<exists>i<vn V. i \<notin> S \<and> (a = vca V i \<or> a = vra V i))"
proof
  assume "a \<in> set (remaining V S)"
  then have "a < vN V" "\<forall>i<vn V. i \<in> S \<longrightarrow> a \<noteq> vca V i \<and> a \<noteq> vra V i" by (auto simp: remaining_def)
  then show "\<exists>i<vn V. i \<notin> S \<and> (a = vca V i \<or> a = vra V i)" using assms unfolding nodes_ok_def by blast
next
  assume "\<exists>i<vn V. i \<notin> S \<and> (a = vca V i \<or> a = vra V i)"
  then obtain i where i: "i < vn V" "i \<notin> S" "a = vca V i \<or> a = vra V i" by blast
  then have "a < vN V" using nodes_okD [OF assms i(1)] by auto
  then show "a \<in> set (remaining V S)" using i node_inj [OF assms i(1)] by (auto simp: remaining_def)
qed

lemma remaining_empty:
  assumes "nodes_ok B V"
  shows "remaining V S = [] \<longleftrightarrow> {..<vn V} \<subseteq> S"
proof
  assume "remaining V S = []"
  then have "\<not> (\<exists>i<vn V. i \<notin> S \<and> (a = vca V i \<or> a = vra V i))" for a
    using in_remaining [OF assms, of a S] by simp
  then show "{..<vn V} \<subseteq> S" by blast
next
  assume "{..<vn V} \<subseteq> S"
  then have "a \<notin> set (remaining V S)" for a using in_remaining [OF assms, of a S] by blast
  then show "remaining V S = []" by (cases "remaining V S") auto
qed

text \<open>Lifting operation \<open>i\<close> turns the list of \<open>S\<close> into the list of \<open>insert i S\<close>.\<close>

lemma remaining_split:
  assumes "nodes_ok B V" "i < vn V" "i \<notin> S"
  obtains pre mid post where "remaining V S = pre @ vca V i # mid @ vra V i # post"
    "remaining V (insert i S) = pre @ mid @ post"
proof -
  have "vca V i \<in> set (remaining V S)" using in_remaining [OF assms(1)] assms by blast
  then obtain pre rest where 1: "remaining V S = pre @ vca V i # rest" by (meson split_list)
  have gt: "\<forall>a\<in>set pre. vca V i < a" using remaining_sorted [of V S] 1 by (auto simp: sorted_wrt_append)
  have "vra V i \<in> set (remaining V S)" using in_remaining [OF assms(1)] assms by blast
  then have "vra V i \<in> set rest" using 1 gt nodes_okD(2) [OF assms(1,2)] by auto
  then obtain mid post where 2: "rest = mid @ vra V i # post" by (meson split_list)
  have f: "remaining V (insert i S) = filter (\<lambda>a. a \<noteq> vca V i \<and> a \<noteq> vra V i) (remaining V S)"
    using assms(2) by (auto simp: remaining_def intro!: filter_cong)
  have d: "distinct (pre @ vca V i # mid @ vra V i # post)" using remaining_distinct [of V S] 1 2 by simp
  have "filter (\<lambda>a. a \<noteq> vca V i \<and> a \<noteq> vra V i) as = as" if "vca V i \<notin> set as" "vra V i \<notin> set as" for as
    using that by (intro filter_True) auto
  then have "remaining V (insert i S) = pre @ mid @ post" using d unfolding f 1 2 by simp
  then show ?thesis using that 1 2 by blast
qed

text \<open>The calls before the first return are the frontier.\<close>

lemma frontier_call:
  assumes "nodes_ok B V" "remaining V S = pre @ vca V i # post" "i < vn V"
    "\<forall>a\<in>set pre. \<exists>j<vn V. a = vca V j"
  shows "i \<in> vfront V S"
proof -
  have "vca V i \<in> set (remaining V S)" using assms(2) by simp
  then have "i \<notin> S" using in_remaining [OF assms(1)] node_inj [OF assms(1,3)] by metis
  moreover have "\<not> vprec V j i" if j: "j < vn V" "j \<notin> S" for j
  proof
    assume "vprec V j i"
    then have gt: "vca V i < vra V j" by (simp add: vprec_def)
    have "vra V j \<in> set (remaining V S)" using in_remaining [OF assms(1)] j by blast
    moreover have "\<forall>b\<in>set post. b < vca V i" using remaining_sorted [of V S] assms(2) by (auto simp: sorted_wrt_append)
    ultimately have "vra V j \<in> set pre" using gt assms(2) by auto
    then show False using assms(4) node_inj [OF assms(1) j(1)] by metis
  qed
  ultimately show ?thesis using assms(3) by (simp add: vfront_def frontier_def)
qed

lemma frontier_before_return:
  assumes "nodes_ok B V" "remaining V S = pre @ vra V j # post" "j < vn V" "i \<in> vfront V S"
  shows "vca V i \<in> set pre"
proof -
  have i: "i < vn V" "i \<notin> S" using assms(4) by (auto simp: vfront_def frontier_def)
  have "vra V j \<in> set (remaining V S)" using assms(2) by simp
  then have "j \<notin> S" using in_remaining [OF assms(1)] node_inj [OF assms(1,3)] by metis
  then have "\<not> vca V i < vra V j" using assms(3,4) by (auto simp: vfront_def frontier_def vprec_def)
  moreover have "vca V i \<in> set (remaining V S)" using in_remaining [OF assms(1)] i by blast
  moreover have "\<forall>b\<in>set post. b < vra V j" using remaining_sorted [of V S] assms(2) by (auto simp: sorted_wrt_append)
  moreover have "vca V i \<noteq> vra V j" by (rule node_inj(3) [OF assms(1) i(1) assms(3)])
  ultimately show ?thesis unfolding assms(2) by auto
qed

subsection \<open>The heap along the stack\<close>

definition heap_ok :: "(nat \<rightharpoonup> 'v iface \<times> nat option \<times> nat) \<Rightarrow> 'v view \<Rightarrow> nat set \<Rightarrow> 'v heap \<Rightarrow> bool" where
  "heap_ok B V S h \<longleftrightarrow> seg h None (vN V # remaining V S) None \<and> bodies h = B"

lemma head_fresh: "vN V \<notin> set (remaining V S)"
  by (auto simp: remaining_def)

lemma bodiesE:
  assumes "heap_ok B V S h" "B a = Some (v, m, i)"
  obtains nd where "h a = Some nd" "nvalue nd = v" "nmatch nd = m" "nid nd = i"
proof -
  have "bodies h a = Some (v, m, i)" using assms by (simp add: heap_ok_def)
  then show ?thesis using that by (auto simp: bodies_def body_def)
qed

lemma heap_next:
  assumes "heap_ok B V S h" "remaining V S = pre @ x # post" "h x = Some nd"
  shows "nnext nd = first post None"
  using assms by (auto simp: heap_ok_def)

lemma heap_head:
  assumes "heap_ok B V S h"
  obtains nd where "h (vN V) = Some nd" "nnext nd = first (remaining V S) None"
  using assms by (auto simp: heap_ok_def)

lemma lift_at:
  assumes "nodes_ok B V" "heap_ok B V S h" "i < vn V" "i \<notin> S"
  obtains h' where "lift_node h (vca V i) = Some h'" "heap_ok B V (insert i S) h'" "unlift_node h' (vca V i) = Some h"
proof -
  obtain pre mid post where s: "remaining V S = pre @ vca V i # mid @ vra V i # post"
    "remaining V (insert i S) = pre @ mid @ post"
    using remaining_split [OF assms(1,3,4)] by blast
  obtain nd where nd: "h (vca V i) = Some nd" "nmatch nd = Some (vra V i)"
    using bodiesE [OF assms(2) nodes_okD(3) [OF assms(1,3)]] by blast
  have L: "seg h None (vN V # pre @ vca V i # mid @ vra V i # post) None"
    using assms(2) unfolding heap_ok_def s(1) by blast
  have D: "distinct (vN V # pre @ vca V i # mid @ vra V i # post)"
    using remaining_distinct [of V S] head_fresh [of V S] unfolding s(1) by simp
  show ?thesis
  proof (rule lift_ok [OF L D nd])
    fix h' assume h': "lift_node h (vca V i) = Some h'" "seg h' None (vN V # pre @ mid @ post) None"
      "bodies h' = bodies h" "unlift_node h' (vca V i) = Some h"
    have "heap_ok B V (insert i S) h'" using h'(2,3) assms(2) unfolding heap_ok_def s(2) by simp
    then show thesis using that h' by blast
  qed
qed

text \<open>The heap after lifting the calls of the operations \<open>is\<close> in turn.\<close>

fun lifts :: "'v view \<Rightarrow> 'v heap \<Rightarrow> nat list \<Rightarrow> 'v heap option" where
  "lifts V h [] = Some h"
| "lifts V h (i # is) = Option.bind (lift_node h (vca V i)) (\<lambda>h'. lifts V h' is)"

lemma lifts_snoc: "lifts V h (is @ [i]) = Option.bind (lifts V h is) (\<lambda>h'. lift_node h' (vca V i))"
  by (induction "is" arbitrary: h) (auto split: bind_splits)

lemma lifts_ok:
  assumes "nodes_ok B V" "heap_ok B V S h" "distinct is" "set is \<inter> S = {}" "set is \<subseteq> {..<vn V}"
  obtains h' where "lifts V h is = Some h'" "heap_ok B V (S \<union> set is) h'"
proof -
  have "\<exists>h'. lifts V h is = Some h' \<and> heap_ok B V (S \<union> set is) h'"
    using assms(2-)
  proof (induction "is" arbitrary: h S)
    case (Cons i "is")
    have i: "i < vn V" "i \<notin> S" using Cons.prems by auto
    obtain h1 where h1: "lift_node h (vca V i) = Some h1" "heap_ok B V (insert i S) h1"
      using lift_at [OF assms(1) Cons.prems(1) i] by blast
    show ?case using Cons.IH [OF h1(2)] Cons.prems h1(1) by simp
  qed simp
  then show ?thesis using that by blast
qed

subsection \<open>Paths\<close>

text \<open>\<open>losing m V S s i\<close>: linearizing \<open>i\<close> next cannot be completed. A path is the stack of the search: every
  operation on it was on the frontier, and the calls before it in the list are losing.\<close>

definition losing :: "('v, 's) Model \<Rightarrow> 'v view \<Rightarrow> nat set \<Rightarrow> 's \<Rightarrow> nat \<Rightarrow> bool" where
  "losing m V S s i \<longleftrightarrow> (\<forall>s'. vstep m V s i = Some s' \<longrightarrow> \<not> vwins m V (insert i S) s')"

definition choice_ok :: "('v, 's) Model \<Rightarrow> 'v view \<Rightarrow> nat set \<Rightarrow> 's \<Rightarrow> nat \<Rightarrow> bool" where
  "choice_ok m V S s i \<longleftrightarrow> i \<in> vfront V S \<and>
     (\<exists>pre post. remaining V S = pre @ vca V i # post \<and> (\<forall>a\<in>set pre. \<exists>j<vn V. a = vca V j \<and> losing m V S s j))"

fun path_ok :: "('v, 's) Model \<Rightarrow> 'v view \<Rightarrow> nat set \<Rightarrow> 's \<Rightarrow> (nat \<times> 's) list \<Rightarrow> 's \<Rightarrow> bool" where
  "path_ok m V S s [] t \<longleftrightarrow> t = s"
| "path_ok m V S s ((i, s0) # p) t \<longleftrightarrow> s0 = s \<and> choice_ok m V S s i \<and>
     (\<exists>u. vstep m V s i = Some u \<and> path_ok m V (insert i S) u p t)"

lemma path_ok_snoc:
  "path_ok m V S s (p @ [(i, s0)]) t \<longleftrightarrow>
     path_ok m V S s p s0 \<and> choice_ok m V (S \<union> fst ` set p) s0 i \<and> vstep m V s0 i = Some t"
  by (induction p arbitrary: S s) auto

lemma choice_front: "choice_ok m V S s i \<Longrightarrow> i < vn V \<and> i \<notin> S"
  by (auto simp: choice_ok_def vfront_def frontier_def)

lemma path_ids:
  "path_ok m V S s p t \<Longrightarrow> distinct (map fst p) \<and> fst ` set p \<subseteq> {..<vn V} \<and> fst ` set p \<inter> S = {}"
proof (induction p arbitrary: S s)
  case (Cons a p)
  obtain i s0 where a: "a = (i, s0)" by (cases a)
  then obtain u where u: "choice_ok m V S s i" "path_ok m V (insert i S) u p t" using Cons.prems by auto
  show ?case using Cons.IH [OF u(2)] choice_front [OF u(1)] a by (auto simp: image_iff)
qed simp

lemma path_runs: "path_ok m V S s p t \<Longrightarrow> runs (vstep m V) s (map fst p) = Some t"
  by (induction p arbitrary: S s) auto

text \<open>A path that can be completed shows that its start can.\<close>

lemma path_wins: "path_ok m V S s p t \<Longrightarrow> vwins m V (S \<union> fst ` set p) t \<Longrightarrow> vwins m V S s"
proof (induction p arbitrary: S s)
  case (Cons a p)
  obtain i s0 where a: "a = (i, s0)" by (cases a)
  then obtain u where u: "choice_ok m V S s i" "vstep m V s i = Some u" "path_ok m V (insert i S) u p t"
    using Cons.prems(1) by auto
  have "vwins m V (insert i S) u" using Cons.IH [OF u(3)] Cons.prems(2) a by simp
  then show ?case using u unfolding vwins_def choice_ok_def vfront_def by (blast intro: wins_step)
qed simp

subsection \<open>The cache\<close>

definition eq_ok :: "('v, 's) Model \<Rightarrow> bool" where
  "eq_ok m \<longleftrightarrow> (\<exists>eq. Equal m = Some eq \<and> (\<forall>s t. eq s t \<longleftrightarrow> s = t))"

definition cached :: "'s cache \<Rightarrow> (nat set \<times> 's) set" where
  "cached c = {(bits_of (linearized x), cstate x) | k x. x \<in> set (c k)}"

definition cache_wf :: "nat \<Rightarrow> 's cache \<Rightarrow> bool" where
  "cache_wf n c \<longleftrightarrow> (\<forall>k. \<forall>x\<in>set (c k). bs_hash (linearized x) = k \<and> length (linearized x) = length (newBitset n))"

lemma cache_scan_iff:
  "(\<And>s t. eq s t \<longleftrightarrow> s = t) \<Longrightarrow>
   cache_scan (Some eq) e xs = Some (\<exists>x\<in>set xs. linearized e = linearized x \<and> cstate e = cstate x)"
  by (induction xs) (auto simp: bs_equals_iff)

lemma cacheContains_iff:
  assumes "eq_ok m" "cache_wf n c" "length (linearized e) = length (newBitset n)"
  shows "cacheContains m c e = Some ((bits_of (linearized e), cstate e) \<in> cached c)"
proof -
  obtain eq where eq: "Equal m = Some eq" "\<And>s t. eq s t \<longleftrightarrow> s = t" using assms(1) by (auto simp: eq_ok_def)
  have "(\<exists>x\<in>set (c (bs_hash (linearized e))). linearized e = linearized x \<and> cstate e = cstate x) \<longleftrightarrow>
    (bits_of (linearized e), cstate e) \<in> cached c"
  proof
    assume "(bits_of (linearized e), cstate e) \<in> cached c"
    then obtain k x where x: "x \<in> set (c k)" "bits_of (linearized e) = bits_of (linearized x)" "cstate e = cstate x"
      by (auto simp: cached_def)
    then have "bs_hash (linearized x) = k" "length (linearized e) = length (linearized x)"
      using assms(2,3) by (auto simp: cache_wf_def)
    then show "\<exists>x\<in>set (c (bs_hash (linearized e))). linearized e = linearized x \<and> cstate e = cstate x"
      using x bits_of_inject by (metis (lifting))
  qed (fastforce simp: cached_def)
  then show ?thesis unfolding cacheContains_def eq(1) cache_scan_iff [OF eq(2)] by simp
qed

lemma cached_insert:
  "cached (c(k := c k @ [x])) = insert (bits_of (linearized x), cstate x) (cached c)"
  by (auto simp: cached_def split: if_splits)

lemma cache_wf_insert:
  "cache_wf n c \<Longrightarrow> k = bs_hash (linearized x) \<Longrightarrow> length (linearized x) = length (newBitset n) \<Longrightarrow>
   cache_wf n (c(k := c k @ [x]))"
  by (auto simp: cache_wf_def)

text \<open>The configurations any search can reach; there are finitely many.\<close>

definition confs :: "('v, 's) Model \<Rightarrow> 'v view \<Rightarrow> (nat set \<times> 's) set" where
  "confs m V = {(set xs, t) | xs t. distinct xs \<and> set xs \<subseteq> {..<vn V} \<and> runs (vstep m V) (Init m) xs = Some t}"

lemma finite_confs: "finite (confs m V)"
proof -
  have "confs m V \<subseteq> (\<lambda>xs. (set xs, the (runs (vstep m V) (Init m) xs))) ` {xs. set xs \<subseteq> {..<vn V} \<and> distinct xs}"
    by (force simp: confs_def)
  then show ?thesis by (rule finite_subset) (intro finite_imageI finite_subset_distinct, simp)
qed

lemma path_conf: "path_ok m V {} (Init m) p t \<Longrightarrow> (fst ` set p, t) \<in> confs m V"
  using path_ids [of m V "{}" "Init m" p t] path_runs [of m V "{}" "Init m" p t]
  unfolding confs_def by (intro CollectI exI [of _ "map fst p"] exI [of _ t]) simp

subsection \<open>The invariant of the search\<close>

definition on_path :: "('v, 's) Model \<Rightarrow> 'v view \<Rightarrow> (nat \<times> 's) list \<Rightarrow> nat set \<times> 's \<Rightarrow> bool" where
  "on_path m V path c \<longleftrightarrow> (\<exists>p q. path = p @ q \<and> fst c = fst ` set p \<and> path_ok m V {} (Init m) p (snd c))"

definition cache_ok :: "('v, 's) Model \<Rightarrow> 'v view \<Rightarrow> (nat \<times> 's) list \<Rightarrow> 's cache \<Rightarrow> bool" where
  "cache_ok m V path c \<longleftrightarrow> cache_wf (vn V) c \<and>
     (\<forall>x\<in>cached c. x \<in> confs m V \<and> (on_path m V path x \<or> \<not> vwins m V (fst x) (snd x)))"

definition at_entry :: "('v, 's) Model \<Rightarrow> 'v view \<Rightarrow> nat set \<Rightarrow> 's \<Rightarrow> nat option \<Rightarrow> bool" where
  "at_entry m V S s e \<longleftrightarrow>
     (\<exists>pre post. remaining V S = pre @ post \<and> e = first post None \<and>
        (\<forall>a\<in>set pre. \<exists>j<vn V. a = vca V j \<and> losing m V S s j))"

definition inv :: "('v, 's) Model \<Rightarrow> 'v view \<Rightarrow> 'v heap \<Rightarrow> (nat \<times> 's) list \<Rightarrow> ('v, 's) search \<Rightarrow> bool" where
  "inv m V h0 path st \<longleftrightarrow>
     callsS st = map (\<lambda>(i, s). (vca V i, s)) path \<and>
     path_ok m V {} (Init m) path (stateS st) \<and>
     lifts V h0 (map fst path) = Some (heapS st) \<and>
     bits_of (linS st) = fst ` set path \<and> length (linS st) = length (newBitset (vn V)) \<and>
     cache_ok m V path (cacheS st) \<and>
     at_entry m V (fst ` set path) (stateS st) (entryS st)"

definition setting :: "('v, 's) Model \<Rightarrow> 'v view \<Rightarrow> (nat \<rightharpoonup> 'v iface \<times> nat option \<times> nat) \<Rightarrow> 'v heap \<Rightarrow> bool" where
  "setting m V B h0 \<longleftrightarrow> nodes_ok B V \<and> heap_ok B V {} h0 \<and> eq_ok m \<and>
     (\<forall>s. \<forall>i<vn V. Step m s (vin V i) (vout V i) \<noteq> None)"

definition progress :: "('v, 's) Model \<Rightarrow> 'v view \<Rightarrow> (('v, 's) search \<times> ('v, 's) search) set" where
  "progress m V = measures [\<lambda>st. card (confs m V - cached (cacheS st)), \<lambda>st. length (callsS st),
     \<lambda>st. case entryS st of None \<Rightarrow> 0 | Some a \<Rightarrow> a]"

lemma on_path_bits: "on_path m V path c \<Longrightarrow> fst c \<subseteq> fst ` set path"
  by (auto simp: on_path_def)

lemma on_path_snoc:
  assumes "on_path m V (path @ [x]) c" "path_ok m V {} (Init m) (path @ [x]) t"
  shows "on_path m V path c \<or> c = (fst ` set (path @ [x]), t)"
proof -
  obtain p q where pq: "path @ [x] = p @ q" "fst c = fst ` set p" "path_ok m V {} (Init m) p (snd c)"
    using assms(1) unfolding on_path_def by blast
  show ?thesis
  proof (cases q rule: rev_cases)
    case Nil
    then have "p = path @ [x]" using pq(1) by simp
    moreover from this have "snd c = t" using path_runs [OF pq(3)] path_runs [OF assms(2)] by simp
    ultimately show ?thesis using pq(2) by (auto simp: prod_eq_iff)
  next
    case (snoc q' y)
    then show ?thesis using pq by (auto simp: on_path_def)
  qed
qed

lemma on_path_extend: "on_path m V path c \<Longrightarrow> on_path m V (path @ [x]) c"
  by (fastforce simp: on_path_def)

text \<open>The entry under consideration exists as long as the list is not empty.\<close>

lemma at_entryE:
  assumes "nodes_ok B V" "at_entry m V S s e" "remaining V S \<noteq> []"
  obtains pre x post where "remaining V S = pre @ x # post" "e = Some x"
    "\<forall>a\<in>set pre. \<exists>j<vn V. a = vca V j \<and> losing m V S s j"
proof -
  obtain pre post where p: "remaining V S = pre @ post" "e = first post None"
    "\<forall>a\<in>set pre. \<exists>j<vn V. a = vca V j \<and> losing m V S s j" using assms(2) unfolding at_entry_def by blast
  show ?thesis
  proof (cases post)
    case Nil
    obtain a where "a \<in> set (remaining V S)" using assms(3) by (cases "remaining V S") auto
    then obtain i where i: "i < vn V" "i \<notin> S" using in_remaining [OF assms(1)] by blast
    then have "vra V i \<in> set pre" using in_remaining [OF assms(1)] p(1) Nil by simp blast
    then show ?thesis using p(3) node_inj(4) [OF assms(1) i(1)] by blast
  next
    case (Cons x rest)
    then show ?thesis using that p by simp
  qed
qed

lemma at_entry_next:
  assumes "remaining V S = pre @ vca V i # post" "i < vn V" "losing m V S s i"
    "\<forall>a\<in>set pre. \<exists>j<vn V. a = vca V j \<and> losing m V S s j"
  shows "at_entry m V S s (first post None)"
  unfolding at_entry_def using assms by (intro exI [of _ "pre @ [vca V i]"] exI [of _ post]) auto

text \<open>At a return entry every continuation has been tried.\<close>

lemma stuck_at_return:
  assumes "nodes_ok B V" "remaining V S = pre @ vra V j # post" "j < vn V"
    "\<forall>a\<in>set pre. \<exists>j<vn V. a = vca V j \<and> losing m V S s j"
  shows "\<not> vwins m V S s"
proof
  assume "vwins m V S s"
  then have "wins (vn V) (vprec V) (vstep m V) S s" by (simp add: vwins_def)
  then consider "{..<vn V} \<subseteq> S"
    | i s' where "i \<in> frontier (vn V) (vprec V) S" "vstep m V s i = Some s'" "wins (vn V) (vprec V) (vstep m V) (insert i S) s'"
    by (rule winsE) auto
  then show False
  proof cases
    case 1
    then show False using remaining_empty [OF assms(1), of S] assms(2) by simp
  next
    case (2 i s')
    then have "vca V i \<in> set pre" using frontier_before_return [OF assms(1-3)] by (simp add: vfront_def)
    then obtain k where k: "k < vn V" "vca V i = vca V k" "losing m V S s k" using assms(4) by blast
    have "i < vn V" using 2(1) by (simp add: frontier_def)
    then have "k = i" using k(2) node_inj(1) [OF assms(1) _ k(1)] by blast
    then show False using k(3) 2 by (simp add: losing_def vwins_def)
  qed
qed

lemma progress_entry:
  assumes "remaining V S = pre @ x # post" "post \<noteq> []" "entryS st = Some x"
  shows "(st\<lparr>entryS := first post None\<rparr>, st) \<in> progress m V"
proof -
  obtain y rest where y: "post = y # rest" using assms(2) by (cases post) auto
  then have "y < x" using remaining_sorted [of V S] assms(1) by (simp add: sorted_wrt_append)
  then show ?thesis using assms(3) y by (simp add: progress_def)
qed

lemma after_call_nonempty:
  assumes "nodes_ok B V" "remaining V S = pre @ vca V i # post" "i < vn V"
  shows "post \<noteq> []"
proof
  assume "post = []"
  have "vca V i \<in> set (remaining V S)" using assms(2) by simp
  then have "i \<notin> S" using in_remaining [OF assms(1)] node_inj [OF assms(1,3)] by metis
  then have "vra V i \<in> set (remaining V S)" using in_remaining [OF assms(1)] assms(3) by blast
  then have "vra V i \<in> set pre" using assms(2) \<open>post = []\<close> node_inj(4) [OF assms(1,3,3)] by auto
  then have "vca V i < vra V i" using remaining_sorted [of V S] assms(2) by (auto simp: sorted_wrt_append)
  then show False using nodes_okD(2) [OF assms(1,3)] by simp
qed

subsection \<open>One iteration\<close>

lemma inv_heap:
  assumes "setting m V B h0" "inv m V h0 path st"
  shows "heap_ok B V (fst ` set path) (heapS st)"
proof -
  have "distinct (map fst path)" "set (map fst path) \<inter> {} = {}" "set (map fst path) \<subseteq> {..<vn V}"
    using assms(2) path_ids [of m V "{}" "Init m" path "stateS st"] by (auto simp: inv_def)
  then show ?thesis using lifts_ok [of B V "{}" h0 "map fst path"] assms by (auto simp: setting_def inv_def)
qed

text \<open>Skipping a losing call.\<close>

lemma inv_skip:
  assumes "inv m V h0 path st" "remaining V (fst ` set path) = pre @ vca V i # post" "i < vn V"
    "\<forall>a\<in>set pre. \<exists>j<vn V. a = vca V j \<and> losing m V (fst ` set path) (stateS st) j"
    "losing m V (fst ` set path) (stateS st) i"
  shows "inv m V h0 path (st\<lparr>entryS := first post None\<rparr>)"
  using assms(1) at_entry_next [OF assms(2,3,5,4)] by (simp add: inv_def)

text \<open>Linearizing a call.\<close>

lemma inv_push:
  assumes "setting m V B h0" "inv m V h0 path st" "choice_ok m V (fst ` set path) (stateS st) i"
    "vstep m V (stateS st) i = Some u" "bs_set (linS st) i = Some lin"
    "lift_node (heapS st) (vca V i) = Some h"
  shows "inv m V h0 (path @ [(i, stateS st)])
    \<lparr>heapS = h, entryS = first (remaining V (insert i (fst ` set path))) None, stateS = u, linS = lin,
     cacheS = (cacheS st)(bs_hash lin := cacheS st (bs_hash lin) @ [\<lparr>linearized = lin, cstate = u\<rparr>]),
     callsS = callsS st @ [(vca V i, stateS st)]\<rparr>"
proof -
  let ?path = "path @ [(i, stateS st)]" and ?x = "\<lparr>linearized = lin, cstate = u\<rparr>"
  let ?c = "(cacheS st)(bs_hash lin := cacheS st (bs_hash lin) @ [?x])"
  have p: "path_ok m V {} (Init m) ?path u"
    using assms(2-4) by (simp add: path_ok_snoc inv_def)
  have bits: "bits_of lin = fst ` set ?path" "length lin = length (newBitset (vn V))"
    using bs_set_bits [OF assms(5)] assms(2) by (auto simp: inv_def)
  have "cached ?c = insert (fst ` set ?path, u) (cached (cacheS st))"
    using cached_insert [of "cacheS st" "bs_hash lin" ?x] bits(1) by simp
  moreover have "on_path m V ?path (fst ` set ?path, u)"
    unfolding on_path_def using p by (intro exI [of _ ?path] exI [of _ "[]"]) simp
  moreover have "cache_wf (vn V) ?c"
    using assms(2) bits(2) by (intro cache_wf_insert) (auto simp: inv_def cache_ok_def)
  moreover have "x \<in> confs m V \<and> (on_path m V ?path x \<or> \<not> vwins m V (fst x) (snd x))" if "x \<in> cached (cacheS st)" for x
    using that assms(2) on_path_extend [of m V path x] by (auto simp: inv_def cache_ok_def)
  ultimately have c: "cache_ok m V ?path ?c"
    using path_conf [OF p] unfolding cache_ok_def by (simp only: ball_simps) simp
  have "at_entry m V (insert i (fst ` set path)) u (first (remaining V (insert i (fst ` set path))) None)"
    unfolding at_entry_def
    by (rule exI [of _ "[]"], rule exI [of _ "remaining V (insert i (fst ` set path))"]) simp
  then show ?thesis using assms(2,6) p bits c by (simp add: inv_def lifts_snoc)
qed

text \<open>Taking the last linearized call back.\<close>

lemma inv_pop:
  assumes "setting m V B h0" "inv m V h0 (path @ [(i, s0)]) st" "\<not> vwins m V (insert i (fst ` set path)) (stateS st)"
    "bs_clear (linS st) i = Some lin" "lifts V h0 (map fst path) = Some h"
    "choice_ok m V (fst ` set path) s0 i"
    "remaining V (fst ` set path) = pre @ vca V i # post"
    "\<forall>a\<in>set pre. \<exists>j<vn V. a = vca V j \<and> losing m V (fst ` set path) s0 j"
  shows "inv m V h0 path
    \<lparr>heapS = h, entryS = first post None, stateS = s0, linS = lin, cacheS = cacheS st, callsS = butlast (callsS st)\<rparr>"
proof -
  have p: "path_ok m V {} (Init m) (path @ [(i, s0)]) (stateS st)" using assms(2) by (simp add: inv_def)
  then have p0: "path_ok m V {} (Init m) path s0" "vstep m V s0 i = Some (stateS st)" by (simp_all add: path_ok_snoc)
  have i: "i < vn V" "i \<notin> fst ` set path" using choice_front [OF assms(6)] by simp_all
  have bits: "bits_of lin = fst ` set path" "length lin = length (newBitset (vn V))"
    using bs_clear_bits [OF assms(4)] assms(2) i(2) by (auto simp: inv_def)
  have "losing m V (fst ` set path) s0 i" using assms(3) p0(2) by (simp add: losing_def)
  from at_entry_next [OF assms(7) i(1) this assms(8)]
  have e: "at_entry m V (fst ` set path) s0 (first post None)" .
  have "cache_ok m V path (cacheS st)" unfolding cache_ok_def
  proof (intro conjI ballI)
    show "cache_wf (vn V) (cacheS st)" using assms(2) by (simp add: inv_def cache_ok_def)
    fix x assume x: "x \<in> cached (cacheS st)"
    then have x': "x \<in> confs m V" "on_path m V (path @ [(i, s0)]) x \<or> \<not> vwins m V (fst x) (snd x)"
      using assms(2) by (simp_all add: inv_def cache_ok_def)
    show "x \<in> confs m V" by (fact x'(1))
    show "on_path m V path x \<or> \<not> vwins m V (fst x) (snd x)"
    proof (cases "on_path m V (path @ [(i, s0)]) x")
      case True
      from on_path_snoc [OF this p] show ?thesis
      proof
        assume "x = (fst ` set (path @ [(i, s0)]), stateS st)"
        then show ?thesis using assms(3) by simp
      qed simp
    qed (use x'(2) in simp)
  qed
  then show ?thesis using assms(2,5) p0(1) bits e by (simp add: inv_def)
qed

definition step_ok ::
  "('v, 's) Model \<Rightarrow> 'v view \<Rightarrow> 'v heap \<Rightarrow> ('v, 's) search \<Rightarrow> (bool + ('v, 's) search) option \<Rightarrow> bool" where
  "step_ok m V h0 st r \<longleftrightarrow>
     (case r of
        None \<Rightarrow> False
      | Some (Inl b) \<Rightarrow> \<not> b \<and> \<not> vwins m V {} (Init m)
      | Some (Inr st') \<Rightarrow> (\<exists>path. inv m V h0 path st') \<and> (st', st) \<in> progress m V)"

lemma call_step:
  assumes set: "setting m V B h0" and inv: "inv m V h0 path st"
    and at: "remaining V (fst ` set path) = pre @ vca V i # post" "entryS st = Some (vca V i)" "i < vn V"
      "\<forall>a\<in>set pre. \<exists>j<vn V. a = vca V j \<and> losing m V (fst ` set path) (stateS st) j"
  shows "step_ok m V h0 st (check_body m (vN V) st)"
proof -
  let ?S = "fst ` set path"
  have B: "nodes_ok B V" and eq: "eq_ok m" using set by (simp_all add: setting_def)
  note heap = inv_heap [OF set inv]
  obtain nd where nd: "heapS st (vca V i) = Some nd" "nvalue nd = vin V i" "nmatch nd = Some (vra V i)" "nid nd = i"
    using bodiesE [OF heap nodes_okD(3) [OF B at(3)]] by blast
  obtain nm where nm: "heapS st (vra V i) = Some nm" "nvalue nm = vout V i"
    using bodiesE [OF heap nodes_okD(4) [OF B at(3)]] by blast
  have nxt: "nnext nd = first post None" by (rule heap_next [OF heap at(1) nd(1)])
  obtain ok u where u: "Step m (stateS st) (vin V i) (vout V i) = Some (ok, u)"
    using set at(3) by (fastforce simp: setting_def)
  have front: "i \<in> vfront V ?S" using frontier_call [OF B at(1,3)] at(4) by blast
  then have fresh: "i \<notin> ?S" by (simp add: vfront_def frontier_def)
  have skip: "step_ok m V h0 st (Some (Inr (st\<lparr>entryS := nnext nd\<rparr>)))" if "losing m V ?S (stateS st) i"
    using inv_skip [OF inv at(1,3,4) that] progress_entry [OF at(1) after_call_nonempty [OF B at(1,3)] at(2), of m]
    unfolding step_ok_def nxt by auto
  show ?thesis
  proof (cases ok)
    case False
    then have "losing m V ?S (stateS st) i" using u by (simp add: losing_def vstep_def)
    from skip [OF this] show ?thesis using nd nm u False by (simp add: check_body_def at(2))
  next
    case True
    then have st: "vstep m V (stateS st) i = Some u" using u by (simp add: vstep_def)
    have len: "length (linS st) = length (newBitset (vn V))" and bits: "bits_of (linS st) = ?S" using inv by (simp_all add: inv_def)
    have room: "bs_room (linS st) i" using room_new [OF at(3)] len by (simp add: bs_room_def)
    obtain lin where lin: "bs_set (linS st) i = Some lin" "bits_of lin = insert i ?S" "bs_room lin = bs_room (linS st)"
      using bs.ins_absE [OF room] unfolding bits by blast
    then have llen: "length lin = length (newBitset (vn V))" using len bs_room_length by simp
    have wf: "cache_wf (vn V) (cacheS st)" using inv by (simp add: inv_def cache_ok_def)
    have cc: "cacheContains m (cacheS st) \<lparr>linearized = lin, cstate = u\<rparr> = Some ((insert i ?S, u) \<in> cached (cacheS st))"
      using cacheContains_iff [OF eq wf, of "\<lparr>linearized = lin, cstate = u\<rparr>"] llen lin(2) by simp
    show ?thesis
    proof (cases "(insert i ?S, u) \<in> cached (cacheS st)")
      case True
      then have "on_path m V path (insert i ?S, u) \<or> \<not> vwins m V (insert i ?S) u"
        using inv by (auto simp: inv_def cache_ok_def)
      moreover have "\<not> on_path m V path (insert i ?S, u)"
        using on_path_bits [of m V path "(insert i ?S, u)"] fresh by auto
      ultimately have "losing m V ?S (stateS st) i" using st by (simp add: losing_def)
      from skip [OF this] show ?thesis
        using nd nm u \<open>ok\<close> lin(1) cc True by (simp add: check_body_def at(2))
    next
      case False
      obtain h where h: "lift_node (heapS st) (vca V i) = Some h" "heap_ok B V (insert i ?S) h"
        using lift_at [OF B heap at(3) fresh] by blast
      obtain hn where hn: "h (vN V) = Some hn" "nnext hn = first (remaining V (insert i ?S)) None"
        using heap_head [OF h(2)] by blast
      have choice: "choice_ok m V ?S (stateS st) i" using front at(1,4) unfolding choice_ok_def by blast
      note inv' = inv_push [OF set inv choice st lin(1) h(1)]
      have conf: "(insert i ?S, u) \<in> confs m V"
        using path_conf [of m V "path @ [(i, stateS st)]" u] inv choice st by (simp add: path_ok_snoc inv_def)
      let ?x = "\<lparr>linearized = lin, cstate = u\<rparr>"
      let ?c = "(cacheS st)(bs_hash lin := cacheS st (bs_hash lin) @ [?x])"
      have "cached ?c = insert (insert i ?S, u) (cached (cacheS st))"
        using cached_insert [of "cacheS st" "bs_hash lin" ?x] lin(2) by simp
      then have "confs m V - cached ?c \<subset> confs m V - cached (cacheS st)" using conf False by blast
      then have less: "card (confs m V - cached ?c) < card (confs m V - cached (cacheS st))"
        by (intro psubset_card_mono finite_Diff finite_confs)
      have "check_body m (vN V) st = Some (Inr \<lparr>heapS = h, entryS = first (remaining V (insert i ?S)) None,
          stateS = u, linS = lin, cacheS = ?c, callsS = callsS st @ [(vca V i, stateS st)]\<rparr>)"
        using nd nm u \<open>ok\<close> lin(1) cc False h(1) hn by (simp add: check_body_def at(2) Let_def)
      then show ?thesis using inv' less by (auto simp: step_ok_def progress_def)
    qed
  qed
qed

lemma return_step:
  assumes set: "setting m V B h0" and inv: "inv m V h0 path st"
    and at: "remaining V (fst ` set path) = pre @ vra V j # post" "entryS st = Some (vra V j)" "j < vn V"
      "\<forall>a\<in>set pre. \<exists>k<vn V. a = vca V k \<and> losing m V (fst ` set path) (stateS st) k"
  shows "step_ok m V h0 st (check_body m (vN V) st)"
proof -
  have B: "nodes_ok B V" using set by (simp add: setting_def)
  note heap = inv_heap [OF set inv]
  obtain nd where nd: "heapS st (vra V j) = Some nd" "nmatch nd = None"
    using bodiesE [OF heap nodes_okD(4) [OF B at(3)]] by blast
  note stuck = stuck_at_return [OF B at(1,3,4)]
  show ?thesis
  proof (cases path rule: rev_cases)
    case Nil
    then have "stateS st = Init m" "callsS st = []" using inv by (simp_all add: inv_def)
    then show ?thesis using nd stuck Nil by (simp add: check_body_def at(2) step_ok_def)
  next
    case (snoc p x)
    obtain i s0 where x: "x = (i, s0)" by (cases x)
    have inv2: "inv m V h0 (p @ [(i, s0)]) st" using inv snoc x by simp
    then have p: "path_ok m V {} (Init m) p s0" "choice_ok m V (fst ` set p) s0 i"
      by (simp_all add: inv_def path_ok_snoc)
    have i: "i < vn V" "i \<notin> fst ` set p" using choice_front [OF p(2)] by simp_all
    obtain pre0 post0 where c: "remaining V (fst ` set p) = pre0 @ vca V i # post0"
      "\<forall>a\<in>set pre0. \<exists>k<vn V. a = vca V k \<and> losing m V (fst ` set p) s0 k"
      using p(2) unfolding choice_ok_def by blast
    have S: "fst ` set path = insert i (fst ` set p)" using snoc x by auto
    have ids: "distinct (map fst p)" "set (map fst p) \<inter> {} = {}" "set (map fst p) \<subseteq> {..<vn V}"
      using path_ids [OF p(1)] by auto
    obtain h where h: "lifts V h0 (map fst p) = Some h" "heap_ok B V (fst ` set p) h"
      using lifts_ok [OF B _ ids, of h0] set by (auto simp: setting_def)
    obtain h' where h': "lift_node h (vca V i) = Some h'" "unlift_node h' (vca V i) = Some h"
      using lift_at [OF B h(2) i] by blast
    have "lift_node h (vca V i) = Some (heapS st)" using inv2 h(1) by (simp add: inv_def lifts_snoc)
    then have un: "unlift_node (heapS st) (vca V i) = Some h" using h' by simp
    obtain ne where ne: "heapS st (vca V i) = Some ne" "nid ne = i"
      using bodiesE [OF heap nodes_okD(3) [OF B i(1)]] by blast
    obtain n0 where n0: "h (vca V i) = Some n0" using bodiesE [OF h(2) nodes_okD(3) [OF B i(1)]] by blast
    have nxt: "nnext n0 = first post0 None" by (rule heap_next [OF h(2) c(1) n0])
    have room: "bs_room (linS st) i" using room_new [OF i(1)] inv by (simp add: inv_def bs_room_def)
    obtain lin where lin: "bs_clear (linS st) i = Some lin" using bs.del_absE [OF room] by blast
    have calls: "callsS st = map (\<lambda>(i, s). (vca V i, s)) p @ [(vca V i, s0)]" using inv2 by (simp add: inv_def)
    have "check_body m (vN V) st = Some (Inr \<lparr>heapS = h, entryS = first post0 None, stateS = s0, linS = lin,
        cacheS = cacheS st, callsS = butlast (callsS st)\<rparr>)"
      using nd ne n0 nxt un lin by (simp add: check_body_def at(2) calls)
    then show ?thesis
      using inv_pop [OF set inv2 stuck [unfolded S] lin h(1) p(2) c] by (auto simp: step_ok_def progress_def calls)
  qed
qed

lemma check_body_step:
  assumes "setting m V B h0" "inv m V h0 path st" "remaining V (fst ` set path) \<noteq> []"
  shows "step_ok m V h0 st (check_body m (vN V) st)"
proof -
  have B: "nodes_ok B V" using assms(1) by (simp add: setting_def)
  have e: "at_entry m V (fst ` set path) (stateS st) (entryS st)" using assms(2) by (simp add: inv_def)
  obtain pre x post where at: "remaining V (fst ` set path) = pre @ x # post" "entryS st = Some x"
    "\<forall>a\<in>set pre. \<exists>j<vn V. a = vca V j \<and> losing m V (fst ` set path) (stateS st) j"
    using at_entryE [OF B e assms(3)] by blast
  have "x \<in> set (remaining V (fst ` set path))" using at(1) by simp
  then obtain i where i: "i < vn V" "x = vca V i \<or> x = vra V i" using in_remaining [OF B] by blast
  from i(2) show ?thesis
  proof
    assume x: "x = vca V i"
    show ?thesis by (rule call_step [OF assms(1,2) at(1) [unfolded x] at(2) [unfolded x] i(1) at(3)])
  next
    assume x: "x = vra V i"
    show ?thesis by (rule return_step [OF assms(1,2) at(1) [unfolded x] at(2) [unfolded x] i(1) at(3)])
  qed
qed

text \<open>The loop returns; a positive answer is always right, a negative one when it was not killed.\<close>

lemma wf_progress: "wf (progress m V)"
  by (simp add: progress_def)

lemma check_loop_rules:
  assumes "heapS st a = Some hn"
  shows "nnext hn = None \<Longrightarrow> check_loop m kill a k st = Some (Returned True)"
    "nnext hn \<noteq> None \<Longrightarrow> kill k \<Longrightarrow> check_loop m kill a k st = Some (Returned False)"
    "nnext hn \<noteq> None \<Longrightarrow> \<not> kill k \<Longrightarrow> check_body m a st = Some (Inl r) \<Longrightarrow> check_loop m kill a k st = Some (Returned r)"
    "nnext hn \<noteq> None \<Longrightarrow> \<not> kill k \<Longrightarrow> check_body m a st = Some (Inr st') \<Longrightarrow>
       check_loop m kill a k st = check_loop m kill a (Suc k) st'"
  using assms by (subst check_loop.simps; auto)+

lemma check_loop_correct:
  assumes set: "setting m V B h0"
  shows "inv m V h0 path st \<Longrightarrow>
    \<exists>r. check_loop m kill (vN V) k st = Some (Returned r) \<and> (r \<longrightarrow> vwins m V {} (Init m)) \<and>
      ((\<forall>i. \<not> kill i) \<longrightarrow> vwins m V {} (Init m) \<longrightarrow> r)"
proof (induction st arbitrary: k path rule: wf_induct_rule [OF wf_progress [of m V]])
  case (1 st)
  have B: "nodes_ok B V" using set by (simp add: setting_def)
  obtain hn where hn: "heapS st (vN V) = Some hn" "nnext hn = first (remaining V (fst ` set path)) None"
    using heap_head [OF inv_heap [OF set 1(2)]] by blast
  note rules = check_loop_rules [OF hn(1), where m = m and kill = kill and k = k]
  show ?case
  proof (cases "remaining V (fst ` set path) = []")
    case True
    then have "vwins m V (fst ` set path) (stateS st)"
      unfolding vwins_def using remaining_empty [OF B] by (intro wins_done) simp
    then have "vwins m V {} (Init m)" using path_wins [of m V "{}" "Init m" path "stateS st"] 1(2) by (simp add: inv_def)
    then show ?thesis using rules(1) hn(2) True by (intro exI [of _ True]) simp
  next
    case False
    then have ne: "nnext hn \<noteq> None" using hn(2) by (cases "remaining V (fst ` set path)") auto
    have step: "step_ok m V h0 st (check_body m (vN V) st)" by (rule check_body_step [OF set 1(2) False])
    consider "kill k" | b where "\<not> kill k" "check_body m (vN V) st = Some (Inl b)"
      | st' where "\<not> kill k" "check_body m (vN V) st = Some (Inr st')"
      using step unfolding step_ok_def by (cases "check_body m (vN V) st") (auto split: sum.splits)
    then show ?thesis
    proof cases
      case 1
      then show ?thesis using rules(2) [OF ne] by (intro exI [of _ False]) auto
    next
      case (2 b)
      then show ?thesis using rules(3) [OF ne 2] step by (intro exI [of _ False]) (simp add: step_ok_def)
    next
      case (3 st')
      then obtain path' where p: "inv m V h0 path' st'" "(st', st) \<in> progress m V"
        using step by (auto simp: step_ok_def)
      from 1(1) [OF p(2,1), of "Suc k"] show ?thesis unfolding rules(4) [OF ne 3] .
    qed
  qed
qed

end
