(* ===== verification/LinHistory.thy ===== *)
theory LinHistory
  imports LinProof
begin

text \<open>
  From histories to the checker: the entries of a well-formed history give the node list the proof of
  \<open>checkSingle\<close> talks about, and precedence in the list is precedence in real time.
\<close>

subsection \<open>Well-formed entry lists\<close>

text \<open>Every operation \<open>i < n\<close> has one call entry and, later, one return entry; there are no others.\<close>

definition wf_entries :: "nat \<Rightarrow> 'v entry list \<Rightarrow> bool" where
  "wf_entries n es \<longleftrightarrow> (\<forall>e\<in>set es. eid e < n) \<and>
     (\<forall>i<n. \<exists>pre c mid r post. es = pre @ c # mid @ r # post \<and> kind c = callEntry \<and> kind r = returnEntry \<and>
        eid c = i \<and> eid r = i \<and> (\<forall>e\<in>set (pre @ mid @ post). eid e \<noteq> i))"

definition is_entry :: "entryKind \<Rightarrow> nat \<Rightarrow> 'v entry \<Rightarrow> bool" where
  "is_entry k i e \<longleftrightarrow> kind e = k \<and> eid e = i"

text \<open>The number of the node of the first entry that satisfies \<open>P\<close>, and the value of that entry.\<close>

fun node_at :: "('v entry \<Rightarrow> bool) \<Rightarrow> 'v entry list \<Rightarrow> nat" where
  "node_at P [] = 0"
| "node_at P (e # es) = (if P e then length es else node_at P es)"

fun value_at :: "('v entry \<Rightarrow> bool) \<Rightarrow> 'v entry list \<Rightarrow> 'v iface" where
  "value_at P [] = None"
| "value_at P (e # es) = (if P e then evalue e else value_at P es)"

definition view_of :: "nat \<Rightarrow> 'v entry list \<Rightarrow> 'v view" where
  "view_of n es = \<lparr>vN = length es, vn = n, vca = \<lambda>i. node_at (is_entry callEntry i) es,
     vra = \<lambda>i. node_at (is_entry returnEntry i) es, vin = \<lambda>i. value_at (is_entry callEntry i) es,
     vout = \<lambda>i. value_at (is_entry returnEntry i) es\<rparr>"

lemma view_of_simps [simp]:
  "vN (view_of n es) = length es" "vn (view_of n es) = n"
  "vca (view_of n es) i = node_at (is_entry callEntry i) es" "vra (view_of n es) i = node_at (is_entry returnEntry i) es"
  "vin (view_of n es) i = value_at (is_entry callEntry i) es" "vout (view_of n es) i = value_at (is_entry returnEntry i) es"
  by (simp_all add: view_of_def)

lemma at_append:
  assumes "\<forall>e\<in>set pre. \<not> P e" "P e"
  shows "node_at P (pre @ e # post) = length post" "value_at P (pre @ e # post) = evalue e"
  using assms by (induction pre) auto

lemma node_bodies_above: "node_bodies es a \<noteq> None \<Longrightarrow> a < length es"
  by (induction es) (auto split: if_splits)

lemma node_bodies_at:
  "node_bodies (pre @ e # post) (length post) =
     Some (evalue e, if kind e = returnEntry then None else retmap post (eid e), eid e)"
  by (induction pre) auto

lemma retmap_at:
  "\<forall>e\<in>set mid. eid e \<noteq> i \<Longrightarrow> kind r = returnEntry \<Longrightarrow> eid r = i \<Longrightarrow> retmap (mid @ r # post) i = Some (length post)"
  by (induction mid) auto

lemma wf_entriesE:
  assumes "wf_entries n es" "i < n"
  obtains pre c mid r post where "es = pre @ c # mid @ r # post" "kind c = callEntry" "kind r = returnEntry"
    "eid c = i" "eid r = i" "\<forall>e\<in>set (pre @ mid @ post). eid e \<noteq> i"
  using assms unfolding wf_entries_def by blast

lemma view_nodes:
  assumes "wf_entries n es" "i < n"
  obtains pre c mid r post where "es = pre @ c # mid @ r # post" "\<forall>e\<in>set (pre @ mid @ post). eid e \<noteq> i"
    "vca (view_of n es) i = length (mid @ r # post)" "vra (view_of n es) i = length post"
    "node_bodies es (length (mid @ r # post)) = Some (vin (view_of n es) i, Some (length post), i)"
    "node_bodies es (length post) = Some (vout (view_of n es) i, None, i)"
proof -
  from assms show ?thesis
  proof (rule wf_entriesE)
    fix pre c mid r post
    assume e: "es = pre @ c # mid @ r # post" "kind c = callEntry" "kind r = returnEntry"
      "eid c = i" "eid r = i" "\<forall>e\<in>set (pre @ mid @ post). eid e \<noteq> i"
    have c: "\<forall>e\<in>set pre. \<not> is_entry callEntry i e" "is_entry callEntry i c" using e by (auto simp: is_entry_def)
    have r: "\<forall>e\<in>set (pre @ c # mid). \<not> is_entry returnEntry i e" "is_entry returnEntry i r"
      using e by (auto simp: is_entry_def)
    have es2: "es = (pre @ c # mid) @ r # post" using e(1) by simp
    have ca: "node_at (is_entry callEntry i) es = length (mid @ r # post)" "value_at (is_entry callEntry i) es = evalue c"
      unfolding e(1) by (rule at_append [OF c])+
    have ra: "node_at (is_entry returnEntry i) es = length post" "value_at (is_entry returnEntry i) es = evalue r"
      unfolding es2 by (rule at_append [OF r])+
    have "node_bodies es (length (mid @ r # post)) = Some (evalue c, retmap (mid @ r # post) i, i)"
      using node_bodies_at [of pre c "mid @ r # post"] e by simp
    moreover have "retmap (mid @ r # post) i = Some (length post)" using e by (intro retmap_at) auto
    moreover have "node_bodies es (length post) = Some (evalue r, None, i)"
      using node_bodies_at [of "pre @ c # mid" r post] e by (simp add: es2 [symmetric])
    ultimately show thesis by (intro that [OF e(1,6)]) (simp_all add: ca ra)
  qed
qed

lemma nth_between:
  assumes "k < length (pre @ c # mid @ r # post)" "(pre @ c # mid @ r # post) ! k \<notin> set (pre @ mid @ post)"
  shows "k = length pre \<or> k = Suc (length pre + length mid)"
proof (rule ccontr)
  assume n: "\<not> (k = length pre \<or> k = Suc (length pre + length mid))"
  consider "k < length pre" | j where "k = Suc (length pre + j)" "j < length mid"
    | j where "k = Suc (Suc (length pre + length mid + j))" "j < length post"
  proof (cases "k < length pre")
    case False
    then obtain j where j: "k = length pre + j" by (metis le_Suc_ex not_less)
    then obtain j' where j': "j = Suc j'" using n by (cases j) auto
    show ?thesis
    proof (cases "j' < length mid")
      case False
      then obtain l where l: "j' = length mid + l" by (metis le_Suc_ex not_less)
      then obtain l' where "l = Suc l'" using n j j' by (cases l) auto
      then show ?thesis using that(3) [of l'] j j' l assms(1) by simp
    qed (use that(2) j j' in simp)
  qed (use that in simp)
  then show False using assms(2) by cases (auto simp: nth_append)
qed

lemma nodes_ok_entries:
  assumes "wf_entries n es"
  shows "nodes_ok (node_bodies es) (view_of n es)"
  unfolding nodes_ok_def
proof (intro conjI allI impI)
  fix i assume "i < vn (view_of n es)"
  then have i: "i < n" by simp
  from view_nodes [OF assms i]
  have "vca (view_of n es) i < vN (view_of n es) \<and> vra (view_of n es) i < vca (view_of n es) i \<and>
    node_bodies es (vca (view_of n es) i) = Some (vin (view_of n es) i, Some (vra (view_of n es) i), i) \<and>
    node_bodies es (vra (view_of n es) i) = Some (vout (view_of n es) i, None, i)"
  proof cases
    case (1 pre c mid r post)
    have "length (mid @ r # post) < vN (view_of n es)" "length post < length (mid @ r # post)" by (simp_all add: 1(1))
    then show ?thesis using 1(5,6) unfolding 1(3,4) by blast
  qed
  then show "vca (view_of n es) i < vN (view_of n es)" "vra (view_of n es) i < vca (view_of n es) i"
    "node_bodies es (vca (view_of n es) i) = Some (vin (view_of n es) i, Some (vra (view_of n es) i), i)"
    "node_bodies es (vra (view_of n es) i) = Some (vout (view_of n es) i, None, i)" by blast+
next
  fix a assume "a < vN (view_of n es)"
  then have a: "a < length es" by simp
  define k where "k = length es - 1 - a"
  have k: "k < length es" using a by (simp add: k_def)
  then have i: "eid (es ! k) < n" using assms by (simp add: wf_entries_def)
  from view_nodes [OF assms i]
  have "a = vca (view_of n es) (eid (es ! k)) \<or> a = vra (view_of n es) (eid (es ! k))"
  proof cases
    case (1 pre c mid r post)
    have "es ! k \<notin> set (pre @ mid @ post)" using 1(2) by blast
    then have "k = length pre \<or> k = Suc (length pre + length mid)"
      using nth_between [of k pre c mid r post] k unfolding 1(1) [symmetric] by blast
    moreover have "length es = Suc (Suc (length pre + length mid + length post))" by (simp add: 1(1))
    ultimately have "a = length (mid @ r # post) \<or> a = length post" using a k_def by auto
    then show ?thesis unfolding 1(3,4) .
  qed
  then show "\<exists>i<vn (view_of n es). a = vca (view_of n es) i \<or> a = vra (view_of n es) i" using i by auto
qed

lemma length_entries:
  assumes "wf_entries n es"
  shows "length es = 2 * n"
proof -
  let ?V = "view_of n es"
  note B = nodes_ok_entries [OF assms]
  note inj = node_inj [OF B]
  have "{..<length es} = vca ?V ` {..<n} \<union> vra ?V ` {..<n}"
  proof (intro equalityI subsetI)
    fix a assume "a \<in> {..<length es}"
    then show "a \<in> vca ?V ` {..<n} \<union> vra ?V ` {..<n}" using B unfolding nodes_ok_def by fastforce
  next
    fix a assume "a \<in> vca ?V ` {..<n} \<union> vra ?V ` {..<n}"
    then obtain i where "i < n" "a = vca ?V i \<or> a = vra ?V i" by blast
    then show "a \<in> {..<length es}" using nodes_okD(1,2) [OF B, of i] by auto
  qed
  moreover have "vca ?V ` {..<n} \<inter> vra ?V ` {..<n} = {}" using inj(3) by fastforce
  moreover have "inj_on (vca ?V) {..<n}" "inj_on (vra ?V) {..<n}" using inj(1,2) by (auto simp: inj_on_def)
  ultimately have "card {..<length es} = n + n" by (simp add: card_Un_disjoint card_image del: view_of_simps)
  then show ?thesis by simp
qed

text \<open>\<open>checkSingle\<close> on the list of a well-formed entry sequence.\<close>

definition steps_defined :: "('v, 's) Model \<Rightarrow> 'v view \<Rightarrow> bool" where
  "steps_defined m V \<longleftrightarrow> (\<forall>s. \<forall>i<vn V. Step m s (vin V i) (vout V i) \<noteq> None)"

definition view_lin :: "('v, 's) Model \<Rightarrow> 'v view \<Rightarrow> bool" where
  "view_lin m V \<longleftrightarrow> (\<exists>order. linearization {..<vn V} (vprec V) (vstep m V) (Init m) order)"

lemma remaining_all: "remaining (view_of n es) {} = addrs es"
  by (simp add: remaining_def addrs_def)

lemma vwins_lin:
  assumes "wf_entries n es"
  shows "vwins m (view_of n es) {} (Init m) \<longleftrightarrow> view_lin m (view_of n es)"
proof -
  have "\<not> vprec (view_of n es) i i" if "i < n" for i
    using nodes_okD(2) [OF nodes_ok_entries [OF assms], of i] that by (simp add: vprec_def)
  from wins_iff [where n = n and prec = "vprec (view_of n es)" and stp = "vstep m (view_of n es)" and s = "Init m", OF this]
  show ?thesis by (simp add: vwins_def view_lin_def)
qed

lemma nodes_ok_head: "nodes_ok B V \<Longrightarrow> nodes_ok (B(vN V \<mapsto> x)) V"
proof -
  assume B: "nodes_ok B V"
  have "vca V i \<noteq> vN V" "vra V i \<noteq> vN V" if "i < vn V" for i using nodes_okD(1,2) [OF B that] by simp_all
  then show ?thesis using B by (simp add: nodes_ok_def)
qed

definition headNode :: "'v node" where
  "headNode = \<lparr>nvalue = None, nmatch = None, nid = 2 ^ 64 - 1, nnext = None, nprev = None\<rparr>"

lemma linked_history:
  assumes "wf_entries n es"
  obtains h h0 B where "makeLinkedEntries es = Some (h, length es, first (addrs es) None)"
    "length_list h (first (addrs es) None) = Some (Some (2 * n))"
    "insertBefore (h(length es \<mapsto> headNode)) (length es) (first (addrs es) None) = Some (h0, length es)"
    "nodes_ok B (view_of n es)" "heap_ok B (view_of n es) {} h0"
proof -
  let ?V = "view_of n es"
  obtain h where h: "makeLinkedEntries es = Some (h, length es, first (addrs es) None)"
    "seg h None (addrs es) None" "bodies h = node_bodies es"
    by (rule makeLinkedEntries_ok)
  have len: "length_list h (first (addrs es) None) = Some (Some (2 * n))"
    using length_from_seg [OF h(2), of 0] length_entries [OF assms] by (simp add: length_list_def)
  obtain h0 where h0: "insertBefore (h(length es \<mapsto> headNode)) (length es) (first (addrs es) None) = Some (h0, length es)"
    "seg h0 None (length es # addrs es) None" "bodies h0 = (bodies h)(length es \<mapsto> body headNode)"
    using insert_front [OF h(2), of "length es" headNode] by (auto simp: headNode_def)
  let ?B = "(node_bodies es)(length es \<mapsto> body headNode)"
  have "nodes_ok ?B ?V" using nodes_ok_head [OF nodes_ok_entries [OF assms], of "body headNode"] by simp
  moreover have "heap_ok ?B ?V {} h0" using h0(2,3) h(3) by (simp add: heap_ok_def remaining_all)
  ultimately show ?thesis using that h(1) len h0(1) by blast
qed

lemma checkSingle_correct:
  assumes wf: "wf_entries n es" and eq: "eq_ok m" and st: "steps_defined m (view_of n es)"
  obtains lst r where "makeLinkedEntries es = Some lst" "checkSingle m lst kill = Some (Returned r)"
    "r \<longrightarrow> view_lin m (view_of n es)" "(\<forall>i. \<not> kill i) \<longrightarrow> view_lin m (view_of n es) \<longrightarrow> r"
proof (rule linked_history [OF wf])
  let ?V = "view_of n es"
  fix h h0 B
  assume h: "makeLinkedEntries es = Some (h, length es, first (addrs es) None)"
    and len: "length_list h (first (addrs es) None) = Some (Some (2 * n))"
    and h0: "insertBefore (h(length es \<mapsto> headNode)) (length es) (first (addrs es) None) = Some (h0, length es)"
    and ok: "nodes_ok B ?V" "heap_ok B ?V {} h0"
  have set: "setting m ?V B h0" using eq st ok by (simp add: setting_def steps_defined_def)
  let ?st = "\<lparr>heapS = h0, entryS = first (addrs es) None, stateS = Init m, linS = newBitset n,
    cacheS = (\<lambda>_. []), callsS = []\<rparr>"
  have "at_entry m ?V {} (Init m) (first (addrs es) None)"
    unfolding at_entry_def remaining_all by (rule exI [of _ "[]"], rule exI [of _ "addrs es"]) simp
  then have "inv m ?V h0 [] ?st" by (simp add: inv_def cache_ok_def cache_wf_def cached_def bits_new)
  from check_loop_correct [OF set this, of kill 0]
  obtain r where r: "check_loop m kill (length es) 0 ?st = Some (Returned r)"
    "r \<longrightarrow> view_lin m ?V" "(\<forall>i. \<not> kill i) \<longrightarrow> view_lin m ?V \<longrightarrow> r"
    unfolding vwins_lin [OF wf] by auto
  have "checkSingle m (h, length es, first (addrs es) None) kill = Some (Returned r)"
    using len h0 r(1) by (simp add: checkSingle_def headNode_def)
  then show ?thesis using that h r(2,3) by blast
qed

text \<open>C29: \<open>lift\<close> on the node list of a well-formed history (with the head node \<open>checkSingle\<close> puts in front)
  succeeds for the call of every operation and leaves a correctly linked list without the call and
  the return of that operation; \<open>unlift\<close> then restores the heap exactly, so backtracking is free of
  residue.\<close>

theorem lift_unlift_roundtrip:
  assumes "wf_entries n es" "i < n" "makeLinkedEntries es = Some (h, a, root)"
    "insertBefore (h(a \<mapsto> headNode)) a root = Some (h0, a)"
    "c = node_at (is_entry callEntry i) es" "r = node_at (is_entry returnEntry i) es"
  shows "\<exists>h1. lift_node h0 c = Some h1 \<and> seg h1 None (a # filter (\<lambda>x. x \<noteq> c \<and> x \<noteq> r) (addrs es)) None \<and>
    unlift_node h1 c = Some h0"
proof (rule linked_history [OF assms(1)])
  let ?V = "view_of n es"
  fix h' h0' B
  assume h: "makeLinkedEntries es = Some (h', length es, first (addrs es) None)"
    and h0: "insertBefore (h'(length es \<mapsto> headNode)) (length es) (first (addrs es) None) = Some (h0', length es)"
    and ok: "nodes_ok B ?V" "heap_ok B ?V {} h0'"
  have e: "h0' = h0" "a = length es" using h h0 assms(3,4) by simp_all
  have i: "i < vn ?V" "i \<notin> {}" using assms(2) by simp_all
  obtain h1 where h1: "lift_node h0' (vca ?V i) = Some h1" "heap_ok B ?V (insert i {}) h1" "unlift_node h1 (vca ?V i) = Some h0'"
    by (rule lift_at [OF ok i])
  have "remaining ?V (insert i {}) = filter (\<lambda>x. x \<noteq> c \<and> x \<noteq> r) (addrs es)"
    using assms(2) by (auto simp: remaining_def addrs_def assms(5,6) intro!: filter_cong)
  then show ?thesis using h1 e unfolding heap_ok_def by (auto simp: assms(5))
qed

definition wit_entries :: "nat entry list" where
  "wit_entries = [\<lparr>kind = callEntry, evalue = Some 1, eid = 0, etime = 0\<rparr>, \<lparr>kind = returnEntry, evalue = Some 2, eid = 0, etime = 1\<rparr>]"

theorem lift_unlift_roundtrip_witness:
  "\<exists>h h0 h1. makeLinkedEntries wit_entries = Some (h, 2, Some 1) \<and>
     insertBefore (h(2 \<mapsto> headNode)) 2 (Some 1) = Some (h0, 2) \<and>
     lift_node h0 1 = Some h1 \<and> seg h1 None [2] None \<and> unlift_node h1 1 = Some h0"
proof -
  have wf: "wf_entries 1 wit_entries" unfolding wf_entries_def
  proof (intro conjI allI impI)
    fix i :: nat assume "i < 1"
    then show "\<exists>pre c mid r post. wit_entries = pre @ c # mid @ r # post \<and> kind c = callEntry \<and> kind r = returnEntry \<and>
        eid c = i \<and> eid r = i \<and> (\<forall>e\<in>set (pre @ mid @ post). eid e \<noteq> i)"
      by (intro exI [of _ "[]"] exI [of _ "hd wit_entries"] exI [of _ "last wit_entries"]) (simp add: wit_entries_def)
  qed (simp add: wit_entries_def)
  have l: "length wit_entries = 2" "first (addrs wit_entries) None = Some 1" by (simp_all add: wit_entries_def)
  obtain h h0 where h: "makeLinkedEntries wit_entries = Some (h, 2, Some 1)"
    "insertBefore (h(2 \<mapsto> headNode)) 2 (Some 1) = Some (h0, 2)"
    by (rule linked_history [OF wf, unfolded l]) simp
  from lift_unlift_roundtrip [OF wf zero_less_one h refl refl]
  show ?thesis using h by (auto simp: wit_entries_def is_entry_def)
qed

subsection \<open>Operations with times\<close>

definition op_prec :: "'v Operation list \<Rightarrow> nat \<Rightarrow> nat \<Rightarrow> bool" where
  "op_prec history i j \<longleftrightarrow> Return (history ! i) < Call (history ! j)"

definition op_step :: "('v, 's) Model \<Rightarrow> 'v Operation list \<Rightarrow> 's \<Rightarrow> nat \<Rightarrow> 's option" where
  "op_step m history s i =
     (case Step m s (Input (history ! i)) (Output (history ! i)) of
        Some (ok, s') \<Rightarrow> if ok then Some s' else None | None \<Rightarrow> None)"

definition linearizable :: "('v, 's) Model \<Rightarrow> 'v Operation list \<Rightarrow> bool" where
  "linearizable m history \<longleftrightarrow>
     (\<exists>order. linearization {..<length history} (op_prec history) (op_step m history) (Init m) order)"

text \<open>Operations take time, and no response coincides with an invocation (the checker's order of such
  a pair depends on the unstable sort).\<close>

definition valid_times :: "'v Operation list \<Rightarrow> bool" where
  "valid_times history \<longleftrightarrow> (\<forall>op1\<in>set history. Call op1 < Return op1 \<and> (\<forall>op2\<in>set history. Return op1 \<noteq> Call op2))"

definition call_e :: "nat \<Rightarrow> 'v Operation \<Rightarrow> 'v entry" where
  "call_e i op = \<lparr>kind = callEntry, evalue = Input op, eid = i, etime = Call op\<rparr>"

definition ret_e :: "nat \<Rightarrow> 'v Operation \<Rightarrow> 'v entry" where
  "ret_e i op = \<lparr>kind = returnEntry, evalue = Output op, eid = i, etime = Return op\<rparr>"

lemma entry_sel [simp]:
  "kind (call_e i op) = callEntry" "evalue (call_e i op) = Input op" "eid (call_e i op) = i" "etime (call_e i op) = Call op"
  "kind (ret_e i op) = returnEntry" "evalue (ret_e i op) = Output op" "eid (ret_e i op) = i" "etime (ret_e i op) = Return op"
  by (simp_all add: call_e_def ret_e_def)

lemma entries_from_Cons:
  "entries_from n (op # rest) = call_e n op # ret_e n op # entries_from (Suc n) rest"
  by (simp add: call_e_def ret_e_def)

lemma entries_from_set:
  "e \<in> set (entries_from n h) \<longleftrightarrow> (\<exists>i<length h. e = call_e (n + i) (h ! i) \<or> e = ret_e (n + i) (h ! i))"
proof (induction h arbitrary: n)
  case (Cons op h)
  show ?case unfolding entries_from_Cons set_simps insert_iff Cons.IH [of "Suc n"]
    by (auto simp: less_Suc_eq_0_disj)
qed simp

lemma entries_from_distinct: "distinct (entries_from n h)"
proof (induction h arbitrary: n)
  case (Cons op h)
  have "e \<notin> set (entries_from (Suc n) h)" if "eid e = n" for e :: "'a entry"
  proof
    assume "e \<in> set (entries_from (Suc n) h)"
    then obtain i where "eid e = Suc n + i" unfolding entries_from_set by (metis entry_sel(3,7))
    then show False using that by simp
  qed
  then show ?case unfolding entries_from_Cons using Cons.IH [of "Suc n"]
    by (auto dest: arg_cong [of _ _ kind])
qed simp

definition sorted_entries :: "'v Operation list \<Rightarrow> 'v entry list \<Rightarrow> bool" where
  "sorted_entries h es \<longleftrightarrow> distinct es \<and> sorted_wrt (\<lambda>a b. \<not> byTime_Less b a) es \<and>
     (\<forall>e. e \<in> set es \<longleftrightarrow> (\<exists>i<length h. e = call_e i (h ! i) \<or> e = ret_e i (h ! i)))"

lemma makeEntries_sorted:
  assumes "is_sort srt"
  shows "sorted_entries h (makeEntries srt h)"
proof -
  have m: "mset (makeEntries srt h) = mset (entries_from 0 h)" and s: "sorted_wrt (\<lambda>a b. \<not> byTime_Less b a) (makeEntries srt h)"
    using assms by (simp_all add: is_sort_def makeEntries_def)
  have "distinct (makeEntries srt h)" using mset_eq_imp_distinct_iff [OF m] entries_from_distinct by blast
  moreover have "set (makeEntries srt h) = set (entries_from 0 h)" by (rule mset_eq_setD [OF m])
  ultimately show ?thesis using s by (simp add: sorted_entries_def entries_from_set)
qed

lemma time_order:
  assumes "sorted_wrt (\<lambda>a b. \<not> byTime_Less b a) es" "x \<in> set es" "y \<in> set es" "etime x < etime y"
  obtains pre mid post where "es = pre @ x # mid @ y # post"
proof -
  obtain pre rest where r: "es = pre @ x # rest" using assms(2) by (meson split_list)
  have "y \<notin> set pre" using assms(1,4) r by (auto simp: sorted_wrt_append byTime_Less_def)
  moreover have "y \<noteq> x" using assms(4) by auto
  ultimately have "y \<in> set rest" using assms(3) r by auto
  then obtain mid post where "rest = mid @ y # post" by (meson split_list)
  then show ?thesis using that r by blast
qed

lemma node_order:
  assumes "es = pre @ x # mid @ y # post" "distinct es" "P x" "Q y" "\<forall>e\<in>set es. P e \<longrightarrow> e = x" "\<forall>e\<in>set es. Q e \<longrightarrow> e = y"
  shows "node_at Q es < node_at P es" "value_at P es = evalue x" "value_at Q es = evalue y"
proof -
  have sub: "set pre \<subseteq> set es" "set (pre @ x # mid) \<subseteq> set es" by (auto simp: assms(1))
  have "x \<notin> set pre" "y \<notin> set (pre @ x # mid)" using assms(2) by (auto simp: assms(1))
  then have P: "\<forall>e\<in>set pre. \<not> P e" and Q: "\<forall>e\<in>set (pre @ x # mid). \<not> Q e"
    using assms(5,6) sub by blast+
  have 1: "node_at P es = length (mid @ y # post)" "value_at P es = evalue x"
    unfolding assms(1) by (rule at_append [OF P assms(3)])+
  have e: "es = (pre @ x # mid) @ y # post" using assms(1) by simp
  have 2: "node_at Q es = length post" "value_at Q es = evalue y"
    unfolding e by (rule at_append [OF Q assms(4)])+
  show "node_at Q es < node_at P es" "value_at P es = evalue x" "value_at Q es = evalue y"
    using 1 2 by simp_all
qed

lemma op_entries:
  assumes "sorted_entries h es" "i < length h"
  shows "call_e i (h ! i) \<in> set es" "ret_e i (h ! i) \<in> set es"
    "is_entry callEntry i (call_e i (h ! i))" "is_entry returnEntry i (ret_e i (h ! i))"
    "\<forall>e\<in>set es. is_entry callEntry i e \<longrightarrow> e = call_e i (h ! i)"
    "\<forall>e\<in>set es. is_entry returnEntry i e \<longrightarrow> e = ret_e i (h ! i)"
    "\<forall>e\<in>set es. eid e = i \<longrightarrow> e = call_e i (h ! i) \<or> e = ret_e i (h ! i)"
  using assms by (auto simp: sorted_entries_def is_entry_def)

lemma wf_makeEntries:
  assumes s: "sorted_entries h es" and v: "valid_times h"
  shows "wf_entries (length h) es"
  unfolding wf_entries_def
proof (intro conjI allI impI ballI)
  fix e assume "e \<in> set es"
  then show "eid e < length h" using s by (auto simp: sorted_entries_def)
next
  fix i assume i: "i < length h"
  note e = op_entries [OF s i]
  have "etime (call_e i (h ! i)) < etime (ret_e i (h ! i))" using v i by (simp add: valid_times_def)
  from time_order [OF _ e(1,2) this] s
  obtain pre mid post where p: "es = pre @ call_e i (h ! i) # mid @ ret_e i (h ! i) # post"
    unfolding sorted_entries_def by blast
  have "distinct es" using s by (simp add: sorted_entries_def)
  then have "\<forall>e\<in>set (pre @ mid @ post). eid e \<noteq> i" using e(7) unfolding p by auto
  then show "\<exists>pre c mid r post. es = pre @ c # mid @ r # post \<and> kind c = callEntry \<and> kind r = returnEntry \<and>
      eid c = i \<and> eid r = i \<and> (\<forall>e\<in>set (pre @ mid @ post). eid e \<noteq> i)"
    using p by (intro exI [of _ pre] exI [of _ "call_e i (h ! i)"] exI [of _ mid] exI [of _ "ret_e i (h ! i)"] exI [of _ post]) simp
qed

lemma op_view:
  assumes s: "sorted_entries h es" and v: "valid_times h" and i: "i < length h"
  shows "vin (view_of (length h) es) i = Input (h ! i)" "vout (view_of (length h) es) i = Output (h ! i)"
proof -
  note e = op_entries [OF s i]
  have d: "distinct es" and w: "sorted_wrt (\<lambda>a b. \<not> byTime_Less b a) es" using s by (simp_all add: sorted_entries_def)
  have "etime (call_e i (h ! i)) < etime (ret_e i (h ! i))" using v i by (simp add: valid_times_def)
  from time_order [OF w e(1,2) this]
  obtain pre mid post where p: "es = pre @ call_e i (h ! i) # mid @ ret_e i (h ! i) # post" by blast
  note o = node_order [where P = "is_entry callEntry i" and Q = "is_entry returnEntry i", OF p d e(3,4,5,6)]
  show "vin (view_of (length h) es) i = Input (h ! i)" "vout (view_of (length h) es) i = Output (h ! i)"
    using o(2,3) by simp_all
qed

lemma op_view_prec:
  assumes s: "sorted_entries h es" and v: "valid_times h" and i: "i < length h" and j: "j < length h"
  shows "vprec (view_of (length h) es) i j \<longleftrightarrow> op_prec h i j"
proof -
  note ei = op_entries [OF s i] and ej = op_entries [OF s j]
  have d: "distinct es" and w: "sorted_wrt (\<lambda>a b. \<not> byTime_Less b a) es" using s by (simp_all add: sorted_entries_def)
  have "Return (h ! i) \<noteq> Call (h ! j)" using v i j by (simp add: valid_times_def)
  then consider "Return (h ! i) < Call (h ! j)" | "Call (h ! j) < Return (h ! i)" by linarith
  then show ?thesis
  proof cases
    case 1
    then have "etime (ret_e i (h ! i)) < etime (call_e j (h ! j))" by simp
    from time_order [OF w ei(2) ej(1) this]
    obtain pre mid post where p: "es = pre @ ret_e i (h ! i) # mid @ call_e j (h ! j) # post" by blast
    show ?thesis using node_order(1) [OF p d ei(4) ej(3) ei(6) ej(5)] 1 by (simp add: vprec_def op_prec_def)
  next
    case 2
    then have "etime (call_e j (h ! j)) < etime (ret_e i (h ! i))" by simp
    from time_order [OF w ej(1) ei(2) this]
    obtain pre mid post where p: "es = pre @ call_e j (h ! j) # mid @ ret_e i (h ! i) # post" by blast
    show ?thesis using node_order(1) [OF p d ej(3) ei(4) ej(5) ei(6)] 2 by (simp add: vprec_def op_prec_def)
  qed
qed

lemma view_lin_ops:
  assumes "sorted_entries h es" "valid_times h"
  shows "view_lin m (view_of (length h) es) \<longleftrightarrow> linearizable m h"
proof -
  have "linearization {..<length h} (vprec (view_of (length h) es)) (vstep m (view_of (length h) es)) (Init m) order \<longleftrightarrow>
    linearization {..<length h} (op_prec h) (op_step m h) (Init m) order" for order
    using op_view [OF assms] op_view_prec [OF assms]
    by (intro linearization_cong) (simp_all add: vstep_def op_step_def del: view_of_simps)
  then show ?thesis by (simp add: view_lin_def linearizable_def)
qed

end
