(* ===== verification/LinTop.thy ===== *)
theory LinTop
  imports LinHistory "HOL-Library.List_Lexorder" "HOL-Library.Char_ord"
begin

text \<open>
  The entry points \<open>CheckOperations\<close> and \<open>CheckEvents\<close> of \<open>linearizability.go\<close>, which check every
  partition of a history in its own goroutine, and \<open>models.go\<close>: the key-value model, whose
  partitioning by key is shown to be exact.
\<close>

subsection \<open>Collecting the results\<close>

text \<open>
  What the \<open>select\<close> of the collecting loop can receive: the result of the goroutine of one partition,
  or the expiry of the timer. The order of arrival is the argument \<open>arrivals\<close>; when it is exhausted the
  loop waits forever, \<open>None\<close>. The kill flag is stored only when the loop is left, so every result
  that is received was computed with the flag clear.
\<close>

datatype arrival = Result nat | TimerExpired

fun collect ::
  "(nat \<Rightarrow> bool run option) \<Rightarrow> nat \<Rightarrow> int \<Rightarrow> bool \<Rightarrow> nat \<Rightarrow> arrival list \<Rightarrow> bool run option" where
  "collect results np timeout ok cnt [] = None"
| "collect results np timeout ok cnt (Result i # rest) =
     (case results i of
        None \<Rightarrow> None
      | Some Crashed \<Rightarrow> Some Crashed
      | Some (Returned result) \<Rightarrow>
          (let ok = (ok \<and> result)
           in if \<not> ok then Some (Returned ok)
              else let cnt = Suc cnt
                   in if np \<le> cnt then Some (Returned ok) else collect results np timeout ok cnt rest))"
| "collect results np timeout ok cnt (TimerExpired # rest) =
     (if timeout > 0 then Some (Returned ok) else collect results np timeout ok cnt rest)"

text \<open>\<open>launch\<close> builds the lists and starts the goroutines.\<close>

definition launch ::
  "('v, 's) Model \<Rightarrow> 'v entry list list \<Rightarrow> (nat \<Rightarrow> bool run option) option" where
  "launch model entries =
     map_option (\<lambda>ls i. if i < length ls then checkSingle model (ls ! i) (\<lambda>_. False) else None)
       (those (map makeLinkedEntries entries))"

definition CheckOperationsTimeout ::
  "('v entry list \<Rightarrow> 'v entry list) \<Rightarrow> ('v, 's) Model \<Rightarrow> 'v Operation list \<Rightarrow> int \<Rightarrow> arrival list \<Rightarrow> bool run option" where
  "CheckOperationsTimeout sort_Sort model history timeout arrivals =
     (let model = fillDefault model
      in case Option.bind (Partition model) (\<lambda>p. p history) of
           None \<Rightarrow> Some Crashed
         | Some partitions \<Rightarrow>
             (case launch model (map (makeEntries sort_Sort) partitions) of
                None \<Rightarrow> Some Crashed
              | Some results \<Rightarrow> collect results (length partitions) timeout True 0 arrivals))"

definition CheckOperations ::
  "('v entry list \<Rightarrow> 'v entry list) \<Rightarrow> ('v, 's) Model \<Rightarrow> 'v Operation list \<Rightarrow> arrival list \<Rightarrow> bool run option" where
  "CheckOperations sort_Sort model history arrivals = CheckOperationsTimeout sort_Sort model history 0 arrivals"

definition CheckEventsTimeout ::
  "('v, 's) Model \<Rightarrow> 'v Event list \<Rightarrow> int \<Rightarrow> arrival list \<Rightarrow> bool run option" where
  "CheckEventsTimeout model history timeout arrivals =
     (let model = fillDefault model
      in case Option.bind (PartitionEvent model) (\<lambda>p. p history) of
           None \<Rightarrow> Some Crashed
         | Some partitions \<Rightarrow>
             (case launch model (map (\<lambda>sub. convertEntries (renumber sub)) partitions) of
                None \<Rightarrow> Some Crashed
              | Some results \<Rightarrow> collect results (length partitions) timeout True 0 arrivals))"

definition CheckEvents :: "('v, 's) Model \<Rightarrow> 'v Event list \<Rightarrow> arrival list \<Rightarrow> bool run option" where
  "CheckEvents model history arrivals = CheckEventsTimeout model history 0 arrivals"

subsection \<open>The key-value model\<close>

record KvInput =
  Op :: "8 word"
  Key :: string
  Value :: string

record KvOutput =
  OutValue :: string

datatype kv_value = InV KvInput | OutV KvOutput

text \<open>
  The type assertions of \<open>Partition\<close> and \<open>Step\<close> panic on a value of another type. \<open>Partition\<close> ranges
  over a Go map, whose iteration order is not specified: \<open>range_order\<close> is the order of the keys.
\<close>

definition op_key :: "kv_value Operation \<Rightarrow> string option" where
  "op_key v = (case Input v of Some (InV inp) \<Rightarrow> Some (Key inp) | _ \<Rightarrow> None)"

fun kv_groups :: "(string \<Rightarrow> kv_value Operation list option) \<Rightarrow> kv_value Operation list \<Rightarrow>
    (string \<Rightarrow> kv_value Operation list option) option" where
  "kv_groups m [] = Some m"
| "kv_groups m (v # rest) = do {
     key \<leftarrow> op_key v;
     kv_groups (m(key \<mapsto> (case m key of None \<Rightarrow> [] | Some l \<Rightarrow> l) @ [v])) rest
   }"

definition kv_Partition :: "(string set \<Rightarrow> string list) \<Rightarrow> kv_value Operation list \<Rightarrow> kv_value Operation list list option" where
  "kv_Partition range_order history = do {
     m \<leftarrow> kv_groups Map.empty history;
     Some (map (\<lambda>key. the (m key)) (range_order (dom m)))
   }"

definition kv_Step :: "string \<Rightarrow> kv_value iface \<Rightarrow> kv_value iface \<Rightarrow> (bool \<times> string) option" where
  "kv_Step state input output =
     (case (input, output) of
        (Some (InV inp), Some (OutV out)) \<Rightarrow>
          if Op inp = 0 then Some (OutValue out = state, state)
          else if Op inp = 1 then Some (True, Value inp)
          else Some (True, state @ Value inp)
      | _ \<Rightarrow> None)"

definition KvModel :: "(string set \<Rightarrow> string list) \<Rightarrow> (kv_value, string) Model" where
  "KvModel range_order =
     \<lparr>Partition = Some (kv_Partition range_order), PartitionEvent = None, Init = [], Step = kv_Step,
      Equal = Some ShallowEqual\<rparr>"

subsection \<open>Every arrival order gives the same answer\<close>

lemma collect_all:
  assumes "\<And>i. i \<in> set order \<Longrightarrow> results i = Some (Returned (r i))" "order \<noteq> []" "cnt + length order = np"
  shows "collect results np timeout True cnt (map Result order) = Some (Returned (\<forall>i\<in>set order. r i))"
  using assms
proof (induction order arbitrary: cnt)
  case (Cons i order)
  show ?case
  proof (cases "order = []")
    case True
    then show ?thesis using Cons.prems by (simp add: Let_def)
  next
    case False
    then have "\<not> np \<le> Suc cnt" using Cons.prems(3) by (cases order) auto
    then show ?thesis using Cons.IH [of "Suc cnt"] Cons.prems False by (simp add: Let_def)
  qed
qed simp

lemma those_map_Some: "those (map Some xs) = Some xs"
  by (induction xs) auto

lemma those_length: "those xs = Some ys \<Longrightarrow> length ys = length xs"
  by (induction xs arbitrary: ys) (auto split: option.splits)

lemma launch_ok:
  assumes "\<And>i. i < length ess \<Longrightarrow> \<exists>lst. makeLinkedEntries (ess ! i) = Some lst \<and> checkSingle m lst (\<lambda>_. False) = Some (Returned (r i))"
  obtains results where "launch m ess = Some results" "\<And>i. i < length ess \<Longrightarrow> results i = Some (Returned (r i))"
proof -
  define ls where "ls = map (\<lambda>es. the (makeLinkedEntries es)) ess"
  have "map makeLinkedEntries ess = map Some ls"
    using assms by (intro nth_equalityI) (fastforce simp: ls_def)+
  then have "those (map makeLinkedEntries ess) = Some ls"
    by (simp only: those_map_Some)
  moreover have "checkSingle m (ls ! i) (\<lambda>_. False) = Some (Returned (r i))" if "i < length ess" for i
    using assms [OF that] that by (auto simp: ls_def)
  ultimately show ?thesis using that by (simp add: launch_def ls_def)
qed

definition permutes_below :: "nat \<Rightarrow> nat list \<Rightarrow> bool" where
  "permutes_below n order \<longleftrightarrow> distinct order \<and> set order = {..<n}"

lemma permutes_below_length: "permutes_below n order \<Longrightarrow> length order = n"
  by (metis card_lessThan distinct_card permutes_below_def)

lemma fillDefault_sel [simp]: "Init (fillDefault m) = Init m" "Step (fillDefault m) = Step m"
  by (simp_all add: fillDefault_def Let_def)

lemma fillDefault_linearizable [simp]: "linearizable (fillDefault m) h \<longleftrightarrow> linearizable m h"
  by (simp add: linearizable_def op_step_def [abs_def])

text \<open>A history the checker is meant for: times are consistent and the model's \<open>Step\<close> accepts its
  values.\<close>

definition checkable :: "('v, 's) Model \<Rightarrow> 'v Operation list \<Rightarrow> bool" where
  "checkable m h \<longleftrightarrow> valid_times h \<and> (\<forall>op\<in>set h. \<forall>s. Step m s (Input op) (Output op) \<noteq> None)"

lemma checkSingle_ops:
  assumes "is_sort srt" "checkable m h" "eq_ok m"
  shows "\<exists>lst. makeLinkedEntries (makeEntries srt h) = Some lst \<and>
    checkSingle m lst (\<lambda>_. False) = Some (Returned (linearizable m h))"
proof -
  let ?es = "makeEntries srt h"
  have s: "sorted_entries h ?es" by (rule makeEntries_sorted [OF assms(1)])
  have v: "valid_times h" using assms(2) by (simp add: checkable_def)
  have "steps_defined m (view_of (length h) ?es)"
    using assms(2) op_view [OF s v] by (simp add: steps_defined_def checkable_def del: view_of_simps(3-))
  from checkSingle_correct [OF wf_makeEntries [OF s v] assms(3) this, of "\<lambda>_. False"]
  show ?thesis unfolding view_lin_ops [OF s v] by (metis (full_types))
qed

lemma CheckTimeout_partitions:
  assumes "is_sort srt" "Option.bind (Partition (fillDefault m)) (\<lambda>p. p history) = Some parts" "parts \<noteq> []"
    "\<forall>h\<in>set parts. checkable m h" "eq_ok (fillDefault m)" "permutes_below (length parts) order"
  shows "CheckOperationsTimeout srt m history t (map Result order) = Some (Returned (\<forall>h\<in>set parts. linearizable m h))"
proof -
  have "checkable (fillDefault m) h" if "h \<in> set parts" for h using assms(4) that by (simp add: checkable_def)
  then have *: "\<exists>lst. makeLinkedEntries (map (makeEntries srt) parts ! i) = Some lst \<and>
      checkSingle (fillDefault m) lst (\<lambda>_. False) = Some (Returned (linearizable m (parts ! i)))"
    if "i < length (map (makeEntries srt) parts)" for i
    using checkSingle_ops [OF assms(1) _ assms(5), of "parts ! i"] that by simp
  obtain results where r: "launch (fillDefault m) (map (makeEntries srt) parts) = Some results"
    "\<And>i. i < length parts \<Longrightarrow> results i = Some (Returned (linearizable m (parts ! i)))"
    using launch_ok [OF *] by (metis length_map)
  have "order \<noteq> []" using permutes_below_length [OF assms(6)] assms(3) by auto
  then have "collect results (length parts) t True 0 (map Result order) =
      Some (Returned (\<forall>i\<in>set order. linearizable m (parts ! i)))"
    using r(2) assms(6) permutes_below_length [OF assms(6)] by (intro collect_all) (auto simp: permutes_below_def)
  moreover have "(\<forall>i\<in>set order. linearizable m (parts ! i)) \<longleftrightarrow> (\<forall>h\<in>set parts. linearizable m h)"
    using assms(6) by (auto simp: permutes_below_def all_set_conv_all_nth)
  ultimately show ?thesis using assms(2) r(1) by (simp add: CheckOperationsTimeout_def Let_def)
qed

lemmas CheckOperations_partitions = CheckTimeout_partitions [where t = 0, folded CheckOperations_def]

subsection \<open>Partitioning by key is exact\<close>

definition kv_history :: "kv_value Operation list \<Rightarrow> bool" where
  "kv_history h \<longleftrightarrow>
     list_all (\<lambda>op. case (Input op, Output op) of (Some (InV _), Some (OutV _)) \<Rightarrow> True | _ \<Rightarrow> False) h"

text \<open>The whole store: a map from keys to values, initially empty strings.\<close>

definition store_op_step :: "kv_value Operation list \<Rightarrow> (string \<Rightarrow> string) \<Rightarrow> nat \<Rightarrow> (string \<Rightarrow> string) option" where
  "store_op_step h g i =
     (case (Input (h ! i), Output (h ! i)) of
        (Some (InV inp), Some (OutV out)) \<Rightarrow>
          if Op inp = 0 then (if OutValue out = g (Key inp) then Some g else None)
          else if Op inp = 1 then Some (g(Key inp := Value inp))
          else Some (g(Key inp := g (Key inp) @ Value inp))
      | _ \<Rightarrow> None)"

definition store_linearizable :: "kv_value Operation list \<Rightarrow> bool" where
  "store_linearizable h \<longleftrightarrow>
     (\<exists>order. linearization {..<length h} (op_prec h) (store_op_step h) (\<lambda>_. []) order)"

definition op_key_of :: "kv_value Operation list \<Rightarrow> nat \<Rightarrow> string" where
  "op_key_of h i = the (op_key (h ! i))"

definition sub_history :: "string \<Rightarrow> kv_value Operation list \<Rightarrow> kv_value Operation list" where
  "sub_history k h = filter (\<lambda>v. op_key v = Some k) h"

definition history_keys :: "kv_value Operation list \<Rightarrow> string set" where
  "history_keys h = {k. \<exists>v\<in>set h. op_key v = Some k}"

lemma kv_historyD:
  assumes "kv_history h" "op \<in> set h"
  obtains inp out where "Input op = Some (InV inp)" "Output op = Some (OutV out)" "op_key op = Some (Key inp)"
proof -
  have "case (Input op, Output op) of (Some (InV _), Some (OutV _)) \<Rightarrow> True | _ \<Rightarrow> False"
    using assms by (simp add: kv_history_def list_all_iff)
  then obtain inp out where "Input op = Some (InV inp)" "Output op = Some (OutV out)"
    by (cases "Input op"; cases "Output op"; cases "the (Input op)"; cases "the (Output op)") auto
  then show ?thesis using that by (simp add: op_key_def)
qed

lemma kv_groups_ok:
  assumes "kv_history h"
  shows "\<exists>m'. kv_groups m h = Some m' \<and>
    (\<forall>k. m' k = (case m k of
        None \<Rightarrow> if sub_history k h = [] then None else Some (sub_history k h)
      | Some l \<Rightarrow> Some (l @ sub_history k h)))"
  using assms
proof (induction h arbitrary: m)
  case Nil
  then show ?case by (auto simp: sub_history_def split: option.splits)
next
  case (Cons op h)
  obtain key where k: "op_key op = Some key" by (rule kv_historyD [OF Cons.prems, of op]) simp_all
  let ?m = "m(key \<mapsto> (case m key of None \<Rightarrow> [] | Some l \<Rightarrow> l) @ [op])"
  have "kv_history h" using Cons.prems by (simp add: kv_history_def)
  from Cons.IH [OF this, of ?m] obtain m' where m': "kv_groups ?m h = Some m'"
    "\<And>k. m' k = (case ?m k of None \<Rightarrow> if sub_history k h = [] then None else Some (sub_history k h)
      | Some l \<Rightarrow> Some (l @ sub_history k h))" by blast
  have sub: "sub_history k (op # h) = (if k = key then op # sub_history k h else sub_history k h)" for k
    using k by (auto simp: sub_history_def)
  show ?case
  proof (intro exI [of _ m'] conjI allI)
    show "kv_groups m (op # h) = Some m'" using k m'(1) by simp
    show "m' k = (case m k of None \<Rightarrow> if sub_history k (op # h) = [] then None else Some (sub_history k (op # h))
        | Some l \<Rightarrow> Some (l @ sub_history k (op # h)))" for k
      unfolding m'(2) sub by (cases "m key") auto
  qed
qed

definition enumerates :: "(string set \<Rightarrow> string list) \<Rightarrow> bool" where
  "enumerates ro \<longleftrightarrow> (\<forall>S. finite S \<longrightarrow> distinct (ro S) \<and> set (ro S) = S)"

lemma finite_history_keys: "finite (history_keys h)"
proof -
  have "history_keys h \<subseteq> (\<lambda>v. the (op_key v)) ` set h" by (force simp: history_keys_def)
  then show ?thesis by (rule finite_subset) simp
qed

lemma kv_Partition_ok:
  assumes "kv_history h" and that: "enumerates ro"
  shows "kv_Partition ro h = Some (map (\<lambda>k. sub_history k h) (ro (history_keys h)))"
proof -
  obtain m' where m': "kv_groups Map.empty h = Some m'"
    "\<And>k. m' k = (if sub_history k h = [] then None else Some (sub_history k h))"
    using kv_groups_ok [OF assms(1), of Map.empty] by auto
  have "k \<in> dom m' \<longleftrightarrow> k \<in> history_keys h" for k
    by (auto simp: m'(2) history_keys_def sub_history_def filter_empty_conv domIff)
  then have dom: "dom m' = history_keys h" by blast
  have "set (ro (history_keys h)) = history_keys h" using that finite_history_keys by (simp add: enumerates_def)
  then have "map (\<lambda>k. the (m' k)) (ro (history_keys h)) = map (\<lambda>k. sub_history k h) (ro (history_keys h))"
    using dom by (auto simp: m'(2) domIff split: if_splits)
  then show ?thesis using m'(1) dom by (simp add: kv_Partition_def)
qed

lemma sub_history_nth:
  "sub_history k h = map ((!) h) (filter (\<lambda>i. op_key (h ! i) = Some k) [0..<length h])"
  unfolding sub_history_def by (subst map_nth [of h, symmetric]) (simp only: filter_map comp_def)

lemma linearizable_sub:
  assumes "kv_history h"
  shows "linearizable m (sub_history k h) \<longleftrightarrow>
    (\<exists>order. linearization ({..<length h} \<inter> {i. op_key_of h i = k}) (op_prec h) (op_step m h) (Init m) order)"
proof -
  define f where "f = (!) (filter (\<lambda>i. op_key (h ! i) = Some k) [0..<length h])"
  let ?xs = "filter (\<lambda>i. op_key (h ! i) = Some k) [0..<length h]"
  have len: "length (sub_history k h) = length ?xs" unfolding sub_history_nth by (rule length_map)
  have nth: "sub_history k h ! i = h ! f i" if "i < length ?xs" for i
    unfolding sub_history_nth f_def by (rule nth_map [OF that])
  have inj: "inj_on f {..<length ?xs}" unfolding f_def by (intro inj_on_nth) auto
  have img: "f ` {..<length ?xs} = {..<length h} \<inter> {i. op_key_of h i = k}"
  proof -
    have "f ` {..<length ?xs} = set ?xs" unfolding f_def lessThan_atLeast0 by (subst nth_image) simp_all
    moreover have "op_key (h ! i) = Some k \<longleftrightarrow> op_key_of h i = k" if "i < length h" for i
      by (rule kv_historyD [OF assms nth_mem [OF that]]) (simp add: op_key_of_def)
    ultimately show ?thesis by auto
  qed
  have "linearizable m (sub_history k h) \<longleftrightarrow>
    (\<exists>order. linearization {..<length ?xs} (\<lambda>i j. op_prec h (f i) (f j)) (\<lambda>s i. op_step m h s (f i)) (Init m) order)"
    unfolding linearizable_def len
    by (intro arg_cong [of _ _ Ex] ext linearization_cong) (simp_all add: op_prec_def op_step_def nth)
  also have "\<dots> \<longleftrightarrow> (\<exists>order. linearization (f ` {..<length ?xs}) (op_prec h) (op_step m h) (Init m) order)"
    by (rule linearization_rename [OF inj, symmetric])
  finally show ?thesis unfolding img .
qed

lemma store_op_step_eq:
  assumes "kv_history h" "i < length h"
  shows "store_op_step h g i = store_step (op_key_of h) (op_step (KvModel ro) h) g i"
proof (rule kv_historyD [OF assms(1) nth_mem [OF assms(2)]])
  fix inp out assume op: "Input (h ! i) = Some (InV inp)" "Output (h ! i) = Some (OutV out)" "op_key (h ! i) = Some (Key inp)"
  show ?thesis
    by (simp add: op store_op_step_def store_step_def op_key_of_def op_step_def KvModel_def kv_Step_def fun_upd_idem)
qed

lemma kv_locality:
  assumes kv: "kv_history h" and v: "valid_times h"
  shows "(\<forall>k\<in>history_keys h. linearizable (KvModel ro) (sub_history k h)) \<longleftrightarrow> store_linearizable h"
proof -
  let ?m = "KvModel ro" and ?K = "\<lambda>k. {..<length h} \<inter> {i. op_key_of h i = k}"
  let ?L = "\<lambda>k. \<exists>order. linearization (?K k) (op_prec h) (op_step ?m h) [] order"
  have init: "Init ?m = []" by (simp add: KvModel_def)
  have other: "?L k" if "k \<notin> history_keys h" for k
  proof -
    have "op_key_of h i \<noteq> k" if "i < length h" for i
    proof (rule kv_historyD [OF kv nth_mem [OF that]])
      fix inp assume "op_key (h ! i) = Some (Key inp)"
      moreover from this have "Key inp \<in> history_keys h" unfolding history_keys_def using nth_mem [OF that] by blast
      ultimately show ?thesis using \<open>k \<notin> history_keys h\<close> by (auto simp: op_key_of_def)
    qed
    then have "?K k = {}" by auto
    then show ?thesis by (intro exI [of _ "[]"]) (simp add: linearization_def)
  qed
  have "store_linearizable h \<longleftrightarrow> (\<exists>order. linearization {..<length h} (op_prec h) (store_step (op_key_of h) (op_step ?m h)) (\<lambda>_. []) order)"
    unfolding store_linearizable_def
    by (intro arg_cong [of _ _ Ex] ext linearization_cong refl) (simp add: store_op_step_eq [OF kv, of _ _ ro])
  also have "\<dots> \<longleftrightarrow> (\<forall>k. ?L k)"
  proof
    assume "\<exists>order. linearization {..<length h} (op_prec h) (store_step (op_key_of h) (op_step ?m h)) (\<lambda>_. []) order"
    then obtain order where "linearization {..<length h} (op_prec h) (store_step (op_key_of h) (op_step ?m h)) (\<lambda>_. []) order" ..
    from locality_split [OF this] show "\<forall>k. ?L k" by (intro allI exI)
  next
    assume L: "\<forall>k. ?L k"
    have p: "op_prec h = (\<lambda>i j. Return (h ! i) < Call (h ! j))" by (simp add: fun_eq_iff op_prec_def)
    show "\<exists>order. linearization {..<length h} (op_prec h) (store_step (op_key_of h) (op_step ?m h)) (\<lambda>_. []) order"
      unfolding p
    proof (rule locality_join [where call = "\<lambda>i. Call (h ! i)" and ret = "\<lambda>i. Return (h ! i)"])
      show "finite {..<length h}" by simp
      show "Call (h ! i) < Return (h ! i)" if "i \<in> {..<length h}" for i using v that by (simp add: valid_times_def)
      show "\<exists>order. linearization (?K k) (\<lambda>i j. Return (h ! i) < Call (h ! j)) (op_step ?m h) [] order" for k
        using L unfolding p by blast
    qed
  qed
  also have "\<dots> \<longleftrightarrow> (\<forall>k\<in>history_keys h. ?L k)" using other by blast
  finally show ?thesis unfolding linearizable_sub [OF kv] init ..
qed

subsection \<open>Properties\<close>

lemma eq_ok_fill:
  "Equal m = None \<Longrightarrow> eq_ok (fillDefault m)" "eq_ok m \<Longrightarrow> eq_ok (fillDefault m)"
  by (auto simp: eq_ok_def fillDefault_def Let_def ShallowEqual_def)

lemma kv_partitions:
  assumes "kv_history h" "enumerates ro"
  shows "Option.bind (Partition (fillDefault (KvModel ro))) (\<lambda>p. p h) = Some (map (\<lambda>k. sub_history k h) (ro (history_keys h)))"
  using kv_Partition_ok [OF assms] by (simp add: fillDefault_def Let_def KvModel_def)

lemma kv_checkable:
  assumes "kv_history h" "valid_times h"
  shows "checkable (KvModel ro) (sub_history k h)"
  unfolding checkable_def
proof (intro conjI ballI allI)
  show "valid_times (sub_history k h)" using assms(2) by (simp add: valid_times_def sub_history_def)
  fix op s assume "op \<in> set (sub_history k h)"
  then have "op \<in> set h" by (simp add: sub_history_def)
  then show "Step (KvModel ro) s (Input op) (Output op) \<noteq> None"
    by (rule kv_historyD [OF assms(1)]) (auto simp: KvModel_def kv_Step_def)
qed

lemma kv_eq_ok: "eq_ok (fillDefault (KvModel ro))"
  by (rule eq_ok_fill) (simp add: KvModel_def eq_ok_def ShallowEqual_def)

text \<open>C8: For a non-empty history of the key-value service whose operations have an invocation before
  their response and no response at the instant of an invocation, \<open>CheckOperations(KvModel(), h)\<close>
  returns, does not panic, and returns \<open>true\<close> exactly when the history is linearizable as a history
  of one store holding all keys. This holds for every permutation the unstable sort may choose among
  equal times, every iteration order of the Go map in \<open>Partition\<close> and every order in which the
  goroutines deliver their results.\<close>

theorem kv_check_exact:
  assumes "kv_history h" "h \<noteq> []" "valid_times h" "is_sort srt" "enumerates ro"
    "permutes_below (card (history_keys h)) order"
  shows "CheckOperations srt (KvModel ro) h (map Result order) = Some (Returned (store_linearizable h))"
proof -
  let ?parts = "map (\<lambda>k. sub_history k h) (ro (history_keys h))"
  have ro: "distinct (ro (history_keys h))" "set (ro (history_keys h)) = history_keys h"
    using assms(5) finite_history_keys by (simp_all add: enumerates_def)
  then have len: "length ?parts = card (history_keys h)" by (simp flip: distinct_card)
  obtain op rest where "h = op # rest" using assms(2) by (cases h) auto
  then have "history_keys h \<noteq> {}"
    using kv_historyD [OF assms(1), of op] unfolding history_keys_def by (metis (mono_tags, lifting) empty_Collect_eq list.set_intros(1))
  then have "?parts \<noteq> []" using ro(2) by (metis Nil_is_map_conv set_empty)
  from CheckOperations_partitions [OF assms(4) kv_partitions [OF assms(1,5)] this _ kv_eq_ok, of order]
  have "CheckOperations srt (KvModel ro) h (map Result order) =
      Some (Returned (\<forall>p\<in>set ?parts. linearizable (KvModel ro) p))"
    using kv_checkable [OF assms(1,3), of ro] assms(6) by (simp only: len) auto
  also have "(\<forall>p\<in>set ?parts. linearizable (KvModel ro) p) \<longleftrightarrow> store_linearizable h"
    using kv_locality [OF assms(1,3), of ro] ro(2) by simp
  finally show ?thesis .
qed

definition wit_kv :: "kv_value Operation list" where
  "wit_kv =
     [\<lparr>Input = Some (InV \<lparr>Op = 1, Key = ''a'', Value = ''x''\<rparr>), Call = 0, Output = Some (OutV \<lparr>OutValue = []\<rparr>), Return = 5\<rparr>,
      \<lparr>Input = Some (InV \<lparr>Op = 0, Key = ''a'', Value = []\<rparr>), Call = 3, Output = Some (OutV \<lparr>OutValue = []\<rparr>), Return = 8\<rparr>,
      \<lparr>Input = Some (InV \<lparr>Op = 2, Key = ''b'', Value = ''y''\<rparr>), Call = 1, Output = Some (OutV \<lparr>OutValue = []\<rparr>), Return = 9\<rparr>]"

lemma sort_key_is_sort: "is_sort (sort_key etime)"
proof -
  have "sorted_wrt (\<lambda>a b. \<not> byTime_Less b a) es" if "sorted (map etime es)" for es :: "'a entry list"
    using that by (induction es) (auto simp: byTime_Less_def not_less)
  then show ?thesis unfolding is_sort_def by simp
qed

lemma sorted_enumerates: "enumerates sorted_list_of_set"
  by (simp add: enumerates_def)

lemma wit_kv_facts:
  "kv_history wit_kv" "wit_kv \<noteq> []" "valid_times wit_kv" "card (history_keys wit_kv) = 2"
proof -
  have "history_keys wit_kv = {''a'', ''b''}" by (auto simp: history_keys_def wit_kv_def op_key_def)
  then show "card (history_keys wit_kv) = 2" by simp
qed (simp_all add: kv_history_def wit_kv_def valid_times_def)

lemma wit_kv_linearizable: "store_linearizable wit_kv"
  unfolding store_linearizable_def
proof (intro exI [of _ "[1, 0, 2]"])
  have "{..<3} = {0, 1, 2 :: nat}" by auto
  then show "linearization {..<length wit_kv} (op_prec wit_kv) (store_op_step wit_kv) (\<lambda>_. []) [1, 0, 2]"
    by (auto simp: linearization_def wit_kv_def op_prec_def store_op_step_def numeral_2_eq_2 numeral_3_eq_3)
qed

lemma two_orders: "permutes_below 2 [1, 0]" "permutes_below 1 [0]"
  by (auto simp: permutes_below_def)

theorem kv_check_exact_witness:
  "CheckOperations (sort_key etime) (KvModel sorted_list_of_set) wit_kv [Result 1, Result 0] = Some (Returned True)"
  using kv_check_exact [OF wit_kv_facts(1-3) sort_key_is_sort sorted_enumerates, of "[1, 0]"] wit_kv_facts(4)
    two_orders(1) wit_kv_linearizable
  by simp

text \<open>C9: With the default partitioning, \<open>CheckOperations\<close> decides linearizability for every model whose
  \<open>Step\<close> does not panic on the history and whose \<open>Equal\<close> is left out (the default \<open>ShallowEqual\<close>): the
  search always returns, and its answer is exact.\<close>

theorem CheckOperations_decides:
  assumes "is_sort srt" "checkable m h" "Partition m = None" "Equal m = None"
  shows "CheckOperations srt m h [Result 0] = Some (Returned (linearizable m h))"
proof -
  have "Option.bind (Partition (fillDefault m)) (\<lambda>p. p h) = Some [h]"
    using assms(3) by (simp add: fillDefault_def Let_def NoPartition_def)
  from CheckOperations_partitions [OF assms(1) this _ _ eq_ok_fill(1) [OF assms(4)], of "[0]"]
  show ?thesis using assms(2) two_orders(2) by simp
qed

definition wit_reg :: "(kv_value, string) Model" where
  "wit_reg = (KvModel sorted_list_of_set)\<lparr>Partition := None, Equal := None\<rparr>"

text \<open>A register that is written and then read with the old value.\<close>

definition wit_stale :: "kv_value Operation list" where
  "wit_stale =
     [\<lparr>Input = Some (InV \<lparr>Op = 1, Key = ''a'', Value = ''x''\<rparr>), Call = 0, Output = Some (OutV \<lparr>OutValue = []\<rparr>), Return = 2\<rparr>,
      \<lparr>Input = Some (InV \<lparr>Op = 0, Key = ''a'', Value = []\<rparr>), Call = 3, Output = Some (OutV \<lparr>OutValue = []\<rparr>), Return = 4\<rparr>]"

lemma wit_stale_not: "\<not> linearizable wit_reg wit_stale"
proof
  assume "linearizable wit_reg wit_stale"
  then obtain order where o: "linearization {..<2} (op_prec wit_stale) (op_step wit_reg wit_stale) [] order"
  proof -
    have "length wit_stale = 2" "Init wit_reg = []" by (simp_all add: wit_stale_def wit_reg_def KvModel_def)
    then show ?thesis using that \<open>linearizable wit_reg wit_stale\<close> by (auto simp: linearizable_def)
  qed
  have s: "set order = {..<2}" "distinct order" using o by (simp_all add: linearization_def)
  then have "length order = 2" using distinct_card [of order] by simp
  then obtain i j where ij: "order = [i, j]" by (auto simp: numeral_2_eq_2 length_Suc_conv)
  have "i < 2" "j < 2" "i \<noteq> j" using s by (auto simp: ij)
  then consider "order = [0, 1]" | "order = [1, 0]" using ij by (fastforce simp: less_2_cases_iff)
  then show False
  proof cases
    case 1
    have "op_step wit_reg wit_stale [] 0 = Some ''x''" "op_step wit_reg wit_stale ''x'' 1 = None"
      by (simp_all add: op_step_def wit_stale_def wit_reg_def KvModel_def kv_Step_def)
    then show False using o 1 by (simp add: linearization_def)
  next
    case 2
    have "op_prec wit_stale 0 1" by (simp add: op_prec_def wit_stale_def)
    then show False using o 2 by (simp add: linearization_def)
  qed
qed

theorem CheckOperations_decides_witness:
  "CheckOperations (sort_key etime) wit_reg wit_stale [Result 0] = Some (Returned False)"
proof -
  have "checkable wit_reg wit_stale"
    by (auto simp: checkable_def valid_times_def wit_stale_def wit_reg_def KvModel_def kv_Step_def)
  then show ?thesis
    using CheckOperations_decides [OF sort_key_is_sort, of wit_reg wit_stale] wit_stale_not
    by (simp add: wit_reg_def)
qed

text \<open>C39: On the empty history the key-value model has no partition, no goroutine is started, and
  \<open>CheckOperations\<close> (which has no timeout) never returns, whatever arrives.\<close>

theorem CheckOperations_empty_blocks:
  assumes "enumerates ro"
  shows "CheckOperations srt (KvModel ro) [] arrivals = None"
proof -
  have "set (ro {}) = {}" using assms by (simp add: enumerates_def)
  then have "ro {} = []" by simp
  moreover have "collect (\<lambda>i. None) 0 0 ok cnt arrivals = None" for ok cnt
  proof (induction arrivals)
    case (Cons a arrivals)
    then show ?case by (cases a) auto
  qed simp
  ultimately show ?thesis
    by (simp add: CheckOperations_def CheckOperationsTimeout_def fillDefault_def Let_def KvModel_def kv_Partition_def launch_def)
qed

theorem CheckOperations_empty_blocks_witness:
  "CheckOperations (sort_key etime) (KvModel sorted_list_of_set) [] [Result 0, TimerExpired] = None"
  by (rule CheckOperations_empty_blocks [OF sorted_enumerates])

lemma collect_False:
  "collect results np t True cnt arrivals = Some (Returned False) \<Longrightarrow> \<exists>i. results i = Some (Returned False)"
proof (induction arrivals arbitrary: cnt)
  case (Cons a arrivals)
  then show ?case
    by (cases a) (auto simp: Let_def split: option.splits run.splits if_splits)
qed simp

text \<open>C27: With a timeout the checker can only err by accepting: whatever arrives and whenever the timer
  fires, an answer \<open>false\<close> means that the history is not linearizable, while a timer that fires before
  the first result makes the answer \<open>true\<close> whatever the history is.\<close>

theorem timeout_false_is_definite:
  assumes "kv_history h" "valid_times h" "is_sort srt" "enumerates ro"
  shows "(CheckOperationsTimeout srt (KvModel ro) h t arrivals = Some (Returned False) \<longrightarrow> \<not> store_linearizable h) \<and>
    (t > 0 \<longrightarrow> CheckOperationsTimeout srt (KvModel ro) h t (TimerExpired # rest) = Some (Returned True))"
proof -
  let ?parts = "map (\<lambda>k. sub_history k h) (ro (history_keys h))" and ?m = "fillDefault (KvModel ro)"
  have ro: "set (ro (history_keys h)) = history_keys h" using assms(4) finite_history_keys by (simp add: enumerates_def)
  have "checkable ?m p" if "p \<in> set ?parts" for p
    using kv_checkable [OF assms(1,2), of ro] that by (auto simp: checkable_def)
  then have *: "\<exists>lst. makeLinkedEntries (map (makeEntries srt) ?parts ! i) = Some lst \<and>
      checkSingle ?m lst (\<lambda>_. False) = Some (Returned (linearizable (KvModel ro) (?parts ! i)))"
    if "i < length (map (makeEntries srt) ?parts)" for i
    using checkSingle_ops [OF assms(3) _ kv_eq_ok, of ro "?parts ! i"] that by simp
  obtain results where r: "launch ?m (map (makeEntries srt) ?parts) = Some results"
    "\<And>i. i < length ?parts \<Longrightarrow> results i = Some (Returned (linearizable (KvModel ro) (?parts ! i)))"
    using launch_ok [OF *] by (metis length_map)
  have out: "results i = None" if "\<not> i < length ?parts" for i
    using r(1) that by (auto simp: launch_def split: if_splits dest!: those_length)
  have e: "CheckOperationsTimeout srt (KvModel ro) h t a = collect results (length ?parts) t True 0 a" for a
    using kv_partitions [OF assms(1,4)] r(1) by (simp add: CheckOperationsTimeout_def Let_def)
  have "\<not> store_linearizable h" if false: "collect results (length ?parts) t True 0 arrivals = Some (Returned False)"
  proof -
    obtain i where i: "results i = Some (Returned False)" using collect_False [OF false] by blast
    have i2: "i < length ?parts"
    proof (rule ccontr)
      assume "\<not> i < length ?parts"
      from out [OF this] i show False by simp
    qed
    have nl: "\<not> linearizable (KvModel ro) (?parts ! i)" using r(2) [OF i2] i by simp
    have "?parts ! i \<in> (\<lambda>k. sub_history k h) ` history_keys h" using nth_mem [OF i2] unfolding set_map ro .
    then obtain k where "k \<in> history_keys h" "?parts ! i = sub_history k h" by blast
    with nl have "k \<in> history_keys h" "\<not> linearizable (KvModel ro) (sub_history k h)" by simp_all
    then show ?thesis using kv_locality [OF assms(1,2), of ro] by blast
  qed
  then show ?thesis unfolding e by simp
qed

theorem timeout_false_is_definite_witness:
  "CheckOperationsTimeout (sort_key etime) (KvModel sorted_list_of_set) wit_kv 5 [TimerExpired, Result 1] = Some (Returned True)"
  using timeout_false_is_definite [OF wit_kv_facts(1,3) sort_key_is_sort sorted_enumerates, of 5 "[]" "[Result 1]"] by simp

end
