(* ===== verification/LinEvents.thy ===== *)
theory LinEvents
  imports LinTop
begin

text \<open>
  Histories given as a sequence of call and return events: \<open>renumber\<close> and \<open>CheckEvents\<close> of
  \<open>linearizability.go\<close>.
\<close>

subsection \<open>Renumbering\<close>

definition ev_ids :: "'v Event list \<Rightarrow> nat set" where
  "ev_ids ev = EId ` set ev"

definition reid :: "(nat \<Rightarrow> nat) \<Rightarrow> 'v Event \<Rightarrow> 'v Event" where
  "reid f v = \<lparr>EKind = EKind v, EValue = EValue v, EId = f (EId v)\<rparr>"

lemma renumber_from_ok:
  assumes "inj_on (\<lambda>i. the (m i)) (dom m)" "(\<lambda>i. the (m i)) ` dom m = {..<n}"
  shows "\<exists>f. renumber_from m n ev = map (reid f) ev \<and> inj_on f (dom m \<union> ev_ids ev) \<and>
    (\<exists>k. f ` (dom m \<union> ev_ids ev) = {..<k}) \<and> (\<forall>i\<in>dom m. m i = Some (f i))"
  using assms
proof (induction ev arbitrary: m n)
  case Nil
  then show ?case by (intro exI [of _ "\<lambda>i. the (m i)"]) (auto simp: ev_ids_def)
next
  case (Cons v ev)
  show ?case
  proof (cases "m (EId v)")
    case (Some r)
    obtain f where f: "renumber_from m n ev = map (reid f) ev" "inj_on f (dom m \<union> ev_ids ev)"
      "\<exists>k. f ` (dom m \<union> ev_ids ev) = {..<k}" "\<forall>i\<in>dom m. m i = Some (f i)"
      using Cons.IH [OF Cons.prems] by blast
    have d: "dom m \<union> ev_ids (v # ev) = dom m \<union> ev_ids ev" using Some by (auto simp: ev_ids_def)
    have "f (EId v) = r" using f(4) Some by (metis domI option.inject)
    then show ?thesis unfolding d using f Some by (intro exI [of _ f]) (simp add: reid_def)
  next
    case None
    let ?m = "m(EId v \<mapsto> n)"
    have ag: "the (?m i) = the (m i)" if "i \<in> dom m" for i using that None by auto
    have "(\<lambda>i. the (?m i)) ` dom m = (\<lambda>i. the (m i)) ` dom m" by (rule image_cong [OF refl]) (rule ag)
    moreover have "inj_on (\<lambda>i. the (?m i)) (dom m) = inj_on (\<lambda>i. the (m i)) (dom m)" by (rule inj_on_cong) (rule ag)
    ultimately have eq: "(\<lambda>i. the (?m i)) ` dom m = {..<n}" "inj_on (\<lambda>i. the (?m i)) (dom m)"
      using Cons.prems by (simp_all only:)
    have "(\<lambda>i. the (?m i)) ` dom ?m = {..<Suc n}" using eq(1) by (auto simp: lessThan_Suc)
    moreover have "inj_on (\<lambda>i. the (?m i)) (dom ?m)"
      using eq None by (auto simp: inj_on_insert domIff)
    ultimately obtain f where f: "renumber_from ?m (Suc n) ev = map (reid f) ev" "inj_on f (dom ?m \<union> ev_ids ev)"
      "\<exists>k. f ` (dom ?m \<union> ev_ids ev) = {..<k}" "\<forall>i\<in>dom ?m. ?m i = Some (f i)"
      using Cons.IH [of ?m "Suc n"] by blast
    have d: "dom m \<union> ev_ids (v # ev) = dom ?m \<union> ev_ids ev" by (auto simp: ev_ids_def)
    have "f (EId v) = n" using f(4) by (auto dest: bspec [of _ _ "EId v"])
    moreover have "\<forall>i\<in>dom m. m i = Some (f i)"
    proof
      fix i assume i: "i \<in> dom m"
      then have "i \<noteq> EId v" "i \<in> dom ?m" using None by auto
      then show "m i = Some (f i)" using bspec [OF f(4), of i] by simp
    qed
    ultimately show ?thesis unfolding d using f None by (intro exI [of _ f]) (simp add: reid_def)
  qed
qed

lemma renumber_ok:
  obtains f where "renumber ev = map (reid f) ev" "inj_on f (ev_ids ev)" "f ` ev_ids ev = {..<card (ev_ids ev)}"
proof -
  obtain f k where f: "renumber ev = map (reid f) ev" "inj_on f (ev_ids ev)" "f ` ev_ids ev = {..<k}"
    using renumber_from_ok [of Map.empty 0 ev] by (auto simp: renumber_def)
  moreover have "k = card (ev_ids ev)" using card_image [OF f(2)] unfolding f(3) by simp
  ultimately show ?thesis using that by blast
qed

subsection \<open>Linearizability of event sequences\<close>

definition is_event :: "EventKind \<Rightarrow> nat \<Rightarrow> 'v Event \<Rightarrow> bool" where
  "is_event k i v \<longleftrightarrow> EKind v = k \<and> EId v = i"

definition ev_pos :: "EventKind \<Rightarrow> nat \<Rightarrow> 'v Event list \<Rightarrow> nat" where
  "ev_pos k i ev = length (takeWhile (\<lambda>v. \<not> is_event k i v) ev)"

definition ev_value :: "EventKind \<Rightarrow> nat \<Rightarrow> 'v Event list \<Rightarrow> 'v iface" where
  "ev_value k i ev = (case find (is_event k i) ev of None \<Rightarrow> None | Some v \<Rightarrow> EValue v)"

text \<open>Operation \<open>i\<close> precedes \<open>j\<close> when its return event comes before the call event of \<open>j\<close>.\<close>

definition ev_prec :: "'v Event list \<Rightarrow> nat \<Rightarrow> nat \<Rightarrow> bool" where
  "ev_prec ev i j \<longleftrightarrow> ev_pos ReturnEvent i ev < ev_pos CallEvent j ev"

definition ev_step :: "('v, 's) Model \<Rightarrow> 'v Event list \<Rightarrow> 's \<Rightarrow> nat \<Rightarrow> 's option" where
  "ev_step m ev s i =
     (case Step m s (ev_value CallEvent i ev) (ev_value ReturnEvent i ev) of
        Some (ok, s') \<Rightarrow> if ok then Some s' else None | None \<Rightarrow> None)"

definition linearizable_events :: "('v, 's) Model \<Rightarrow> 'v Event list \<Rightarrow> bool" where
  "linearizable_events m ev \<longleftrightarrow> (\<exists>order. linearization (ev_ids ev) (ev_prec ev) (ev_step m ev) (Init m) order)"

text \<open>Every identifier has one call event and, later, one return event.\<close>

definition valid_events :: "'v Event list \<Rightarrow> bool" where
  "valid_events ev \<longleftrightarrow> (\<forall>i\<in>ev_ids ev. \<exists>pre c mid r post. ev = pre @ c # mid @ r # post \<and>
     is_event CallEvent i c \<and> is_event ReturnEvent i r \<and> i \<notin> ev_ids (pre @ mid @ post))"

definition ev_entry :: "(nat \<Rightarrow> nat) \<Rightarrow> 'v Event \<Rightarrow> 'v entry" where
  "ev_entry f v = \<lparr>kind = (if EKind v = ReturnEvent then returnEntry else callEntry), evalue = EValue v,
     eid = f (EId v), etime = - 1\<rparr>"

lemma convert_reid: "convertEntries (map (reid f) ev) = map (ev_entry f) ev"
  by (simp add: convertEntries_def ev_entry_def reid_def)

lemma node_at_pos:
  "\<exists>e\<in>set es. P e \<Longrightarrow> node_at P es + Suc (length (takeWhile (\<lambda>e. \<not> P e) es)) = length es"
  by (induction es) auto

lemma value_at_find: "value_at P es = (case find P es of None \<Rightarrow> None | Some e \<Rightarrow> evalue e)"
  by (induction es) auto

text \<open>Entry and event positions agree under the renumbering.\<close>

definition entry_kind :: "EventKind \<Rightarrow> entryKind" where
  "entry_kind k = (case k of CallEvent \<Rightarrow> callEntry | ReturnEvent \<Rightarrow> returnEntry)"

lemma is_entry_event:
  assumes "inj_on f (ev_ids ev)" "v \<in> set ev" "i \<in> ev_ids ev"
  shows "is_entry (entry_kind k) (f i) (ev_entry f v) \<longleftrightarrow> is_event k i v"
proof -
  have "f (EId v) = f i \<longleftrightarrow> EId v = i"
    using assms inj_on_eq_iff [OF assms(1), of "EId v" i] by (auto simp: ev_ids_def)
  moreover have "kind (ev_entry f v) = entry_kind (EKind v)" by (cases "EKind v") (simp_all add: ev_entry_def entry_kind_def)
  moreover have "entry_kind (EKind v) = entry_kind k \<longleftrightarrow> EKind v = k"
    by (cases "EKind v"; cases k) (simp_all add: entry_kind_def)
  ultimately show ?thesis by (simp add: is_entry_def is_event_def ev_entry_def)
qed

lemma ev_views:
  assumes "inj_on f (ev_ids ev)" "i \<in> ev_ids ev"
  shows "length (takeWhile (\<lambda>e. \<not> is_entry (entry_kind k) (f i) e) (map (ev_entry f) ev)) = ev_pos k i ev"
    "value_at (is_entry (entry_kind k) (f i)) (map (ev_entry f) ev) = ev_value k i ev"
proof -
  have ie: "is_entry (entry_kind k) (f i) (ev_entry f v) \<longleftrightarrow> is_event k i v" if "v \<in> set ev" for v
    by (rule is_entry_event [OF assms(1) that assms(2)])
  have "takeWhile (\<lambda>v. \<not> is_entry (entry_kind k) (f i) (ev_entry f v)) ev = takeWhile (\<lambda>v. \<not> is_event k i v) ev"
    by (rule takeWhile_cong) (simp_all add: ie)
  then show "length (takeWhile (\<lambda>e. \<not> is_entry (entry_kind k) (f i) e) (map (ev_entry f) ev)) = ev_pos k i ev"
    by (simp add: takeWhile_map comp_def ev_pos_def)
  have "find (is_entry (entry_kind k) (f i)) (map (ev_entry f) ev') = map_option (ev_entry f) (find (is_event k i) ev')"
    if "set ev' \<subseteq> set ev" for ev' using that by (induction ev') (auto simp: ie)
  then show "value_at (is_entry (entry_kind k) (f i)) (map (ev_entry f) ev) = ev_value k i ev"
    by (auto simp: value_at_find ev_value_def ev_entry_def split: option.splits)
qed

lemma wf_events:
  assumes v: "valid_events ev" and f: "inj_on f (ev_ids ev)" "f ` ev_ids ev = {..<n}"
  shows "wf_entries n (map (ev_entry f) ev)"
  unfolding wf_entries_def
proof (intro conjI allI impI ballI)
  fix e assume "e \<in> set (map (ev_entry f) ev)"
  then obtain x where "x \<in> set ev" "e = ev_entry f x" by auto
  then have "eid e \<in> f ` ev_ids ev" by (simp add: ev_entry_def ev_ids_def)
  then show "eid e < n" unfolding f(2) by simp
next
  fix i assume "i < n"
  then obtain j where j: "j \<in> ev_ids ev" "i = f j" using f(2) by blast
  obtain pre c mid r post where p: "ev = pre @ c # mid @ r # post" "is_event CallEvent j c" "is_event ReturnEvent j r"
    "j \<notin> ev_ids (pre @ mid @ post)" using v j(1) unfolding valid_events_def by blast
  have "eid (ev_entry f x) \<noteq> i" if "x \<in> set (pre @ mid @ post)" for x
  proof
    assume "eid (ev_entry f x) = i"
    then have "f (EId x) = f j" by (simp add: ev_entry_def j(2))
    moreover have "EId x \<in> ev_ids ev" using that by (auto simp: p(1) ev_ids_def)
    ultimately have "EId x = j" using inj_onD [OF f(1)] j(1) by blast
    then show False using p(4) that by (auto simp: ev_ids_def)
  qed
  then show "\<exists>pre c mid r post. map (ev_entry f) ev = pre @ c # mid @ r # post \<and> kind c = callEntry \<and> kind r = returnEntry \<and>
      eid c = i \<and> eid r = i \<and> (\<forall>e\<in>set (pre @ mid @ post). eid e \<noteq> i)"
    using p(2,3) j(2)
    by (intro exI [of _ "map (ev_entry f) pre"] exI [of _ "ev_entry f c"] exI [of _ "map (ev_entry f) mid"]
        exI [of _ "ev_entry f r"] exI [of _ "map (ev_entry f) post"])
      (auto simp: p(1) ev_entry_def is_event_def)
qed

lemma ev_has:
  assumes "valid_events ev" "inj_on f (ev_ids ev)" "i \<in> ev_ids ev"
  shows "\<exists>e\<in>set (map (ev_entry f) ev). is_entry (entry_kind k) (f i) e"
proof -
  obtain pre c mid r post where p: "ev = pre @ c # mid @ r # post" "is_event CallEvent i c" "is_event ReturnEvent i r"
    using assms(1,3) unfolding valid_events_def by blast
  have m: "c \<in> set ev" "r \<in> set ev" by (simp_all add: p(1))
  show ?thesis using is_entry_event [OF assms(2) m(1) assms(3), of CallEvent] is_entry_event [OF assms(2) m(2) assms(3), of ReturnEvent]
      p(2,3) m by (cases k) auto
qed

lemma view_lin_events:
  assumes v: "valid_events ev" and f: "inj_on f (ev_ids ev)" "f ` ev_ids ev = {..<n}"
  shows "view_lin m (view_of n (map (ev_entry f) ev)) \<longleftrightarrow> linearizable_events m ev"
proof -
  let ?es = "map (ev_entry f) ev"
  let ?V = "view_of n ?es"
  have k: "callEntry = entry_kind CallEvent" "returnEntry = entry_kind ReturnEvent" by (simp_all add: entry_kind_def)
  have pos: "node_at (is_entry (entry_kind k) (f i)) ?es + Suc (ev_pos k i ev) = length ?es" if "i \<in> ev_ids ev" for k i
    using node_at_pos [OF ev_has [OF v f(1) that, of k]] ev_views(1) [OF f(1) that, of k] by simp
  have prec: "vprec ?V (f i) (f j) \<longleftrightarrow> ev_prec ev i j" if "i \<in> ev_ids ev" "j \<in> ev_ids ev" for i j
    using pos [OF that(1), of ReturnEvent] pos [OF that(2), of CallEvent]
    by (simp only: vprec_def ev_prec_def view_of_simps k) linarith
  have stp: "vstep m ?V s (f i) = ev_step m ev s i" if "i \<in> ev_ids ev" for s i
    using ev_views(2) [OF f(1) that] by (simp add: vstep_def ev_step_def k)
  have "view_lin m ?V \<longleftrightarrow> (\<exists>order. linearization (f ` ev_ids ev) (vprec ?V) (vstep m ?V) (Init m) order)"
    by (simp add: view_lin_def f(2))
  also have "\<dots> \<longleftrightarrow> (\<exists>order. linearization (ev_ids ev) (\<lambda>i j. vprec ?V (f i) (f j)) (\<lambda>s i. vstep m ?V s (f i)) (Init m) order)"
    by (rule linearization_rename [OF f(1)])
  also have "\<dots> \<longleftrightarrow> linearizable_events m ev" unfolding linearizable_events_def
    by (intro arg_cong [of _ _ Ex] ext linearization_cong) (simp_all add: prec stp del: view_of_simps)
  finally show ?thesis .
qed

text \<open>C25: \<open>CheckEvents\<close> decides linearizability of a sequence of events in which every identifier has one
  call and, later, one return: for a model without its own partitioning or equality whose \<open>Step\<close> does
  not panic it returns, and its answer is exact. Identifiers need not be consecutive: \<open>renumber\<close> maps
  them injectively onto an initial segment, which is what the bit set of the search needs.\<close>

theorem CheckEvents_decides:
  assumes "valid_events ev" "PartitionEvent m = None" "Equal m = None"
    "\<And>s i. i \<in> ev_ids ev \<Longrightarrow> Step m s (ev_value CallEvent i ev) (ev_value ReturnEvent i ev) \<noteq> None"
  shows "CheckEvents m ev [Result 0] = Some (Returned (linearizable_events m ev))"
proof -
  obtain f where f: "renumber ev = map (reid f) ev" "inj_on f (ev_ids ev)" "f ` ev_ids ev = {..<card (ev_ids ev)}"
    by (rule renumber_ok)
  let ?es = "map (ev_entry f) ev" and ?n = "card (ev_ids ev)"
  have es: "convertEntries (renumber ev) = ?es" by (simp add: f(1) convert_reid)
  have k: "callEntry = entry_kind CallEvent" "returnEntry = entry_kind ReturnEvent" by (simp_all add: entry_kind_def)
  have "Step m s (vin (view_of ?n ?es) i) (vout (view_of ?n ?es) i) \<noteq> None" if "i < ?n" for s i
  proof -
    have "i \<in> f ` ev_ids ev" unfolding f(3) using that by simp
    then obtain j where j: "j \<in> ev_ids ev" "i = f j" by (rule imageE)
    show ?thesis unfolding j(2) view_of_simps k ev_views(2) [OF f(2) j(1)] by (rule assms(4) [OF j(1)])
  qed
  then have st: "steps_defined (fillDefault m) (view_of ?n ?es)" by (simp add: steps_defined_def)
  have lin: "view_lin (fillDefault m) (view_of ?n ?es) \<longleftrightarrow> linearizable_events m ev"
    using view_lin_events [OF assms(1) f(2,3), of m] by (simp add: view_lin_def vstep_def [abs_def])
  obtain lst r where c: "makeLinkedEntries ?es = Some lst" "checkSingle (fillDefault m) lst (\<lambda>_. False) = Some (Returned r)"
    "r \<longrightarrow> linearizable_events m ev" "(\<forall>i. \<not> (\<lambda>_. False) (i :: nat)) \<longrightarrow> linearizable_events m ev \<longrightarrow> r"
    by (rule checkSingle_correct [OF wf_events [OF assms(1) f(2,3)] eq_ok_fill(1) [OF assms(3)] st, unfolded lin])
  have "r = linearizable_events m ev" using c(3,4) by blast
  then have "\<exists>results. launch (fillDefault m) [?es] = Some results \<and> results 0 = Some (Returned (linearizable_events m ev))"
    using c(1,2) by (simp add: launch_def)
  then obtain results where r: "launch (fillDefault m) [?es] = Some results"
    "results 0 = Some (Returned (linearizable_events m ev))" by blast
  have "Option.bind (PartitionEvent (fillDefault m)) (\<lambda>p. p ev) = Some [ev]"
    using assms(2) by (simp add: fillDefault_def Let_def NoPartitionEvent_def)
  then show ?thesis using r by (simp add: CheckEvents_def CheckEventsTimeout_def Let_def es)
qed

text \<open>A write and a read that overlap, with identifiers 7 and 3.\<close>

definition wit_events :: "kv_value Event list" where
  "wit_events =
     [\<lparr>EKind = CallEvent, EValue = Some (InV \<lparr>Op = 1, Key = ''a'', Value = ''x''\<rparr>), EId = 7\<rparr>,
      \<lparr>EKind = CallEvent, EValue = Some (InV \<lparr>Op = 0, Key = ''a'', Value = []\<rparr>), EId = 3\<rparr>,
      \<lparr>EKind = ReturnEvent, EValue = Some (OutV \<lparr>OutValue = []\<rparr>), EId = 7\<rparr>,
      \<lparr>EKind = ReturnEvent, EValue = Some (OutV \<lparr>OutValue = []\<rparr>), EId = 3\<rparr>]"

lemma wit_events_ids: "ev_ids wit_events = {7, 3}"
  by (auto simp: ev_ids_def wit_events_def)

lemma wit_events_valid: "valid_events wit_events"
  unfolding valid_events_def wit_events_ids
proof (intro ballI)
  fix i :: nat assume "i \<in> {7, 3}"
  then consider "i = 7" | "i = 3" by auto
  then show "\<exists>pre c mid r post. wit_events = pre @ c # mid @ r # post \<and> is_event CallEvent i c \<and>
      is_event ReturnEvent i r \<and> i \<notin> ev_ids (pre @ mid @ post)"
  proof cases
    case 1
    show ?thesis
      by (rule exI [of _ "[]"], rule exI [of _ "wit_events ! 0"], rule exI [of _ "[wit_events ! 1]"],
        rule exI [of _ "wit_events ! 2"], rule exI [of _ "[wit_events ! 3]"])
        (simp add: wit_events_def is_event_def ev_ids_def 1)
  next
    case 2
    show ?thesis
      by (rule exI [of _ "[wit_events ! 0]"], rule exI [of _ "wit_events ! 1"], rule exI [of _ "[wit_events ! 2]"],
        rule exI [of _ "wit_events ! 3"], rule exI [of _ "[]"])
        (simp add: wit_events_def is_event_def ev_ids_def 2)
  qed
qed

lemma wit_events_lin: "linearizable_events wit_reg wit_events"
  unfolding linearizable_events_def wit_events_ids
  by (intro exI [of _ "[3, 7]"])
    (auto simp: linearization_def ev_prec_def ev_pos_def ev_step_def ev_value_def wit_events_def is_event_def wit_reg_def
      KvModel_def kv_Step_def)

theorem CheckEvents_decides_witness: "CheckEvents wit_reg wit_events [Result 0] = Some (Returned True)"
proof -
  have "Step wit_reg s (ev_value CallEvent i wit_events) (ev_value ReturnEvent i wit_events) \<noteq> None"
    if "i \<in> ev_ids wit_events" for s i
    using that unfolding wit_events_ids
    by (auto simp: ev_value_def wit_events_def is_event_def wit_reg_def KvModel_def kv_Step_def)
  then show ?thesis
    using CheckEvents_decides [OF wit_events_valid, of wit_reg] wit_events_lin by (simp add: wit_reg_def KvModel_def)
qed

end
