(* ===== verification/MapReduce.thy ===== *)
theory MapReduce
  imports Prelude "HOL-Library.AList" "HOL-Library.List_Lexorder" "HOL-Library.Char_ord"
begin

text \<open>
  The MapReduce library of lab 4 (\<open>lab4-mapreduce/src/mapreduce\<close>): file names (\<open>common.go\<close>), the map
  task (\<open>common_map.go\<close>), the reduce task (\<open>common_reduce.go\<close>), the merge and the clean-up
  (\<open>master_splitmerge.go\<close>), and the sequential master (\<open>master.go\<close>). The file system is a map from names
  to contents. A task that does not complete, because the process panics or calls \<open>log.Fatal\<close>, is
  \<open>None\<close>.
\<close>

unbundle bit_operations_syntax

subsection \<open>Names and records\<close>

datatype jobPhase = mapPhase | reducePhase

record KeyValue =
  MKey :: string
  MValue :: string

text \<open>\<open>strconv.Itoa\<close> on a non-negative number is \<^const>\<open>dec_digits\<close>.\<close>

definition reduceName :: "string \<Rightarrow> nat \<Rightarrow> nat \<Rightarrow> string" where
  "reduceName jobName mapTask reduceTask =
     ''mrtmp.'' @ jobName @ ''-'' @ dec_digits mapTask @ ''-'' @ dec_digits reduceTask"

definition mergeName :: "string \<Rightarrow> nat \<Rightarrow> string" where
  "mergeName jobName reduceTask = ''mrtmp.'' @ jobName @ ''-res-'' @ dec_digits reduceTask"

definition resultName :: "string \<Rightarrow> string" where
  "resultName jobName = ''mrtmp.'' @ jobName"

type_synonym files = "string \<rightharpoonup> string"

text \<open>
  The environment of the tasks: one record of \<open>encoding/json\<close> in each direction (the decoder returns
  the record and the rest of the stream), and the files the process may create or append to.
\<close>

record mr_env =
  encode_kv :: "KeyValue \<Rightarrow> string"
  decode_kv :: "string \<Rightarrow> (KeyValue \<times> string) option"
  writable :: "string \<Rightarrow> bool"

definition json_ok :: "mr_env \<Rightarrow> bool" where
  "json_ok E \<longleftrightarrow> decode_kv E [] = None \<and> (\<forall>kv rest. decode_kv E (encode_kv E kv @ rest) = Some (kv, rest))"

text \<open>Records are read until the decoder reports an error or the end of the file.\<close>

partial_function (option) decode_all :: "(string \<Rightarrow> (KeyValue \<times> string) option) \<Rightarrow> string \<Rightarrow> KeyValue list option" where
  "decode_all dec s =
     (case dec s of
        None \<Rightarrow> Some []
      | Some (kv, rest) \<Rightarrow> Option.bind (decode_all dec rest) (\<lambda>kvs. Some (kv # kvs)))"

subsection \<open>The map task\<close>

text \<open>\<open>ihash\<close> is 32-bit FNV-1a with the sign bit cleared.\<close>

definition fnv32a :: "string \<Rightarrow> u32" where
  "fnv32a s = foldl (\<lambda>h c. (h XOR of_nat (of_char c)) * 16777619) 2166136261 s"

definition ihash :: "string \<Rightarrow> nat" where
  "ihash s = unat (fnv32a s AND 0x7fffffff)"

definition contents :: "files \<Rightarrow> string \<Rightarrow> string" where
  "contents fs f = (case fs f of None \<Rightarrow> [] | Some c \<Rightarrow> c)"

text \<open>\<open>hash % nReduce\<close> panics when \<open>nReduce\<close> is zero; a file that cannot be opened loses the record.\<close>

fun write_kvs :: "mr_env \<Rightarrow> string \<Rightarrow> nat \<Rightarrow> nat \<Rightarrow> KeyValue list \<Rightarrow> files \<Rightarrow> files option" where
  "write_kvs E jobName mapTask nReduce [] fs = Some fs"
| "write_kvs E jobName mapTask nReduce (kv # kvs) fs =
     (if nReduce = 0 then None
      else let r = ihash (MKey kv) mod nReduce;
               fn = reduceName jobName mapTask r;
               fs = (if writable E fn then fs(fn \<mapsto> contents fs fn @ encode_kv E kv) else fs)
           in write_kvs E jobName mapTask nReduce kvs fs)"

definition doMap ::
  "mr_env \<Rightarrow> string \<Rightarrow> nat \<Rightarrow> string \<Rightarrow> nat \<Rightarrow> (string \<Rightarrow> string \<Rightarrow> KeyValue list) \<Rightarrow> files \<Rightarrow> files option" where
  "doMap E jobName mapTask inFile nReduce mapF fs =
     (let inputFile = contents fs inFile;
          res = mapF inFile inputFile
      in write_kvs E jobName mapTask nReduce res fs)"

subsection \<open>The reduce task\<close>

type_synonym 'v smap = "(string \<times> 'v) list"

definition add_value :: "string list smap \<Rightarrow> KeyValue \<Rightarrow> string list smap" where
  "add_value kvs kv =
     AList.update (MKey kv) ((case map_of kvs (MKey kv) of None \<Rightarrow> [] | Some vs \<Rightarrow> vs) @ [MValue kv]) kvs"

text \<open>A file that cannot be opened decodes as empty: \<open>Decode\<close> on a nil file fails at once.\<close>

fun gather :: "mr_env \<Rightarrow> files \<Rightarrow> string \<Rightarrow> nat \<Rightarrow> nat list \<Rightarrow> string list smap \<Rightarrow> string list smap option" where
  "gather E fs jobName reduceTask [] kvs = Some kvs"
| "gather E fs jobName reduceTask (m # ms) kvs = do {
     l \<leftarrow> (case fs (reduceName jobName m reduceTask) of None \<Rightarrow> Some [] | Some c \<Rightarrow> decode_all (decode_kv E) c);
     gather E fs jobName reduceTask ms (foldl add_value kvs l)
   }"

definition doReduce ::
  "mr_env \<Rightarrow> string \<Rightarrow> nat \<Rightarrow> string \<Rightarrow> nat \<Rightarrow> (string \<Rightarrow> string list \<Rightarrow> string) \<Rightarrow> files \<Rightarrow> files option" where
  "doReduce E jobName reduceTask outFile nMap reduceF fs = do {
     kvs \<leftarrow> gather E fs jobName reduceTask [0..<nMap] [];
     let keys = sort (map fst kvs);
     let out = concat (map (\<lambda>k. encode_kv E \<lparr>MKey = k, MValue = reduceF k (the (map_of kvs k))\<rparr>) keys);
     Some (if writable E outFile then fs(outFile \<mapsto> out) else fs)
   }"

subsection \<open>Merging and cleaning up\<close>

fun merge_read :: "mr_env \<Rightarrow> files \<Rightarrow> string \<Rightarrow> nat list \<Rightarrow> string smap \<Rightarrow> string smap option" where
  "merge_read E fs jobName [] kvs = Some kvs"
| "merge_read E fs jobName (i # is) kvs = do {
     c \<leftarrow> fs (mergeName jobName i);
     l \<leftarrow> decode_all (decode_kv E) c;
     merge_read E fs jobName is (foldl (\<lambda>m kv. AList.update (MKey kv) (MValue kv) m) kvs l)
   }"

definition line :: "string \<Rightarrow> string \<Rightarrow> string" where
  "line k v = k @ '': '' @ v @ [char_of (10 :: nat)]"

definition merge_results :: "mr_env \<Rightarrow> string \<Rightarrow> nat \<Rightarrow> files \<Rightarrow> files option" where
  "merge_results E jobName nReduce fs = do {
     kvs \<leftarrow> merge_read E fs jobName [0..<nReduce] [];
     let keys = sort (map fst kvs);
     if writable E (resultName jobName)
     then Some (fs(resultName jobName \<mapsto> concat (map (\<lambda>k. line k (the (map_of kvs k))) keys)))
     else None
   }"

definition removeFile :: "string \<Rightarrow> files \<Rightarrow> files option" where
  "removeFile n fs = (if fs n = None then None else Some (fs(n := None)))"

fun removeFiles :: "string list \<Rightarrow> files \<Rightarrow> files option" where
  "removeFiles [] fs = Some fs"
| "removeFiles (n # ns) fs = Option.bind (removeFile n fs) (removeFiles ns)"

definition CleanupFiles :: "string \<Rightarrow> nat \<Rightarrow> nat \<Rightarrow> files \<Rightarrow> files option" where
  "CleanupFiles jobName nFiles nReduce fs = do {
     fs \<leftarrow> removeFiles [reduceName jobName i j. i \<leftarrow> [0..<nFiles], j \<leftarrow> [0..<nReduce]] fs;
     fs \<leftarrow> removeFiles (map (mergeName jobName) [0..<nReduce]) fs;
     removeFile (resultName jobName) fs
   }"

subsection \<open>The master\<close>

record Master =
  address :: string
  workers :: "string list"
  jobName :: string
  mfiles :: "string list"
  nReduce :: nat
  stats :: "nat list"

definition newMaster :: "string \<Rightarrow> Master" where
  "newMaster master = \<lparr>address = master, workers = [], jobName = [], mfiles = [], nReduce = 0, stats = []\<rparr>"

text \<open>\<open>run\<close>: both phases, \<open>finish\<close>, the merge. The message on \<open>doneChannel\<close>, which \<open>Wait\<close> receives, is the
  result \<open>Some\<close>.\<close>

definition mr_run ::
  "mr_env \<Rightarrow> Master \<Rightarrow> string \<Rightarrow> string list \<Rightarrow> nat \<Rightarrow> (Master \<Rightarrow> jobPhase \<Rightarrow> files \<Rightarrow> files option) \<Rightarrow>
   (Master \<Rightarrow> Master) \<Rightarrow> files \<Rightarrow> (Master \<times> files) option" where
  "mr_run E mr job fls nreduce sched finish fs = do {
     let mr = mr\<lparr>jobName := job, mfiles := fls, nReduce := nreduce\<rparr>;
     fs \<leftarrow> sched mr mapPhase fs;
     fs \<leftarrow> sched mr reducePhase fs;
     let mr = finish mr;
     fs \<leftarrow> merge_results E (jobName mr) (nReduce mr) fs;
     Some (mr, fs)
   }"

fun map_tasks :: "mr_env \<Rightarrow> Master \<Rightarrow> (string \<Rightarrow> string \<Rightarrow> KeyValue list) \<Rightarrow> nat \<Rightarrow> string list \<Rightarrow> files \<Rightarrow> files option" where
  "map_tasks E mr mapF i [] fs = Some fs"
| "map_tasks E mr mapF i (f # rest) fs =
     Option.bind (doMap E (jobName mr) i f (nReduce mr) mapF fs) (map_tasks E mr mapF (Suc i) rest)"

fun reduce_tasks :: "mr_env \<Rightarrow> Master \<Rightarrow> (string \<Rightarrow> string list \<Rightarrow> string) \<Rightarrow> nat list \<Rightarrow> files \<Rightarrow> files option" where
  "reduce_tasks E mr reduceF [] fs = Some fs"
| "reduce_tasks E mr reduceF (i # is) fs =
     Option.bind (doReduce E (jobName mr) i (mergeName (jobName mr) i) (length (mfiles mr)) reduceF fs)
       (reduce_tasks E mr reduceF is)"

definition Sequential ::
  "mr_env \<Rightarrow> string \<Rightarrow> string list \<Rightarrow> nat \<Rightarrow> (string \<Rightarrow> string \<Rightarrow> KeyValue list) \<Rightarrow>
   (string \<Rightarrow> string list \<Rightarrow> string) \<Rightarrow> files \<Rightarrow> (Master \<times> files) option" where
  "Sequential E job fls nreduce mapF reduceF fs =
     mr_run E (newMaster ''master'') job fls nreduce
       (\<lambda>mr phase fs.
          case phase of
            mapPhase \<Rightarrow> map_tasks E mr mapF 0 (mfiles mr) fs
          | reducePhase \<Rightarrow> reduce_tasks E mr reduceF [0..<nReduce mr] fs)
       (\<lambda>mr. mr\<lparr>stats := [length fls + nreduce]\<rparr>) fs"

end
