(* ===== verification/MapReduceProps.thy ===== *)
theory MapReduceProps
  imports MapReduce
begin

text \<open>
  What a sequential MapReduce job computes: the intermediate files, the output of the reduce tasks,
  and the merged result as a function of the input.
\<close>

subsection \<open>Names are distinct\<close>

lemma digit_not: "c \<in> set (dec_digits n) \<Longrightarrow> c \<noteq> CHR ''-'' \<and> c \<noteq> CHR ''r''"
proof -
  assume "c \<in> set (dec_digits n)"
  then obtain d where "d < 10" "c = digit_char d" using set_dec_digits by blast
  then have "of_char c = 48 + d" "48 + d < (58 :: nat)" by (simp_all add: of_digit_char)
  moreover have "of_char (CHR ''-'') = (45 :: nat)" "of_char (CHR ''r'') = (114 :: nat)" by simp_all
  ultimately show ?thesis by auto
qed

lemma append_sep_inject:
  "c \<notin> set xs \<Longrightarrow> c \<notin> set xs' \<Longrightarrow> xs @ c # ys = xs' @ c # ys' \<longleftrightarrow> xs = xs' \<and> ys = ys'"
proof (induction xs arbitrary: xs')
  case Nil
  then show ?case by (cases xs') auto
next
  case (Cons x xs)
  then show ?case by (cases xs') auto
qed

lemma reduceName_inject [simp]: "reduceName j m r = reduceName j m' r' \<longleftrightarrow> m = m' \<and> r = r'"
proof -
  have "CHR ''-'' \<notin> set (dec_digits n)" for n using digit_not by blast
  from append_sep_inject [OF this [of m] this [of m'], of "dec_digits r" "dec_digits r'"]
  show ?thesis by (simp add: reduceName_def)
qed

lemma mergeName_inject [simp]: "mergeName j r = mergeName j r' \<longleftrightarrow> r = r'"
  by (simp add: mergeName_def)

lemma reduce_merge_name [simp]: "reduceName j m r \<noteq> mergeName j r'" "mergeName j r' \<noteq> reduceName j m r"
proof -
  obtain c cs where c: "dec_digits m = c # cs" by (cases "dec_digits m") (auto simp: dec_digits.simps split: if_splits)
  then have "c \<noteq> CHR ''r''" using digit_not [of c m] by simp
  then show "reduceName j m r \<noteq> mergeName j r'" "mergeName j r' \<noteq> reduceName j m r"
    by (auto simp: reduceName_def mergeName_def c)
qed

lemma result_name [simp]:
  "reduceName j m r \<noteq> resultName j" "mergeName j r \<noteq> resultName j" "resultName j \<noteq> reduceName j m r" "resultName j \<noteq> mergeName j r"
  by (auto simp: reduceName_def mergeName_def resultName_def)

subsection \<open>Reading back what was written\<close>

definition stream :: "mr_env \<Rightarrow> KeyValue list \<Rightarrow> string" where
  "stream E kvs = concat (map (encode_kv E) kvs)"

lemma stream_simps [simp]: "stream E [] = []" "stream E (kv # kvs) = encode_kv E kv @ stream E kvs"
  "stream E (xs @ ys) = stream E xs @ stream E ys"
  by (simp_all add: stream_def)

lemma decode_all_stream: "json_ok E \<Longrightarrow> decode_all (decode_kv E) (stream E kvs) = Some kvs"
proof (induction kvs)
  case Nil
  then show ?case by (subst decode_all.simps) (simp add: json_ok_def)
next
  case (Cons kv kvs)
  then show ?case by (subst decode_all.simps) (simp add: json_ok_def)
qed

lemma gather_contents:
  assumes "json_ok E"
  shows "(case fs f of None \<Rightarrow> Some [] | Some c \<Rightarrow> decode_all (decode_kv E) c) = decode_all (decode_kv E) (contents fs f)"
  using decode_all_stream [OF assms, of "[]"] by (simp add: contents_def split: option.splits)

subsection \<open>The map phase\<close>

definition part :: "nat \<Rightarrow> nat \<Rightarrow> KeyValue list \<Rightarrow> KeyValue list" where
  "part n r kvs = filter (\<lambda>kv. ihash (MKey kv) mod n = r) kvs"

lemma part_simps [simp]: "part n r [] = []" "part n r (xs @ ys) = part n r xs @ part n r ys"
  by (simp_all add: part_def)

lemma contents_upd: "contents (fs(f \<mapsto> c)) g = (if g = f then c else contents fs g)"
  by (simp add: contents_def)

lemma write_kvs_ok:
  assumes "\<And>f. writable E f" "0 < n"
  shows "\<exists>fs'. write_kvs E job t n kvs fs = Some fs' \<and>
    (\<forall>r. contents fs' (reduceName job t r) = contents fs (reduceName job t r) @ stream E (part n r kvs)) \<and>
    (\<forall>f. (\<forall>r. f \<noteq> reduceName job t r) \<longrightarrow> fs' f = fs f)"
proof (induction kvs arbitrary: fs)
  case (Cons kv kvs)
  let ?f = "reduceName job t (ihash (MKey kv) mod n)"
  obtain fs' where fs': "write_kvs E job t n kvs (fs(?f \<mapsto> contents fs ?f @ encode_kv E kv)) = Some fs'"
    "\<And>r. contents fs' (reduceName job t r) =
       contents (fs(?f \<mapsto> contents fs ?f @ encode_kv E kv)) (reduceName job t r) @ stream E (part n r kvs)"
    "\<And>f. \<forall>r. f \<noteq> reduceName job t r \<Longrightarrow> fs' f = (fs(?f \<mapsto> contents fs ?f @ encode_kv E kv)) f"
    using Cons.IH by blast
  have "contents fs' (reduceName job t r) = contents fs (reduceName job t r) @ stream E (part n r (kv # kvs))" for r
    unfolding fs'(2) by (auto simp: contents_upd part_def)
  moreover have "write_kvs E job t n (kv # kvs) fs = Some fs'" using fs'(1) assms by (simp add: Let_def)
  ultimately show ?case using fs'(3) by auto
qed simp

definition pairs_of :: "(string \<Rightarrow> string \<Rightarrow> KeyValue list) \<Rightarrow> files \<Rightarrow> string list \<Rightarrow> KeyValue list" where
  "pairs_of mapF fs fls = concat (map (\<lambda>f. mapF f (contents fs f)) fls)"

lemma map_tasks_ok:
  assumes E: "\<And>f. writable E f" "0 < nReduce mr"
    and "\<And>f m r. f \<in> set fls \<Longrightarrow> f \<noteq> reduceName (jobName mr) m r"
  shows "\<exists>fs'. map_tasks E mr mapF i fls fs = Some fs' \<and>
    (\<forall>m<length fls. \<forall>r. contents fs' (reduceName (jobName mr) (i + m) r) =
       contents fs (reduceName (jobName mr) (i + m) r) @ stream E (part (nReduce mr) r (mapF (fls ! m) (contents fs (fls ! m))))) \<and>
    (\<forall>m<i. \<forall>r. contents fs' (reduceName (jobName mr) m r) = contents fs (reduceName (jobName mr) m r)) \<and>
    (\<forall>f. (\<forall>m r. f \<noteq> reduceName (jobName mr) m r) \<longrightarrow> fs' f = fs f)"
  using assms(3)
proof (induction fls arbitrary: i fs)
  case (Cons g fls)
  let ?N = "reduceName (jobName mr)"
  obtain fs1 where 1: "doMap E (jobName mr) i g (nReduce mr) mapF fs = Some fs1"
    "\<And>r. contents fs1 (?N i r) = contents fs (?N i r) @ stream E (part (nReduce mr) r (mapF g (contents fs g)))"
    "\<And>f. \<forall>r. f \<noteq> ?N i r \<Longrightarrow> fs1 f = fs f"
    using write_kvs_ok [OF E, of "jobName mr" i "mapF g (contents fs g)" fs] by (auto simp: doMap_def)
  obtain fs' where 2: "map_tasks E mr mapF (Suc i) fls fs1 = Some fs'"
    "\<And>m r. m < length fls \<Longrightarrow> contents fs' (?N (Suc i + m) r) =
       contents fs1 (?N (Suc i + m) r) @ stream E (part (nReduce mr) r (mapF (fls ! m) (contents fs1 (fls ! m))))"
    "\<And>m r. m < Suc i \<Longrightarrow> contents fs' (?N m r) = contents fs1 (?N m r)"
    "\<And>f. \<forall>m r. f \<noteq> ?N m r \<Longrightarrow> fs' f = fs1 f"
    using Cons.IH [of "Suc i" fs1] Cons.prems by auto
  have other: "contents fs1 (?N m r) = contents fs (?N m r)" if "m \<noteq> i" for m r
    using 1(3) [of "?N m r"] that by (simp add: contents_def)
  have input: "contents fs1 (fls ! m) = contents fs (fls ! m)" if "m < length fls" for m
    using 1(3) [of "fls ! m"] Cons.prems that by (simp add: contents_def)
  have "contents fs' (?N (i + m) r) = contents fs (?N (i + m) r) @
      stream E (part (nReduce mr) r (mapF ((g # fls) ! m) (contents fs ((g # fls) ! m))))" if "m < length (g # fls)" for m r
  proof (cases m)
    case 0
    then show ?thesis using 1(2) 2(3) [of i] by simp
  next
    case (Suc k)
    then show ?thesis using 2(2) [of k r] that other [of "Suc (i + k)" r] input [of k] by simp
  qed
  moreover have "contents fs' (?N m r) = contents fs (?N m r)" if "m < i" for m r using 2(3) [of m r] other [of m r] that by simp
  moreover have "fs' f = fs f" if "\<forall>m r. f \<noteq> ?N m r" for f using 2(4) [OF that] 1(3) [of f] that by simp
  ultimately show ?case using 1(1) 2(1) by auto
qed simp

subsection \<open>Grouping\<close>

definition values_of :: "KeyValue list \<Rightarrow> string \<Rightarrow> string list" where
  "values_of kvs k = map MValue (filter (\<lambda>kv. MKey kv = k) kvs)"

definition keys_of :: "KeyValue list \<Rightarrow> string list" where
  "keys_of kvs = sorted_list_of_set (MKey ` set kvs)"

lemma foldl_add_value:
  "map_of (foldl add_value m l) k =
     (case map_of m k of
        None \<Rightarrow> if values_of l k = [] then None else Some (values_of l k)
      | Some vs \<Rightarrow> Some (vs @ values_of l k))"
proof (induction l arbitrary: m)
  case Nil
  then show ?case by (simp add: values_of_def split: option.splits)
next
  case (Cons kv l)
  show ?case unfolding foldl_Cons Cons.IH
    by (cases "map_of m (MKey kv)") (auto simp: add_value_def update_conv' values_of_def split: option.splits)
qed

lemma foldl_distinct:
  "distinct (map fst m) \<Longrightarrow> distinct (map fst (foldl add_value m l))"
  "distinct (map fst m') \<Longrightarrow> distinct (map fst (foldl (\<lambda>m kv. AList.update (MKey kv) (MValue kv) m) m' l))"
  by (induction l arbitrary: m m') (auto simp: add_value_def distinct_update)

lemma sort_keys:
  assumes "distinct (map fst m)"
  shows "sort (map fst m) = sorted_list_of_set (dom (map_of m))"
  using sorted_list_of_set_sort_remdups [of "map fst m"] assms
  by (simp add: dom_map_of_conv_image_fst distinct_remdups_id)

lemma values_of_empty: "values_of l k = [] \<longleftrightarrow> k \<notin> MKey ` set l"
  by (auto simp: values_of_def filter_empty_conv)

lemma gather_ok:
  assumes "json_ok E" "\<And>m. m \<in> set ms \<Longrightarrow> contents fs (reduceName job m r) = stream E (L m)"
  shows "gather E fs job r ms kvs = Some (foldl add_value kvs (concat (map L ms)))"
  using assms(2)
proof (induction ms arbitrary: kvs)
  case (Cons m ms)
  have "decode_all (decode_kv E) (contents fs (reduceName job m r)) = Some (L m)"
    using decode_all_stream [OF assms(1)] Cons.prems by simp
  then show ?case using Cons by (simp add: gather_contents [OF assms(1)])
qed simp

text \<open>The records a reduce task writes.\<close>

definition reduced :: "(string \<Rightarrow> string list \<Rightarrow> string) \<Rightarrow> KeyValue list \<Rightarrow> KeyValue list" where
  "reduced reduceF kvs = map (\<lambda>k. \<lparr>MKey = k, MValue = reduceF k (values_of kvs k)\<rparr>) (keys_of kvs)"

lemma keys_of_set [simp]: "set (keys_of kvs) = MKey ` set kvs" "distinct (keys_of kvs)" "sorted (keys_of kvs)"
  by (simp_all add: keys_of_def)

lemma doReduce_ok:
  assumes "json_ok E" "\<And>f. writable E f"
    "\<And>m. m < nMap \<Longrightarrow> contents fs (reduceName job m r) = stream E (L m)"
  shows "doReduce E job r out nMap reduceF fs =
    Some (fs(out \<mapsto> stream E (reduced reduceF (concat (map L [0..<nMap])))))"
proof -
  let ?l = "concat (map L [0..<nMap])" and ?kvs = "foldl add_value [] (concat (map L [0..<nMap]))"
  have g: "gather E fs job r [0..<nMap] [] = Some ?kvs" using assms by (intro gather_ok) auto
  have m: "map_of ?kvs k = (if values_of ?l k = [] then None else Some (values_of ?l k))" for k
    by (simp add: foldl_add_value)
  have "sort (map fst ?kvs) = keys_of ?l"
    by (simp add: sort_keys foldl_distinct keys_of_def dom_def m values_of_empty)
  moreover have "the (map_of ?kvs k) = values_of ?l k" if "k \<in> set (keys_of ?l)" for k
    using that m [of k] values_of_empty [of ?l k] by (simp only: keys_of_set) simp
  then have "map (\<lambda>k. encode_kv E \<lparr>MKey = k, MValue = reduceF k (the (map_of ?kvs k))\<rparr>) (keys_of ?l) =
      map (encode_kv E) (reduced reduceF ?l)" by (simp add: reduced_def)
  ultimately show ?thesis using g assms(2) by (simp add: doReduce_def stream_def)
qed

lemma values_part: "k \<in> MKey ` set (part n r l) \<Longrightarrow> values_of (part n r l) k = values_of l k"
  by (auto simp: values_of_def part_def intro!: arg_cong [of _ _ "map MValue"] filter_cong)

lemma part_concat: "part n r (concat ls) = concat (map (part n r) ls)"
  by (induction ls) auto

lemma reduce_tasks_ok:
  assumes "json_ok E" "\<And>f. writable E f" "set is \<subseteq> {..<nReduce mr}"
    "\<And>m r. m < length (mfiles mr) \<Longrightarrow> r < nReduce mr \<Longrightarrow> contents fs (reduceName (jobName mr) m r) = stream E (L m r)"
  shows "\<exists>fs'. reduce_tasks E mr reduceF is fs = Some fs' \<and>
    (\<forall>r\<in>set is. fs' (mergeName (jobName mr) r) =
       Some (stream E (reduced reduceF (concat (map (\<lambda>m. L m r) [0..<length (mfiles mr)]))))) \<and>
    (\<forall>f. f \<notin> mergeName (jobName mr) ` set is \<longrightarrow> fs' f = fs f)"
  using assms(3,4)
proof (induction "is" arbitrary: fs)
  case (Cons i "is")
  let ?out = "stream E (reduced reduceF (concat (map (\<lambda>m. L m i) [0..<length (mfiles mr)])))"
  let ?fs = "fs(mergeName (jobName mr) i \<mapsto> ?out)"
  have i: "i < nReduce mr" using Cons.prems(1) by simp
  have 1: "doReduce E (jobName mr) i (mergeName (jobName mr) i) (length (mfiles mr)) reduceF fs = Some ?fs"
    using Cons.prems(2) [OF _ i] by (intro doReduce_ok [OF assms(1,2)]) simp
  have "contents ?fs (reduceName (jobName mr) m r) = stream E (L m r)" if "m < length (mfiles mr)" "r < nReduce mr" for m r
    using Cons.prems(2) [OF that] by (simp add: contents_upd)
  moreover have "set is \<subseteq> {..<nReduce mr}" using Cons.prems(1) by simp
  ultimately obtain fs' where 2: "reduce_tasks E mr reduceF is ?fs = Some fs'"
    "\<forall>r\<in>set is. fs' (mergeName (jobName mr) r) =
       Some (stream E (reduced reduceF (concat (map (\<lambda>m. L m r) [0..<length (mfiles mr)]))))"
    "\<forall>f. f \<notin> mergeName (jobName mr) ` set is \<longrightarrow> fs' f = ?fs f"
    using Cons.IH [of ?fs] by blast
  have "fs' (mergeName (jobName mr) i) = Some ?out"
  proof (cases "i \<in> set is")
    case False
    then have "mergeName (jobName mr) i \<notin> mergeName (jobName mr) ` set is" by auto
    from 2(3) [rule_format, OF this] show ?thesis by simp
  qed (use 2(2) in blast)
  then show ?case using 1 2 by auto
qed simp

subsection \<open>The merged result\<close>

lemma foldl_update:
  assumes "\<And>kv. kv \<in> set l \<Longrightarrow> MValue kv = g (MKey kv)"
  shows "map_of (foldl (\<lambda>m kv. AList.update (MKey kv) (MValue kv) m) m l) k =
    (if k \<in> MKey ` set l then Some (g k) else map_of m k)"
  using assms
proof (induction l arbitrary: m)
  case (Cons kv l)
  then show ?case by (auto simp: update_conv')
qed simp

lemma merge_read_ok:
  assumes "json_ok E" "\<And>r. r \<in> set is \<Longrightarrow> fs (mergeName job r) = Some (stream E (R r))"
  shows "merge_read E fs job is kvs =
    Some (foldl (\<lambda>m kv. AList.update (MKey kv) (MValue kv) m) kvs (concat (map R is)))"
  using assms(2)
  by (induction "is" arbitrary: kvs) (auto simp: decode_all_stream [OF assms(1)])

lemma merge_results_ok:
  assumes "json_ok E" "\<And>f. writable E f" "\<And>r. r < n \<Longrightarrow> fs (mergeName job r) = Some (stream E (R r))"
    "\<And>r kv. r < n \<Longrightarrow> kv \<in> set (R r) \<Longrightarrow> MValue kv = g (MKey kv)"
  shows "merge_results E job n fs =
    Some (fs(resultName job \<mapsto> concat (map (\<lambda>k. line k (g k)) (sorted_list_of_set (\<Union>r<n. MKey ` set (R r))))))"
proof -
  let ?l = "concat (map R [0..<n])"
  let ?kvs = "foldl (\<lambda>m kv. AList.update (MKey kv) (MValue kv) m) [] ?l"
  have r: "merge_read E fs job [0..<n] [] = Some ?kvs" using assms by (intro merge_read_ok) auto
  have K: "MKey ` set ?l = (\<Union>r<n. MKey ` set (R r))" by (auto simp: image_UN)
  have "MValue kv = g (MKey kv)" if "kv \<in> set ?l" for kv using that assms(4) by auto
  from foldl_update [of ?l g, OF this, of "[]"] have m: "map_of ?kvs k = (if k \<in> (\<Union>r<n. MKey ` set (R r)) then Some (g k) else None)" for k
    unfolding K by simp
  have "dom (map_of ?kvs) = (\<Union>r<n. MKey ` set (R r))" unfolding dom_def m by auto
  then have keys: "sort (map fst ?kvs) = sorted_list_of_set (\<Union>r<n. MKey ` set (R r))"
    using sort_keys [of ?kvs] foldl_distinct(2) [of "[]" ?l] by simp
  have vals: "map (\<lambda>k. line k (the (map_of ?kvs k))) (sorted_list_of_set (\<Union>r<n. MKey ` set (R r))) =
      map (\<lambda>k. line k (g k)) (sorted_list_of_set (\<Union>r<n. MKey ` set (R r)))"
    by (intro map_cong refl) (simp add: m)
  show ?thesis by (simp add: merge_results_def r assms(2) keys vals del: map_eq_conv)
qed

text \<open>The job as a function of its input: one line per distinct key, in byte order, with the reduce
  function applied to all values of the key in the order the map tasks emitted them.\<close>

definition job_output :: "(string \<Rightarrow> string list \<Rightarrow> string) \<Rightarrow> KeyValue list \<Rightarrow> string" where
  "job_output reduceF kvs = concat (map (\<lambda>k. line k (reduceF k (values_of kvs k))) (keys_of kvs))"

definition clean_start :: "files \<Rightarrow> string \<Rightarrow> string list \<Rightarrow> bool" where
  "clean_start fs job fls \<longleftrightarrow>
     (\<forall>m r. fs (reduceName job m r) = None) \<and> (\<forall>f\<in>set fls. \<forall>m r. f \<noteq> reduceName job m r)"

lemma Sequential_ok:
  assumes E: "json_ok E" "\<And>f. writable E f" and n: "0 < n" and c: "clean_start fs job fls"
  obtains mr fs' where "Sequential E job fls n mapF reduceF fs = Some (mr, fs')"
    "fs' (resultName job) = Some (job_output reduceF (pairs_of mapF fs fls))"
    "stats mr = [length fls + n]"
    "\<And>f. f \<noteq> resultName job \<Longrightarrow> \<forall>m r. f \<noteq> reduceName job m r \<Longrightarrow> \<forall>r. f \<noteq> mergeName job r \<Longrightarrow> fs' f = fs f"
proof -
  define mr where "mr = (newMaster ''master'')\<lparr>jobName := job, mfiles := fls, nReduce := n\<rparr>"
  have mr: "jobName mr = job" "mfiles mr = fls" "nReduce mr = n" by (simp_all add: mr_def)
  define kvs where "kvs = pairs_of mapF fs fls"
  define L where "L m r = part n r (mapF (fls ! m) (contents fs (fls ! m)))" for m r
  have names: "f \<noteq> reduceName (jobName mr) m r" if "f \<in> set fls" for f m r using c that by (simp add: clean_start_def mr)
  obtain fs1 where 1: "map_tasks E mr mapF 0 fls fs = Some fs1"
    "\<And>m r. m < length fls \<Longrightarrow> contents fs1 (reduceName job m r) = contents fs (reduceName job m r) @ stream E (L m r)"
    "\<And>f. \<forall>m r. f \<noteq> reduceName job m r \<Longrightarrow> fs1 f = fs f"
    using map_tasks_ok [where mapF = mapF and i = 0 and fs = fs and fls = fls, OF E(2) _ names] n unfolding mr L_def by auto
  have "contents fs (reduceName job m r) = []" for m r using c by (simp add: clean_start_def contents_def)
  then have c1: "contents fs1 (reduceName (jobName mr) m r) = stream E (L m r)" if "m < length (mfiles mr)" for m r
    using 1(2) that by (simp add: mr)
  have cat: "concat (map (\<lambda>m. L m r) [0..<length fls]) = part n r kvs" for r
  proof -
    have "map (\<lambda>m. L m r) [0..<length fls] = map (part n r) (map (\<lambda>f. mapF f (contents fs f)) fls)"
      by (rule nth_equalityI) (simp_all add: L_def)
    then show ?thesis unfolding kvs_def pairs_of_def part_concat by (simp only:)
  qed
  have sub: "set [0..<n] \<subseteq> {..<nReduce mr}" by (auto simp: mr)
  obtain fs2 where 2: "reduce_tasks E mr reduceF [0..<n] fs1 = Some fs2"
    "\<And>r. r < n \<Longrightarrow> fs2 (mergeName job r) = Some (stream E (reduced reduceF (part n r kvs)))"
    "\<And>f. f \<notin> mergeName job ` set [0..<n] \<Longrightarrow> fs2 f = fs1 f"
    using reduce_tasks_ok [where L = L and reduceF = reduceF, OF E sub c1] unfolding mr cat by auto
  let ?g = "\<lambda>k. reduceF k (values_of kvs k)"
  have K: "(\<Union>r<n. MKey ` set (reduced reduceF (part n r kvs))) = MKey ` set kvs"
  proof -
    have "MKey ` set (reduced reduceF l) = MKey ` set l" for l by (simp add: reduced_def image_image)
    moreover have "(\<Union>r<n. MKey ` set (part n r kvs)) = MKey ` set kvs"
      using n by (auto simp: part_def intro: mod_less_divisor)
    ultimately show ?thesis by simp
  qed
  have "MValue kv = ?g (MKey kv)" if "r < n" "kv \<in> set (reduced reduceF (part n r kvs))" for r kv
    using that(2) by (auto simp: reduced_def values_part)
  from merge_results_ok [where n = n and R = "\<lambda>r. reduced reduceF (part n r kvs)" and g = ?g, OF E 2(2) this]
  have 3: "merge_results E job n fs2 = Some (fs2(resultName job \<mapsto> job_output reduceF kvs))"
    unfolding K job_output_def keys_of_def by simp
  have "Sequential E job fls n mapF reduceF fs =
      Some (mr\<lparr>stats := [length fls + n]\<rparr>, fs2(resultName job \<mapsto> job_output reduceF kvs))"
    using 1(1) 2(1) 3
    unfolding Sequential_def mr_run_def mr_def [symmetric] Let_def
    by (simp add: mr)
  moreover have "(fs2(resultName job \<mapsto> job_output reduceF kvs)) f = fs f"
    if "f \<noteq> resultName job" "\<forall>m r. f \<noteq> reduceName job m r" "\<forall>r. f \<noteq> mergeName job r" for f
    using that 1(3) [of f] 2(3) [of f] by auto
  ultimately show ?thesis using that by (simp add: kvs_def)
qed

end
