(* ===== verification/MapReduceJson.thy ===== *)
theory MapReduceJson
  imports MapReduceProps
begin

text \<open>
  What \<open>encoding/json\<close> writes for a \<open>KeyValue\<close> and how it is read back, on strings of single-byte
  characters: \<open>\{"Key":"...","Value":"..."\}\<close> and a newline, with Go's escapes (including the HTML-safe
  ones for \<open><\<close>, \<open>>\<close> and \<open>&\<close>). It shows that the assumption \<^const>\<open>json_ok\<close> is met.
\<close>

definition hex_digit :: "nat \<Rightarrow> char" where
  "hex_digit d = char_of (if d < 10 then 48 + d else 87 + d)"

definition unhex :: "char \<Rightarrow> nat option" where
  "unhex c = (let n = of_char c in
     if 48 \<le> n \<and> n \<le> 57 then Some (n - 48) else if 97 \<le> n \<and> n \<le> 102 then Some (n - 87) else None)"

abbreviation (input) quo :: char where "quo \<equiv> CHR 0x22"
abbreviation (input) bsl :: char where "bsl \<equiv> CHR 0x5C"

definition esc :: "char \<Rightarrow> string" where
  "esc c =
     (if c = quo \<or> c = bsl then [bsl, c]
      else if c = CHR 0x0A then [bsl, CHR ''n'']
      else if c = CHR 0x0D then [bsl, CHR ''r'']
      else if c = CHR 0x09 then [bsl, CHR ''t'']
      else let n = of_char c in
        if n < 32 \<or> c = CHR ''<'' \<or> c = CHR ''>'' \<or> c = CHR ''&''
        then [bsl, CHR ''u'', CHR ''0'', CHR ''0'', hex_digit (n div 16), hex_digit (n mod 16)]
        else [c])"

definition push_char :: "char \<Rightarrow> (string \<times> string) option \<Rightarrow> (string \<times> string) option" where
  "push_char c r = map_option (\<lambda>(s, rest). (c # s, rest)) r"

text \<open>The rest of a string literal, up to the closing quote.\<close>

fun unquote :: "string \<Rightarrow> (string \<times> string) option" where
  "unquote [] = None"
| "unquote (c # cs) =
     (if c = quo then Some ([], cs)
      else if c = bsl then
        (case cs of
           d # ds \<Rightarrow>
             if d = quo \<or> d = bsl then push_char d (unquote ds)
             else if d = CHR ''n'' then push_char (CHR 0x0A) (unquote ds)
             else if d = CHR ''r'' then push_char (CHR 0x0D) (unquote ds)
             else if d = CHR ''t'' then push_char (CHR 0x09) (unquote ds)
             else if d = CHR ''u'' then
               (case ds of
                  z1 # z2 # a # b # es \<Rightarrow>
                    (case (z1 = CHR ''0'' \<and> z2 = CHR ''0'', unhex a, unhex b) of
                       (True, Some i, Some j) \<Rightarrow> push_char (char_of (16 * i + j)) (unquote es)
                     | _ \<Rightarrow> None)
                | _ \<Rightarrow> None)
             else None
         | [] \<Rightarrow> None)
      else push_char c (unquote cs))"

fun drop_prefix :: "string \<Rightarrow> string \<Rightarrow> string option" where
  "drop_prefix [] s = Some s"
| "drop_prefix (p # ps) [] = None"
| "drop_prefix (p # ps) (c # cs) = (if p = c then drop_prefix ps cs else None)"

definition key_open :: string where "key_open = [CHR ''{'', quo] @ ''Key'' @ [quo, CHR '':'', quo]"
definition value_open :: string where "value_open = [CHR '','', quo] @ ''Value'' @ [quo, CHR '':'', quo]"
definition record_close :: string where "record_close = [CHR ''}'', CHR 0x0A]"

definition go_encode :: "KeyValue \<Rightarrow> string" where
  "go_encode kv = key_open @ concat (map esc (MKey kv)) @ [quo] @ value_open @ concat (map esc (MValue kv)) @ [quo] @ record_close"

definition go_decode :: "string \<Rightarrow> (KeyValue \<times> string) option" where
  "go_decode s = do {
     s \<leftarrow> drop_prefix key_open s;
     (k, s) \<leftarrow> unquote s;
     s \<leftarrow> drop_prefix value_open s;
     (v, s) \<leftarrow> unquote s;
     s \<leftarrow> drop_prefix record_close s;
     Some (\<lparr>MKey = k, MValue = v\<rparr>, s)
   }"

definition go_env :: mr_env where
  "go_env = \<lparr>encode_kv = go_encode, decode_kv = go_decode, writable = \<lambda>_. True\<rparr>"

lemma unhex_digit: "d < 16 \<Longrightarrow> unhex (hex_digit d) = Some d"
  by (simp add: unhex_def hex_digit_def Let_def)

lemma unquote_esc: "unquote (esc c @ t) = push_char c (unquote t)"
proof -
  let ?n = "of_char c :: nat"
  have h: "unhex (hex_digit (?n mod 16)) = Some (?n mod 16)" by (rule unhex_digit) simp
  have "unhex (hex_digit (?n div 16)) = Some (?n div 16)" if "?n < 32 \<or> c = CHR ''<'' \<or> c = CHR ''>'' \<or> c = CHR ''&''"
    using that by (intro unhex_digit) auto
  moreover have "char_of (16 * (?n div 16) + ?n mod 16) = c" by simp
  ultimately show ?thesis using h by (auto simp: esc_def Let_def)
qed

lemma unquote_concat: "unquote (concat (map esc s) @ quo # t) = Some (s, t)"
proof (induction s)
  case (Cons c s)
  have "unquote (concat (map esc (c # s)) @ quo # t) = push_char c (unquote (concat (map esc s) @ quo # t))"
    using unquote_esc [of c "concat (map esc s) @ quo # t"] by simp
  then show ?case using Cons.IH by (simp add: push_char_def)
qed simp

lemma drop_prefix_append: "drop_prefix p (p @ s) = Some s"
  by (induction p) auto

lemma go_env_ok: "json_ok go_env"
proof -
  have "go_decode (go_encode kv @ rest) = Some (kv, rest)" for kv rest
    unfolding go_decode_def go_encode_def append_assoc
    by (simp add: drop_prefix_append unquote_concat)
  moreover have "go_decode [] = None" by (simp add: go_decode_def key_open_def)
  ultimately show ?thesis by (simp add: json_ok_def go_env_def)
qed

end
