(* ===== verification/WordCount.thy ===== *)
theory WordCount
  imports MapReduceJson
begin

text \<open>
  The two applications of lab 4, \<open>main/wc.go\<close> (word count) and \<open>main/ii.go\<close> (inverted index): their map
  and reduce functions and what a sequential job of each computes. Words are maximal runs of letters;
  \<open>unicode.IsLetter\<close> is the argument \<open>isLetter\<close>.
\<close>

subsection \<open>Library functions\<close>

text \<open>\<open>strings.FieldsFunc\<close>; the second argument is the field being read, reversed.\<close>

fun fields_from :: "(char \<Rightarrow> bool) \<Rightarrow> string \<Rightarrow> string \<Rightarrow> string list" where
  "fields_from f acc [] = (if acc = [] then [] else [rev acc])"
| "fields_from f acc (c # cs) =
     (if f c then (if acc = [] then fields_from f [] cs else rev acc # fields_from f [] cs)
      else fields_from f (c # acc) cs)"

definition FieldsFunc :: "string \<Rightarrow> (char \<Rightarrow> bool) \<Rightarrow> string list" where
  "FieldsFunc s f = fields_from f [] s"

definition is_digit :: "char \<Rightarrow> bool" where
  "is_digit c \<longleftrightarrow> 48 \<le> (of_char c :: nat) \<and> (of_char c :: nat) \<le> 57"

text \<open>\<open>strconv.Atoi\<close> on a 64-bit platform.\<close>

definition Atoi :: "string \<Rightarrow> int option" where
  "Atoi s =
     (let neg = (s \<noteq> [] \<and> hd s = CHR ''-'');
          ds = (if s \<noteq> [] \<and> (hd s = CHR ''-'' \<or> hd s = CHR ''+'') then tl s else s);
          n = undigits 0 ds
      in if ds = [] \<or> \<not> list_all is_digit ds then None
         else if neg then (if n \<le> 2 ^ 63 then Some (- int n) else None)
         else if n < 2 ^ 63 then Some (int n) else None)"

definition Itoa :: "i64 \<Rightarrow> string" where
  "Itoa i = (if sint i < 0 then CHR ''-'' # dec_digits (nat (- sint i)) else dec_digits (nat (sint i)))"

text \<open>\<open>strings.TrimRight(s, ",")\<close>.\<close>

definition trim_commas :: "string \<Rightarrow> string" where
  "trim_commas s = rev (dropWhile (\<lambda>c. c = CHR '','') (rev s))"

subsection \<open>Word count\<close>

definition wc_mapF :: "(char \<Rightarrow> bool) \<Rightarrow> string \<Rightarrow> string \<Rightarrow> KeyValue list" where
  "wc_mapF isLetter filename cont =
     map (\<lambda>w. \<lparr>MKey = w, MValue = ''1''\<rparr>) (FieldsFunc cont (\<lambda>c. \<not> isLetter c))"

definition wc_reduceF :: "string \<Rightarrow> string list \<Rightarrow> string" where
  "wc_reduceF key values =
     Itoa (foldl (\<lambda>res num. case Atoi num of None \<Rightarrow> res | Some n \<Rightarrow> res + of_int n) 0 values)"

definition wc_main :: "mr_env \<Rightarrow> (char \<Rightarrow> bool) \<Rightarrow> string list \<Rightarrow> files \<Rightarrow> (Master \<times> files) option" where
  "wc_main E isLetter fls fs = Sequential E ''wcseq'' fls 3 (wc_mapF isLetter) wc_reduceF fs"

subsection \<open>Inverted index\<close>

definition ii_mapF :: "(char \<Rightarrow> bool) \<Rightarrow> string \<Rightarrow> string \<Rightarrow> KeyValue list" where
  "ii_mapF isLetter document value =
     map (\<lambda>w. \<lparr>MKey = w, MValue = document\<rparr>) (FieldsFunc value (\<lambda>c. \<not> isLetter c))"

fun ii_scan :: "string list \<Rightarrow> nat \<Rightarrow> string \<Rightarrow> string list \<Rightarrow> nat \<times> string" where
  "ii_scan isExist n fileList [] = (n, fileList)"
| "ii_scan isExist n fileList (document # rest) =
     (if document \<notin> set isExist
      then ii_scan (document # isExist) (n + 1) (fileList @ document @ '','') rest
      else ii_scan isExist n fileList rest)"

definition ii_reduceF :: "string \<Rightarrow> string list \<Rightarrow> string" where
  "ii_reduceF key values =
     (case ii_scan [] 0 [] values of (n, fileList) \<Rightarrow> dec_digits n @ '' '' @ trim_commas fileList)"

definition ii_main :: "mr_env \<Rightarrow> (char \<Rightarrow> bool) \<Rightarrow> string list \<Rightarrow> files \<Rightarrow> (Master \<times> files) option" where
  "ii_main E isLetter fls fs = Sequential E ''iiseq'' fls 3 (ii_mapF isLetter) ii_reduceF fs"

subsection \<open>Words\<close>

lemma fields_from_letters:
  "list_all (\<lambda>c. \<not> f c) acc \<Longrightarrow> w \<in> set (fields_from f acc s) \<Longrightarrow> w \<noteq> [] \<and> list_all (\<lambda>c. \<not> f c) w"
proof (induction s arbitrary: acc w)
  case Nil
  then show ?case by (cases "acc = []") (auto simp: list_all_iff)
next
  case (Cons c s)
  show ?case
  proof (cases "f c")
    case True
    then consider "w = rev acc" "acc \<noteq> []" | "w \<in> set (fields_from f [] s)"
      using Cons.prems(2) by (cases "acc = []") auto
    then show ?thesis using Cons.IH [of "[]" w] Cons.prems(1) by cases (auto simp: list_all_iff)
  next
    case False
    then show ?thesis using Cons.IH [of "c # acc" w] Cons.prems by simp
  qed
qed

lemma fields_from_concat:
  "list_all (\<lambda>c. \<not> f c) acc \<Longrightarrow> concat (fields_from f acc s) = rev acc @ filter (\<lambda>c. \<not> f c) s"
  by (induction f acc s rule: fields_from.induct) (auto simp: list_all_iff)

definition all_words :: "(char \<Rightarrow> bool) \<Rightarrow> files \<Rightarrow> string list \<Rightarrow> string list" where
  "all_words isLetter fs fls = concat (map (\<lambda>f. FieldsFunc (contents fs f) (\<lambda>c. \<not> isLetter c)) fls)"

lemma wc_pairs:
  "pairs_of (wc_mapF isLetter) fs fls = map (\<lambda>w. \<lparr>MKey = w, MValue = ''1''\<rparr>) (all_words isLetter fs fls)"
  by (induction fls) (simp_all add: pairs_of_def wc_mapF_def all_words_def)

lemma wc_values:
  "values_of (map (\<lambda>w. \<lparr>MKey = w, MValue = ''1''\<rparr>) ws) k = replicate (count_list ws k) ''1''"
  by (induction ws) (auto simp: values_of_def)

lemma Atoi_1: "Atoi ''1'' = Some 1"
  by (simp add: Atoi_def is_digit_def Let_def)

lemma wc_sum: "foldl (\<lambda>res num. case Atoi num of None \<Rightarrow> res | Some n \<Rightarrow> res + of_int n) (a :: i64) (replicate n ''1'') = a + of_nat n"
  by (induction n arbitrary: a) (simp_all add: Atoi_1 algebra_simps)

lemma wc_reduce_count:
  assumes "n < 2 ^ 63"
  shows "wc_reduceF k (replicate n ''1'') = dec_digits n"
proof -
  have "unat (of_nat n :: i64) = n" using assms by (intro unat_of_nat64) simp
  then have "uint (of_nat n :: i64) = int n" by (simp add: uint_nat)
  then have "sint (of_nat n :: i64) = int n"
    using assms by (simp add: sint_uint signed_take_bit_int_eq_self_iff)
  then show ?thesis by (simp add: wc_reduceF_def wc_sum Itoa_def)
qed

subsection \<open>What the programs print\<close>


definition wit_wc_files :: files where
  "wit_wc_files = [''a.txt'' \<mapsto> ''to be'', ''b.txt'' \<mapsto> ''to do'']"

definition ascii_letter :: "char \<Rightarrow> bool" where
  "ascii_letter c \<longleftrightarrow> (65 \<le> (of_char c :: nat) \<and> (of_char c :: nat) \<le> 90) \<or> (97 \<le> (of_char c :: nat) \<and> (of_char c :: nat) \<le> 122)"

lemma wit_words: "all_words ascii_letter wit_wc_files [''a.txt'', ''b.txt''] = [''to'', ''be'', ''to'', ''do'']"
  by code_simp

lemma wit_wc_clean: "clean_start wit_wc_files job [''a.txt'', ''b.txt'']"
  by (simp add: clean_start_def wit_wc_files_def reduceName_def)


subsection \<open>The inverted index\<close>

fun first_seen :: "string list \<Rightarrow> string list \<Rightarrow> string list" where
  "first_seen seen [] = []"
| "first_seen seen (d # ds) = (if d \<in> set seen then first_seen seen ds else d # first_seen (d # seen) ds)"

lemma ii_scan_eq:
  "ii_scan seen n fileList ds =
     (n + length (first_seen seen ds), fileList @ concat (map (\<lambda>d. d @ '','') (first_seen seen ds)))"
  by (induction ds arbitrary: seen n fileList) auto

lemma first_seen_replicate:
  "first_seen seen (replicate n d @ ds) =
     (if n = 0 \<or> d \<in> set seen then first_seen seen ds else d # first_seen (d # seen) ds)"
  by (induction n arbitrary: seen) auto

lemma first_seen_files:
  assumes "distinct fls" "set fls \<inter> set seen = {}"
  shows "first_seen seen (concat (map (\<lambda>f. replicate (c f) f) fls)) = filter (\<lambda>f. c f \<noteq> 0) fls"
  using assms by (induction fls arbitrary: seen) (auto simp: first_seen_replicate)

definition words_of :: "(char \<Rightarrow> bool) \<Rightarrow> files \<Rightarrow> string \<Rightarrow> string list" where
  "words_of isLetter fs f = FieldsFunc (contents fs f) (\<lambda>c. \<not> isLetter c)"

lemma ii_values:
  "values_of (pairs_of (ii_mapF isLetter) fs fls) w =
     concat (map (\<lambda>f. replicate (count_list (words_of isLetter fs f) w) f) fls)"
proof -
  have "values_of (map (\<lambda>w. \<lparr>MKey = w, MValue = d\<rparr>) ws) w = replicate (count_list ws w) d" for d ws
    by (induction ws) (auto simp: values_of_def)
  moreover have "values_of (xs @ ys) w = values_of xs w @ values_of ys w" for xs ys by (simp add: values_of_def)
  moreover have "values_of [] w = []" by (simp add: values_of_def)
  ultimately show ?thesis by (induction fls) (simp_all add: pairs_of_def ii_mapF_def words_of_def)
qed

definition join_commas :: "string list \<Rightarrow> string" where
  "join_commas ds = (if ds = [] then [] else concat (map (\<lambda>d. d @ '','') (butlast ds)) @ last ds)"

lemma trim_join:
  assumes "\<forall>d\<in>set ds. d \<noteq> [] \<and> last d \<noteq> CHR '',''"
  shows "trim_commas (concat (map (\<lambda>d. d @ '','') ds)) = join_commas ds"
proof (cases ds rule: rev_cases)
  case (snoc ds' d)
  then obtain d' c where "d = d' @ [c]" "c \<noteq> CHR '',''" using assms by (cases d rule: rev_cases) auto
  then show ?thesis by (simp add: snoc trim_commas_def join_commas_def)
qed (simp add: trim_commas_def join_commas_def)



end
