(* ===== verification/MrSchedule.thy ===== *)
theory MrSchedule
  imports WordCount
begin

text \<open>
  The distributed side of MapReduce: \<open>schedule.go\<close>, the worker registry and shutdown of \<open>master.go\<close>, and
  \<open>worker.go\<close>. \<open>schedule\<close> starts one goroutine per task; their interleaving with the registration of
  workers and the outcome of the RPCs is a step relation.
\<close>

subsection \<open>Arguments of a task\<close>

record DoTaskArgs =
  JobName :: string
  File :: string
  Phase :: jobPhase
  TaskNumber :: nat
  NumOtherPhase :: nat

definition ntasks :: "string list \<Rightarrow> nat \<Rightarrow> jobPhase \<Rightarrow> nat" where
  "ntasks mapFiles nr phase = (case phase of mapPhase \<Rightarrow> length mapFiles | reducePhase \<Rightarrow> nr)"

definition n_other :: "string list \<Rightarrow> nat \<Rightarrow> jobPhase \<Rightarrow> nat" where
  "n_other mapFiles nr phase = (case phase of mapPhase \<Rightarrow> nr | reducePhase \<Rightarrow> length mapFiles)"

text \<open>The start of a task's goroutine; \<open>mapFiles[number]\<close> out of range is a panic.\<close>

definition task_args :: "string \<Rightarrow> string list \<Rightarrow> nat \<Rightarrow> jobPhase \<Rightarrow> nat \<Rightarrow> DoTaskArgs option" where
  "task_args job mapFiles nr phase number =
     (if number < length mapFiles
      then Some \<lparr>JobName = job, File = mapFiles ! number, Phase = phase, TaskNumber = number,
                 NumOtherPhase = n_other mapFiles nr phase\<rparr>
      else None)"

definition schedule_starts :: "string \<Rightarrow> string list \<Rightarrow> nat \<Rightarrow> jobPhase \<Rightarrow> bool" where
  "schedule_starts job mapFiles nr phase \<longleftrightarrow>
     list_all (\<lambda>i. task_args job mapFiles nr phase i \<noteq> None) [0..<ntasks mapFiles nr phase]"

subsection \<open>The scheduler as a step relation\<close>

text \<open>
  \<open>waiting\<close>: goroutines blocked on \<open>registerChan\<close>; \<open>running\<close>: an RPC in flight; \<open>completed\<close>: the successful
  calls in order; \<open>ready\<close>: workers offered on the channel; \<open>known\<close>: every worker that has registered.
\<close>

record sched =
  waiting :: "nat set"
  running :: "(nat \<times> string) set"
  completed :: "(nat \<times> string) list"
  ready :: "string set"
  known :: "string set"

definition sched_init :: "nat \<Rightarrow> sched" where
  "sched_init n = \<lparr>waiting = {..<n}, running = {}, completed = [], ready = {}, known = {}\<rparr>"

inductive sched_step :: "sched \<Rightarrow> sched \<Rightarrow> bool" where
  register: "w \<notin> known s \<Longrightarrow> sched_step s (s\<lparr>ready := insert w (ready s), known := insert w (known s)\<rparr>)"
| assign: "t \<in> waiting s \<Longrightarrow> w \<in> ready s \<Longrightarrow>
    sched_step s (s\<lparr>waiting := waiting s - {t}, ready := ready s - {w}, running := insert (t, w) (running s)\<rparr>)"
| succeed: "(t, w) \<in> running s \<Longrightarrow>
    sched_step s (s\<lparr>running := running s - {(t, w)}, completed := completed s @ [(t, w)], ready := insert w (ready s)\<rparr>)"
| fail: "(t, w) \<in> running s \<Longrightarrow>
    sched_step s (s\<lparr>running := running s - {(t, w)}, waiting := insert t (waiting s)\<rparr>)"

inductive_cases sched_stepE: "sched_step s s'"

inductive sched_reach :: "nat \<Rightarrow> sched \<Rightarrow> bool" for n where
  init: "sched_reach n (sched_init n)"
| step: "sched_reach n s \<Longrightarrow> sched_step s s' \<Longrightarrow> sched_reach n s'"

text \<open>\<open>wg.Wait()\<close> returns when every goroutine has called \<open>wg.Done()\<close>.\<close>

definition sched_done :: "nat \<Rightarrow> sched \<Rightarrow> bool" where
  "sched_done n s \<longleftrightarrow> length (completed s) = n"

text \<open>Every task is in exactly one of the three places; a worker has at most one task and is not offered
  while it has one.\<close>

definition tasks_ok :: "nat \<Rightarrow> nat set \<Rightarrow> nat set \<Rightarrow> nat list \<Rightarrow> bool" where
  "tasks_ok n W R C \<longleftrightarrow> W \<union> R \<union> set C = {..<n} \<and> W \<inter> R = {} \<and> W \<inter> set C = {} \<and> R \<inter> set C = {} \<and> distinct C"

definition sched_inv :: "nat \<Rightarrow> sched \<Rightarrow> bool" where
  "sched_inv n s \<longleftrightarrow>
     tasks_ok n (waiting s) (fst ` running s) (map fst (completed s)) \<and>
     inj_on fst (running s) \<and> inj_on snd (running s) \<and>
     ready s \<inter> snd ` running s = {} \<and> ready s \<union> snd ` running s \<subseteq> known s"

lemma tasks_ok_moves:
  assumes "tasks_ok n W R C"
  shows "t \<in> W \<Longrightarrow> tasks_ok n (W - {t}) (insert t R) C"
    and "t \<in> R \<Longrightarrow> tasks_ok n W (R - {t}) (C @ [t])"
    and "t \<in> R \<Longrightarrow> tasks_ok n (insert t W) (R - {t}) C"
  using assms unfolding tasks_ok_def by auto

lemma sched_inv_init: "sched_inv n (sched_init n)"
  by (simp add: sched_inv_def sched_init_def tasks_ok_def)

lemma take_running:
  assumes "inj_on f R" "x \<in> R"
  shows "f ` (R - {x}) = f ` R - {f x}"
  using inj_on_image_set_diff [of f R R "{x}"] assms by auto

lemma sched_inv_release:
  assumes "sched_inv n s" "(t, w) \<in> running s"
  shows "t \<in> fst ` running s" "fst ` (running s - {(t, w)}) = fst ` running s - {t}"
    "snd ` (running s - {(t, w)}) = snd ` running s - {w}" "w \<in> snd ` running s"
proof -
  have i: "inj_on fst (running s)" "inj_on snd (running s)" using assms(1) by (simp_all add: sched_inv_def)
  show "fst ` (running s - {(t, w)}) = fst ` running s - {t}" "snd ` (running s - {(t, w)}) = snd ` running s - {w}"
    using take_running [OF i(1) assms(2)] take_running [OF i(2) assms(2)] by simp_all
  show "t \<in> fst ` running s" "w \<in> snd ` running s" using imageI [OF assms(2), of fst] imageI [OF assms(2), of snd] by simp_all
qed

lemma sched_inv_assign:
  assumes i: "sched_inv n s" and t: "t \<in> waiting s" and w: "w \<in> ready s"
  shows "sched_inv n (s\<lparr>waiting := waiting s - {t}, ready := ready s - {w}, running := insert (t, w) (running s)\<rparr>)"
proof -
  have T: "tasks_ok n (waiting s) (fst ` running s) (map fst (completed s))" using i by (simp add: sched_inv_def)
  have "t \<notin> fst ` running s" using T t by (auto simp: tasks_ok_def)
  moreover have "w \<notin> snd ` running s" using i w by (auto simp: sched_inv_def)
  moreover have "w \<in> known s" using i w by (auto simp: sched_inv_def)
  ultimately show ?thesis using i tasks_ok_moves(1) [OF T t] by (auto simp: sched_inv_def inj_on_insert)
qed

lemma sched_inv_step:
  assumes i: "sched_inv n s" and st: "sched_step s s'"
  shows "sched_inv n s'"
proof -
  have T: "tasks_ok n (waiting s) (fst ` running s) (map fst (completed s))" using i by (simp add: sched_inv_def)
  from st show ?thesis
  proof (cases rule: sched_step.cases)
    case (register w)
    then show ?thesis using i by (auto simp: sched_inv_def)
  next
    case (assign t w)
    then show ?thesis using sched_inv_assign [OF i] by simp
  next
    case (succeed t w)
    note r = sched_inv_release [OF i succeed(2)]
    have "inj_on fst (running s - {(t, w)})" "inj_on snd (running s - {(t, w)})"
      using i by (simp_all add: sched_inv_def inj_on_diff)
    moreover have "insert w (ready s) \<inter> (snd ` running s - {w}) = {}" "insert w (ready s) \<union> (snd ` running s - {w}) \<subseteq> known s"
      using i r(4) unfolding sched_inv_def by blast+
    ultimately show ?thesis using tasks_ok_moves(2) [OF T r(1)] by (simp add: succeed(1) sched_inv_def r(2,3))
  next
    case (fail t w)
    note r = sched_inv_release [OF i fail(2)]
    have "inj_on fst (running s - {(t, w)})" "inj_on snd (running s - {(t, w)})"
      using i by (simp_all add: sched_inv_def inj_on_diff)
    moreover have "ready s \<inter> (snd ` running s - {w}) = {}" "ready s \<union> (snd ` running s - {w}) \<subseteq> known s"
      using i unfolding sched_inv_def by blast+
    ultimately show ?thesis using tasks_ok_moves(3) [OF T r(1)] by (simp add: fail(1) sched_inv_def r(2,3))
  qed
qed

lemma sched_inv_reach: "sched_reach n s \<Longrightarrow> sched_inv n s"
  by (induction rule: sched_reach.induct) (auto intro: sched_inv_init sched_inv_step)

subsection \<open>Master and workers\<close>

definition Register :: "Master \<Rightarrow> string \<Rightarrow> Master" where
  "Register mr worker = mr\<lparr>workers := workers mr @ [worker]\<rparr>"

text \<open>One iteration of \<open>forwardRegistrations\<close>: the worker sent on the channel, or \<open>None\<close> for a wait on
  \<open>newCond\<close>, and the next index.\<close>

definition forwardRegistrations :: "Master \<Rightarrow> nat \<Rightarrow> string option \<times> nat" where
  "forwardRegistrations mr i = (if length (workers mr) > i then (Some (workers mr ! i), i + 1) else (None, i))"

text \<open>\<open>killWorkers\<close>; \<open>shut w\<close> is the reply of worker \<open>w\<close> to \<open>Worker.Shutdown\<close>, \<open>None\<close> when the call fails.\<close>

definition killWorkers :: "(string \<Rightarrow> nat option) \<Rightarrow> Master \<Rightarrow> nat list" where
  "killWorkers shut mr =
     foldl (\<lambda>nt w. case shut w of None \<Rightarrow> nt | Some n \<Rightarrow> nt @ [n]) [] (workers mr)"

definition Distributed ::
  "mr_env \<Rightarrow> string \<Rightarrow> string list \<Rightarrow> nat \<Rightarrow> string \<Rightarrow> (Master \<Rightarrow> jobPhase \<Rightarrow> files \<Rightarrow> files option) \<Rightarrow>
   (string \<Rightarrow> nat option) \<Rightarrow> string list \<Rightarrow> files \<Rightarrow> (Master \<times> files) option" where
  "Distributed E job fls nreduce master sched shut regs fs =
     mr_run E (foldl Register (newMaster master) regs) job fls nreduce sched
       (\<lambda>mr. mr\<lparr>stats := killWorkers shut mr\<rparr>) fs"

record Parallelism =
  now :: int
  pmax :: int

record Worker =
  wname :: string
  nRPC :: int
  nTasks :: nat
  concurrent :: nat
  parallelism :: "Parallelism option"

text \<open>\<open>DoTask\<close>; a second task while one is running is fatal to the worker process. The pause that gives
  a test the chance to see two workers at once has no effect on the state.\<close>

definition DoTask ::
  "mr_env \<Rightarrow> (string \<Rightarrow> string \<Rightarrow> KeyValue list) \<Rightarrow> (string \<Rightarrow> string list \<Rightarrow> string) \<Rightarrow> Worker \<Rightarrow> DoTaskArgs \<Rightarrow> files \<Rightarrow>
   (Worker \<times> files) option" where
  "DoTask E mapF reduceF wk arg fs = do {
     let wk = wk\<lparr>nTasks := nTasks wk + 1, concurrent := concurrent wk + 1\<rparr>;
     let nc = concurrent wk;
     if nc > 1 then None
     else do {
       let wk = wk\<lparr>parallelism := map_option (\<lambda>p.
                let p = p\<lparr>now := now p + 1\<rparr> in if now p > pmax p then p\<lparr>pmax := now p\<rparr> else p) (parallelism wk)\<rparr>;
       fs \<leftarrow> (case Phase arg of
          mapPhase \<Rightarrow> doMap E (JobName arg) (TaskNumber arg) (File arg) (NumOtherPhase arg) mapF fs
        | reducePhase \<Rightarrow> doReduce E (JobName arg) (TaskNumber arg) (mergeName (JobName arg) (TaskNumber arg))
            (NumOtherPhase arg) reduceF fs);
       let wk = wk\<lparr>concurrent := concurrent wk - 1\<rparr>;
       let wk = wk\<lparr>parallelism := map_option (\<lambda>p. p\<lparr>now := now p - 1\<rparr>) (parallelism wk)\<rparr>;
       Some (wk, fs)
     }
   }"

definition Shutdown :: "Worker \<Rightarrow> Worker \<times> nat" where
  "Shutdown wk = (wk\<lparr>nRPC := 1\<rparr>, nTasks wk)"

text \<open>The accept loop of \<open>RunWorker\<close>, given what each \<open>Accept\<close> returns: the worker and the number of
  connections served when the loop is left or waits.\<close>

fun RunWorker_loop :: "Worker \<Rightarrow> bool list \<Rightarrow> nat \<Rightarrow> Worker \<times> nat" where
  "RunWorker_loop wk [] served = (wk, served)"
| "RunWorker_loop wk (ok # accepts) served =
     (if nRPC wk = 0 then (wk, served)
      else if ok then RunWorker_loop (wk\<lparr>nRPC := nRPC wk - 1\<rparr>) accepts (served + 1)
      else (wk, served))"

subsection \<open>Properties\<close>


text \<open>A run with one task, a worker that fails, and a second one that completes it.\<close>

definition wit_sched :: sched where
  "wit_sched = \<lparr>waiting = {}, running = {}, completed = [(0, ''w2'')], ready = {''w2''}, known = {''w1'', ''w2''}\<rparr>"

lemma wit_sched_reach: "sched_reach 1 wit_sched"
proof -
  let ?s0 = "sched_init 1"
  let ?s1 = "?s0\<lparr>ready := {''w1''}, known := {''w1''}\<rparr>"
  let ?s2 = "?s1\<lparr>waiting := {}, ready := {}, running := {(0, ''w1'')}\<rparr>"
  let ?s3 = "?s2\<lparr>running := {}, waiting := {0}\<rparr>"
  let ?s4 = "?s3\<lparr>ready := {''w2''}, known := {''w2'', ''w1''}\<rparr>"
  let ?s5 = "?s4\<lparr>waiting := {}, ready := {}, running := {(0, ''w2'')}\<rparr>"
  have "sched_step ?s0 ?s1" using register [of "''w1''" ?s0] by (simp add: sched_init_def)
  moreover have "sched_step ?s1 ?s2" using assign [of 0 ?s1 "''w1''"] by (simp add: sched_init_def lessThan_Suc)
  moreover have "sched_step ?s2 ?s3" using fail [of 0 "''w1''" ?s2] by (simp add: sched_init_def)
  moreover have "sched_step ?s3 ?s4" using register [of "''w2''" ?s3] by (simp add: sched_init_def)
  moreover have "sched_step ?s4 ?s5" using assign [of 0 ?s4 "''w2''"] by (simp add: sched_init_def)
  moreover have "sched_step ?s5 wit_sched" using succeed [of 0 "''w2''" ?s5] by (simp add: sched_init_def wit_sched_def insert_commute)
  ultimately show ?thesis by (meson sched_reach.intros)
qed


text \<open>C40: A map task that is executed twice (which \<open>schedule\<close> does when a worker fails after doing the
  work) appends all its records to the intermediate files a second time: \<open>doMap\<close> opens them with
  \<open>O_APPEND\<close> and never truncates. Every value of the task then reaches the reduce function twice.\<close>

theorem rerun_map_task_duplicates:
  assumes "json_ok E" "\<And>f. writable E f" "0 < n" "fs (reduceName job t r) = None" "\<And>r. inFile \<noteq> reduceName job t r"
    "kvs = part n r (mapF inFile (contents fs inFile))"
  shows "\<exists>fs1 fs2. doMap E job t inFile n mapF fs = Some fs1 \<and> doMap E job t inFile n mapF fs1 = Some fs2 \<and>
    decode_all (decode_kv E) (contents fs1 (reduceName job t r)) = Some kvs \<and>
    decode_all (decode_kv E) (contents fs2 (reduceName job t r)) = Some (kvs @ kvs)"
proof -
  let ?res = "mapF inFile (contents fs inFile)"
  obtain fs1 where 1: "write_kvs E job t n ?res fs = Some fs1"
    "contents fs1 (reduceName job t r) = contents fs (reduceName job t r) @ stream E (part n r ?res)"
    "fs1 inFile = fs inFile"
    using write_kvs_ok [OF assms(2,3), of job t ?res fs] assms(5) by blast
  obtain fs2 where 2: "write_kvs E job t n ?res fs1 = Some fs2"
    "contents fs2 (reduceName job t r) = contents fs1 (reduceName job t r) @ stream E (part n r ?res)"
    using write_kvs_ok [OF assms(2,3), of job t ?res fs1] by blast
  have "contents fs (reduceName job t r) = []" using assms(4) by (simp add: contents_def)
  then have c: "contents fs1 (reduceName job t r) = stream E kvs" "contents fs2 (reduceName job t r) = stream E (kvs @ kvs)"
    using 1(2) 2(2) assms(6) by simp_all
  have "contents fs1 inFile = contents fs inFile" using 1(3) by (simp add: contents_def)
  then have "doMap E job t inFile n mapF fs = Some fs1" "doMap E job t inFile n mapF fs1 = Some fs2"
    using 1(1) 2(1) by (simp_all add: doMap_def)
  moreover have "decode_all (decode_kv E) (contents fs1 (reduceName job t r)) = Some kvs"
    "decode_all (decode_kv E) (contents fs2 (reduceName job t r)) = Some (kvs @ kvs)"
    unfolding c by (rule decode_all_stream [OF assms(1)])+
  ultimately show ?thesis by blast
qed

theorem rerun_map_task_duplicates_witness:
  "\<exists>fs1 fs2. doMap go_env ''wcseq'' 0 ''a.txt'' 1 (wc_mapF ascii_letter) wit_wc_files = Some fs1 \<and>
     doMap go_env ''wcseq'' 0 ''a.txt'' 1 (wc_mapF ascii_letter) fs1 = Some fs2 \<and>
     map_option length (decode_all go_decode (contents fs1 (reduceName ''wcseq'' 0 0))) = Some 2 \<and>
     map_option length (decode_all go_decode (contents fs2 (reduceName ''wcseq'' 0 0))) = Some 4"
proof -
  let ?kvs = "part 1 0 (wc_mapF ascii_letter ''a.txt'' (contents wit_wc_files ''a.txt''))"
  have "FieldsFunc (contents wit_wc_files ''a.txt'') (\<lambda>c. \<not> ascii_letter c) = [''to'', ''be'']" by code_simp
  then have "length ?kvs = 2" by (simp add: part_def wc_mapF_def)
  moreover have "wit_wc_files (reduceName ''wcseq'' 0 0) = None" "\<And>r. ''a.txt'' \<noteq> reduceName ''wcseq'' 0 r"
    using wit_wc_clean by (auto simp: clean_start_def)
  moreover have "\<And>f. writable go_env f" by (simp add: go_env_def)
  ultimately obtain fs1 fs2 where "doMap go_env ''wcseq'' 0 ''a.txt'' 1 (wc_mapF ascii_letter) wit_wc_files = Some fs1"
    "doMap go_env ''wcseq'' 0 ''a.txt'' 1 (wc_mapF ascii_letter) fs1 = Some fs2"
    "decode_all (decode_kv go_env) (contents fs1 (reduceName ''wcseq'' 0 0)) = Some ?kvs"
    "decode_all (decode_kv go_env) (contents fs2 (reduceName ''wcseq'' 0 0)) = Some (?kvs @ ?kvs)"
    using rerun_map_task_duplicates [OF go_env_ok _ zero_less_one, of wit_wc_files "''wcseq''" 0 0 "''a.txt''" ?kvs "wc_mapF ascii_letter"]
    by blast
  moreover have "decode_kv go_env = go_decode" by (simp add: go_env_def)
  ultimately show ?thesis using \<open>length ?kvs = 2\<close>
    by (intro exI [of _ fs1] exI [of _ fs2]) (simp only: length_append option.map, simp)
qed

subsection \<open>Further facts\<close>

text \<open>With more reduce tasks than input files \<open>schedule\<close> indexes \<open>mapFiles\<close> out of range in the reduce
  phase, although \<open>File\<close> is only used by map tasks.\<close>

lemma schedule_starts_iff:
  "schedule_starts job mapFiles nr mapPhase"
  "schedule_starts job mapFiles nr reducePhase \<longleftrightarrow> nr \<le> length mapFiles"
  by (auto simp: schedule_starts_def list_all_iff task_args_def ntasks_def not_less)

text \<open>\<open>CleanupFiles\<close> dies at the first intermediate file a map task had no record for.\<close>

lemma removeFiles_missing: "n \<in> set ns \<Longrightarrow> fs n = None \<Longrightarrow> removeFiles ns fs = None"
  by (induction ns arbitrary: fs) (auto simp: removeFile_def split: bind_splits)

lemma CleanupFiles_missing:
  assumes "m < nFiles" "r < nr" "fs (reduceName job m r) = None"
  shows "CleanupFiles job nFiles nr fs = None"
proof -
  have "reduceName job m r \<in> set [reduceName job i j. i \<leftarrow> [0..<nFiles], j \<leftarrow> [0..<nr]]"
    using assms(1,2) by (auto intro!: bexI [of _ m])
  from removeFiles_missing [OF this, of fs] show ?thesis unfolding CleanupFiles_def using assms(3) by simp
qed

text \<open>A worker that is idle and is given one task at a time never hits the concurrency check.\<close>

lemma DoTask_idle:
  assumes "concurrent wk = 0" "DoTask E mapF reduceF wk arg fs = Some (wk', fs')"
  shows "concurrent wk' = 0 \<and> nTasks wk' = Suc (nTasks wk)"
  using assms by (auto simp: DoTask_def Let_def split: bind_splits)

lemma DoTask_busy: "0 < concurrent wk \<Longrightarrow> DoTask E mapF reduceF wk arg fs = None"
  by (simp add: DoTask_def Let_def)

end
