(* ===== verification/JsonText.thy ===== *)
theory JsonText
  imports Prelude
begin

text \<open>
  The text layer of \<open>encoding/json\<close> as the gDoc backend uses it (Go 1.16): UTF-8, string literals with
  Go's escapes, and the byte-at-a-time scanner with its stack of open objects and arrays. The scanner
  here also builds the value it has read; numbers and strings stay the text of their literal.
\<close>

subsection \<open>UTF-8\<close>

definition cont_byte :: "nat \<Rightarrow> bool" where
  "cont_byte n \<longleftrightarrow> 0x80 \<le> n \<and> n \<le> 0xBF"

text \<open>\<open>utf8.DecodeRune\<close>: the rune and its width; \<open>(RuneError, 1)\<close> for an invalid encoding.\<close>

definition RuneError :: nat where "RuneError = 0xFFFD"

definition DecodeRune :: "string \<Rightarrow> nat \<times> nat" where
  "DecodeRune s =
     (case map of_char (take 4 s) :: nat list of
        [] \<Rightarrow> (RuneError, 0)
      | a # bs \<Rightarrow>
          if a < 0x80 then (a, 1)
          else if 0xC2 \<le> a \<and> a \<le> 0xDF then
            (case bs of b # _ \<Rightarrow> if cont_byte b then ((a - 0xC0) * 64 + (b - 0x80), 2) else (RuneError, 1)
             | [] \<Rightarrow> (RuneError, 1))
          else if 0xE0 \<le> a \<and> a \<le> 0xEF then
            (case bs of
               b # c # _ \<Rightarrow>
                 if cont_byte b \<and> (a = 0xE0 \<longrightarrow> 0xA0 \<le> b) \<and> (a = 0xED \<longrightarrow> b \<le> 0x9F) \<and> cont_byte c
                 then ((a - 0xE0) * 4096 + (b - 0x80) * 64 + (c - 0x80), 3) else (RuneError, 1)
             | _ \<Rightarrow> (RuneError, 1))
          else if 0xF0 \<le> a \<and> a \<le> 0xF4 then
            (case bs of
               b # c # d # _ \<Rightarrow>
                 if cont_byte b \<and> (a = 0xF0 \<longrightarrow> 0x90 \<le> b) \<and> (a = 0xF4 \<longrightarrow> b \<le> 0x8F) \<and> cont_byte c \<and> cont_byte d
                 then ((a - 0xF0) * 262144 + (b - 0x80) * 4096 + (c - 0x80) * 64 + (d - 0x80), 4) else (RuneError, 1)
             | _ \<Rightarrow> (RuneError, 1))
          else (RuneError, 1))"

text \<open>\<open>utf8.EncodeRune\<close>; surrogates and values out of range are encoded as \<open>RuneError\<close>.\<close>

definition encode_rune :: "nat \<Rightarrow> nat list" where
  "encode_rune r =
     (if r < 0x80 then [r]
      else if r < 0x800 then [0xC0 + r div 64, 0x80 + r mod 64]
      else if 0xD800 \<le> r \<and> r \<le> 0xDFFF \<or> 0x10FFFF < r then [0xEF, 0xBF, 0xBD]
      else if r < 0x10000 then [0xE0 + r div 4096, 0x80 + r div 64 mod 64, 0x80 + r mod 64]
      else [0xF0 + r div 262144, 0x80 + r div 4096 mod 64, 0x80 + r div 64 mod 64, 0x80 + r mod 64])"

definition EncodeRune :: "nat \<Rightarrow> string" where
  "EncodeRune r = map char_of (encode_rune r)"

definition utf8_invalid :: "string \<Rightarrow> bool" where
  "utf8_invalid s \<longleftrightarrow> DecodeRune s = (RuneError, 1)"

text \<open>The first four bytes decide; \<open>first4\<close> lists the shapes they can have.\<close>

lemma first4_cases:
  obtains "s = []" | a where "s = [a]" | a b where "s = [a, b]" | a b c where "s = [a, b, c]"
  | a b c d t where "s = a # b # c # d # t"
  by (cases s rule: list.exhaust; (simp; fail)?; metis list.exhaust)

lemma DecodeRune_width: "s \<noteq> [] \<Longrightarrow> 1 \<le> snd (DecodeRune s) \<and> snd (DecodeRune s) \<le> length s"
  by (cases s rule: first4_cases) (simp_all add: DecodeRune_def)

lemma DecodeRune_drop: "length (drop (snd (DecodeRune (c # s))) (c # s)) < length (c # s)"
proof -
  have "1 \<le> snd (DecodeRune (c # s))" using DecodeRune_width by blast
  then show ?thesis by (simp only: length_drop) (simp add: less_eq_Suc_le)
qed

lemma DecodeRune_ascii: "of_char c < (0x80 :: nat) \<Longrightarrow> DecodeRune (c # s) = (of_char c, 1)"
  by (simp add: DecodeRune_def)

text \<open>A valid rune depends on its own bytes only, and encodes to them.\<close>

lemma DecodeRune_prefix:
  "DecodeRune s = (r, n) \<Longrightarrow> (r, n) \<noteq> (RuneError, 1) \<Longrightarrow> s \<noteq> [] \<Longrightarrow> DecodeRune (take n s @ t) = (r, n)"
  by (cases s rule: first4_cases) (auto simp: DecodeRune_def split: if_splits)

lemma cont_byteE:
  assumes "cont_byte b"
  obtains k where "b = 0x80 + k" "k < 64"
proof
  show "b = 0x80 + (b - 0x80)" "b - 0x80 < 64" using assms by (auto simp: cont_byte_def)
qed

lemma div_mod_place: "m < n \<Longrightarrow> (i * n + m) div n = (i :: nat)" "m < n \<Longrightarrow> (i * n + m) mod n = m"
  by simp_all

lemma encode_2:
  assumes "0xC2 \<le> a" "a \<le> 0xDF" "cont_byte b"
  shows "encode_rune ((a - 0xC0) * 64 + (b - 0x80)) = [a, b]"
proof -
  obtain k where k: "b = 0x80 + k" "k < 64" using assms(3) by (rule cont_byteE)
  obtain i where i: "a = 0xC0 + i" using assms(1) by (auto simp: le_iff_add)
  from assms i have "2 \<le> i" "i < 32" by simp_all
  with k show ?thesis by (simp add: i encode_rune_def)
qed

lemma encode_3:
  assumes "0xE0 \<le> a" "a \<le> 0xEF" "cont_byte b" "a = 0xE0 \<longrightarrow> 0xA0 \<le> b" "a = 0xED \<longrightarrow> b \<le> 0x9F" "cont_byte c"
  shows "encode_rune ((a - 0xE0) * 4096 + (b - 0x80) * 64 + (c - 0x80)) = [a, b, c]"
proof -
  obtain k where k: "b = 0x80 + k" "k < 64" using assms(3) by (rule cont_byteE)
  obtain l where l: "c = 0x80 + l" "l < 64" using assms(6) by (rule cont_byteE)
  obtain i where i: "a = 0xE0 + i" using assms(1) by (auto simp: le_iff_add)
  let ?r = "i * 4096 + k * 64 + l"
  have x: "i < 16" "i = 0 \<Longrightarrow> 32 \<le> k" "i = 13 \<Longrightarrow> k < 32" using assms i k by simp_all
  have r1: "0x800 \<le> ?r" "?r < 0x10000" using x k(2) l(2) by (cases "i = 0"; simp)+
  consider "i \<le> 12" | "i = 13" | "14 \<le> i" by linarith
  then have r2: "\<not> (0xD800 \<le> ?r \<and> ?r \<le> 0xDFFF)" using x(3) k(2) l(2) by cases auto
  note r = r1 r2
  have d: "?r div 4096 = i" "?r div 64 = i * 64 + k" "?r mod 64 = l"
    using div_mod_place(1) [of "k * 64 + l" 4096 i] div_mod_place [of l 64 "i * 64 + k"] k(2) l(2)
    by (simp_all add: algebra_simps)
  have e: "(a - 0xE0) * 4096 + (b - 0x80) * 64 + (c - 0x80) = ?r" by (simp add: i k l)
  have "?r div 64 mod 64 = k" using d(2) k(2) by simp
  with r d show ?thesis unfolding e encode_rune_def by (simp add: i k l)
qed

lemma encode_4:
  assumes "0xF0 \<le> a" "a \<le> 0xF4" "cont_byte b" "a = 0xF0 \<longrightarrow> 0x90 \<le> b" "a = 0xF4 \<longrightarrow> b \<le> 0x8F" "cont_byte c" "cont_byte d"
  shows "encode_rune ((a - 0xF0) * 262144 + (b - 0x80) * 4096 + (c - 0x80) * 64 + (d - 0x80)) = [a, b, c, d]"
proof -
  obtain k where k: "b = 0x80 + k" "k < 64" using assms(3) by (rule cont_byteE)
  obtain l where l: "c = 0x80 + l" "l < 64" using assms(6) by (rule cont_byteE)
  obtain m where m: "d = 0x80 + m" "m < 64" using assms(7) by (rule cont_byteE)
  obtain i where i: "a = 0xF0 + i" using assms(1) by (auto simp: le_iff_add)
  let ?r = "i * 262144 + k * 4096 + l * 64 + m"
  have x: "i \<le> 4" "i = 0 \<Longrightarrow> 16 \<le> k" "i = 4 \<Longrightarrow> k < 16" using assms i k by simp_all
  have r: "0x10000 \<le> ?r" "?r \<le> 0x10FFFF" using x k(2) l(2) m(2) by (cases "i = 0"; simp; cases "i = 4"; simp)+
  have d: "?r div 262144 = i" "?r div 4096 = i * 64 + k" "?r div 64 = i * 4096 + k * 64 + l" "?r mod 64 = m"
    using div_mod_place(1) [of "k * 4096 + l * 64 + m" 262144 i] div_mod_place(1) [of "l * 64 + m" 4096 "i * 64 + k"]
      div_mod_place [of m 64 "i * 4096 + k * 64 + l"] k(2) l(2) m(2)
    by (simp_all add: algebra_simps)
  have e: "(a - 0xF0) * 262144 + (b - 0x80) * 4096 + (c - 0x80) * 64 + (d - 0x80) = ?r" by (simp add: i k l m)
  have "?r div 4096 mod 64 = k" "?r div 64 mod 64 = l"
    using div_mod_place(2) [of l 64 "i * 64 + k"] div_mod_place(2) [of k 64 i] d(2,3) k(2) l(2) by (simp_all add: algebra_simps)
  with r d show ?thesis unfolding e encode_rune_def by (simp add: i k l m)
qed

lemma encode_decode:
  assumes "DecodeRune s = (r, n)" "(r, n) \<noteq> (RuneError, 1)" "s \<noteq> []"
  shows "EncodeRune r = take n s"
proof -
  have m: "encode_rune r = map of_char (take n s)"
    using assms by (cases s rule: first4_cases)
      (auto simp: DecodeRune_def encode_2 encode_3 encode_4 split: if_splits, auto simp: encode_rune_def)
  show ?thesis unfolding EncodeRune_def m by (simp add: comp_def)
qed

subsection \<open>String literals\<close>

definition hex_char :: "nat \<Rightarrow> char" where
  "hex_char d = char_of (if d < 10 then 48 + d else 87 + d)"

definition hex_value :: "char \<Rightarrow> nat option" where
  "hex_value c = (let n = of_char c :: nat in
     if 48 \<le> n \<and> n \<le> 57 then Some (n - 48)
     else if 97 \<le> n \<and> n \<le> 102 then Some (n - 87)
     else if 65 \<le> n \<and> n \<le> 70 then Some (n - 55) else None)"

text \<open>The characters below \<open>0x80\<close> in \<open>encodeState.string\<close>, with HTML escaping.\<close>

definition escape_ascii :: "char \<Rightarrow> string" where
  "escape_ascii c =
     (if c = CHR 0x22 \<or> c = CHR 0x5C then [CHR 0x5C, c]
      else if c = CHR 0x0A then [CHR 0x5C, CHR ''n'']
      else if c = CHR 0x0D then [CHR 0x5C, CHR ''r'']
      else if c = CHR 0x09 then [CHR 0x5C, CHR ''t'']
      else let n = of_char c in
        if n < 32 \<or> c = CHR ''<'' \<or> c = CHR ''>'' \<or> c = CHR ''&''
        then [CHR 0x5C, CHR ''u'', CHR ''0'', CHR ''0'', hex_char (n div 16), hex_char (n mod 16)]
        else [c])"

definition u_escape :: "string \<Rightarrow> string" where
  "u_escape h = CHR 0x5C # CHR ''u'' # h"

function quote_string :: "string \<Rightarrow> string" where
  "quote_string [] = []"
| "quote_string (c # s) =
     (if of_char c < (0x80 :: nat) then escape_ascii c @ quote_string s
      else let r = fst (DecodeRune (c # s)); n = snd (DecodeRune (c # s)) in
        (if r = RuneError \<and> n = 1 then u_escape ''fffd''
         else if r = 0x2028 \<or> r = 0x2029 then u_escape (''202'' @ [hex_char (r mod 16)])
         else take n (c # s))
        @ quote_string (drop n (c # s)))"
  by pat_completeness auto

termination
  by (relation "measure length") (use DecodeRune_drop in auto)

text \<open>\<open>getu4\<close>: the value of \<open>\uXXXX\<close> at the start of the string.\<close>

fun getu4 :: "string \<Rightarrow> nat option" where
  "getu4 (b # u # h1 # h2 # h3 # h4 # _) =
     (if b = CHR 0x5C \<and> u = CHR ''u'' then do {
        d1 \<leftarrow> hex_value h1; d2 \<leftarrow> hex_value h2; d3 \<leftarrow> hex_value h3; d4 \<leftarrow> hex_value h4;
        Some (((d1 * 16 + d2) * 16 + d3) * 16 + d4)
      } else None)"
| "getu4 _ = None"

definition IsSurrogate :: "nat \<Rightarrow> bool" where
  "IsSurrogate r \<longleftrightarrow> 0xD800 \<le> r \<and> r < 0xE000"

text \<open>\<open>utf16.DecodeRune\<close>.\<close>

definition utf16_DecodeRune :: "nat \<Rightarrow> nat \<Rightarrow> nat" where
  "utf16_DecodeRune r1 r2 =
     (if 0xD800 \<le> r1 \<and> r1 < 0xDC00 \<and> 0xDC00 \<le> r2 \<and> r2 < 0xE000
      then (r1 - 0xD800) * 1024 + (r2 - 0xDC00) + 0x10000 else RuneError)"

definition simple_escape :: "char \<Rightarrow> char option" where
  "simple_escape e =
     (if e = CHR 0x22 \<or> e = CHR 0x5C \<or> e = CHR ''/'' \<or> e = CHR 0x27 then Some e
      else if e = CHR ''b'' then Some (CHR 0x08) else if e = CHR ''f'' then Some (CHR 0x0C)
      else if e = CHR ''n'' then Some (CHR 0x0A) else if e = CHR ''r'' then Some (CHR 0x0D)
      else if e = CHR ''t'' then Some (CHR 0x09) else None)"

text \<open>\<open>unquoteBytes\<close>, on the text between the quotes.\<close>

function unquote_bytes :: "string \<Rightarrow> string option" where
  "unquote_bytes [] = Some []"
| "unquote_bytes (c # s) =
     (if c = CHR 0x5C then
        (case s of
           [] \<Rightarrow> None
         | e # s' \<Rightarrow>
             (case simple_escape e of
                Some x \<Rightarrow> map_option ((#) x) (unquote_bytes s')
              | None \<Rightarrow>
                (case getu4 (c # s) of
                   None \<Rightarrow> None
                 | Some rr \<Rightarrow>
                     let s6 = drop 5 s in
                     if IsSurrogate rr then
                       let dec = (case getu4 s6 of None \<Rightarrow> RuneError | Some rr1 \<Rightarrow> utf16_DecodeRune rr rr1) in
                       if dec \<noteq> RuneError then map_option ((@) (EncodeRune dec)) (unquote_bytes (drop 6 s6))
                       else map_option ((@) (EncodeRune RuneError)) (unquote_bytes s6)
                     else map_option ((@) (EncodeRune rr)) (unquote_bytes s6))))
      else if c = CHR 0x22 \<or> of_char c < (32 :: nat) then None
      else if of_char c < (0x80 :: nat) then map_option ((#) c) (unquote_bytes s)
      else map_option ((@) (EncodeRune (fst (DecodeRune (c # s)))))
             (unquote_bytes (drop (snd (DecodeRune (c # s))) (c # s))))"
  by pat_completeness auto

termination
  by (relation "measure length") (use DecodeRune_drop in auto)

text \<open>What writing and reading a string does to it: every invalid byte becomes U+FFFD.\<close>

function coerce_utf8 :: "string \<Rightarrow> string" where
  "coerce_utf8 [] = []"
| "coerce_utf8 (c # s) =
     EncodeRune (fst (DecodeRune (c # s))) @ coerce_utf8 (drop (snd (DecodeRune (c # s))) (c # s))"
  by pat_completeness auto

termination
  by (relation "measure length") (use DecodeRune_drop in auto)

function utf8_valid :: "string \<Rightarrow> bool" where
  "utf8_valid [] = True"
| "utf8_valid (c # s) =
     (DecodeRune (c # s) \<noteq> (RuneError, 1) \<and> utf8_valid (drop (snd (DecodeRune (c # s))) (c # s)))"
  by pat_completeness auto

termination
  by (relation "measure length") (use DecodeRune_drop in auto)

declare quote_string.simps(2) [simp del] unquote_bytes.simps(2) [simp del] coerce_utf8.simps(2) [simp del] utf8_valid.simps(2) [simp del]

lemma coerce_valid: "utf8_valid s \<Longrightarrow> coerce_utf8 s = s"
proof (induction s rule: utf8_valid.induct)
  case (2 c s)
  then have v: "DecodeRune (c # s) \<noteq> (RuneError, 1)" "utf8_valid (drop (snd (DecodeRune (c # s))) (c # s))"
    by (simp_all add: utf8_valid.simps(2))
  have "EncodeRune (fst (DecodeRune (c # s))) = take (snd (DecodeRune (c # s))) (c # s)"
    by (rule encode_decode) (use v(1) in auto)
  with 2 v show ?case by (simp add: coerce_utf8.simps(2) del: drop_Cons' take_Cons')
qed simp

lemma hex_value_char: "d < 16 \<Longrightarrow> hex_value (hex_char d) = Some d"
  by (auto simp: hex_value_def hex_char_def Let_def)

lemma simple_escape_u: "simple_escape (CHR ''u'') = None"
  by (simp add: simple_escape_def)

lemma unquote_u:
  assumes "length h = 4" "getu4 (u_escape h) = Some rr" "\<not> IsSurrogate rr"
  shows "unquote_bytes (u_escape h @ t) = map_option ((@) (EncodeRune rr)) (unquote_bytes t)"
proof -
  obtain a b c d where h: "h = [a, b, c, d]"
    using assms(1) by (auto simp: numeral_eq_Suc length_Suc_conv)
  show ?thesis using assms(2,3)
    by (simp add: h u_escape_def unquote_bytes.simps(2) simple_escape_u Let_def split: if_splits)
qed

lemma EncodeRune_ascii: "of_char c < (0x80 :: nat) \<Longrightarrow> EncodeRune (of_char c) = [c]"
  by (simp add: EncodeRune_def encode_rune_def)

lemma unquote_escape:
  assumes "of_char c < (0x80 :: nat)"
  shows "unquote_bytes (escape_ascii c @ t) = map_option ((#) c) (unquote_bytes t)"
proof -
  let ?n = "of_char c :: nat"
  consider (bs) "c = CHR 0x22 \<or> c = CHR 0x5C" | (nl) "c = CHR 0x0A" | (cr) "c = CHR 0x0D" | (tab) "c = CHR 0x09"
    | (u) "c \<notin> {CHR 0x22, CHR 0x5C, CHR 0x0A, CHR 0x0D, CHR 0x09}"
        "?n < 32 \<or> c = CHR ''<'' \<or> c = CHR ''>'' \<or> c = CHR ''&''"
    | (plain) "c \<notin> {CHR 0x22, CHR 0x5C, CHR 0x0A, CHR 0x0D, CHR 0x09}"
        "\<not> (?n < 32 \<or> c = CHR ''<'' \<or> c = CHR ''>'' \<or> c = CHR ''&'')"
    by blast
  then show ?thesis
  proof cases
    case u
    have "?n < 64" using u(2) by auto
    then have "?n div 16 < 16" "?n mod 16 < 16" by (simp_all add: div_less_iff_less_mult)
    then have "getu4 (u_escape [CHR ''0'', CHR ''0'', hex_char (?n div 16), hex_char (?n mod 16)]) = Some ?n"
      by (simp add: u_escape_def hex_value_char) (simp add: hex_value_def)
    from unquote_u [OF _ this, of t] assms u show ?thesis
      by (cases "unquote_bytes t") (simp_all add: escape_ascii_def u_escape_def IsSurrogate_def EncodeRune_ascii Let_def)
  qed (use assms in \<open>auto simp: escape_ascii_def unquote_bytes.simps(2) simple_escape_def\<close>)
qed

lemma unquote_rune:
  assumes "\<not> of_char c < (0x80 :: nat)" "DecodeRune (c # s) \<noteq> (RuneError, 1)"
  shows "unquote_bytes (take (snd (DecodeRune (c # s))) (c # s) @ t) =
    map_option ((@) (EncodeRune (fst (DecodeRune (c # s))))) (unquote_bytes t)"
proof -
  let ?r = "fst (DecodeRune (c # s))" and ?n = "snd (DecodeRune (c # s))"
  have n: "1 \<le> ?n" "?n \<le> length (c # s)" using DecodeRune_width by blast+
  then obtain m where m: "?n = Suc m" by (cases ?n) auto
  have "DecodeRune (take ?n (c # s) @ t) = (?r, ?n)"
    by (rule DecodeRune_prefix) (use assms(2) in auto)
  then have d: "DecodeRune (c # take m s @ t) = (?r, ?n)" by (simp add: m)
  have "c \<noteq> CHR 0x5C" "c \<noteq> CHR 0x22" using assms(1) by auto
  moreover have "drop ?n (c # take m s @ t) = t" using n m by simp
  ultimately show ?thesis using assms(1) d by (simp add: m unquote_bytes.simps(2) [of c "take m s @ t"])
qed

text \<open>Reading what was written gives the string back, up to invalid UTF-8.\<close>

lemma unquote_quote: "unquote_bytes (quote_string s) = Some (coerce_utf8 s)"
proof (induction s rule: quote_string.induct)
  case (2 c s)
  let ?r = "fst (DecodeRune (c # s))" and ?n = "snd (DecodeRune (c # s))"
  consider (ascii) "of_char c < (0x80 :: nat)"
    | (bad) "\<not> of_char c < (0x80 :: nat)" "?r = RuneError" "?n = 1"
    | (sep) "\<not> of_char c < (0x80 :: nat)" "?r = 0x2028 \<or> ?r = 0x2029"
    | (ok) "\<not> of_char c < (0x80 :: nat)" "DecodeRune (c # s) \<noteq> (RuneError, 1)" "\<not> (?r = 0x2028 \<or> ?r = 0x2029)"
    by (cases "DecodeRune (c # s)") auto
  then show ?case
  proof cases
    case ascii
    with 2 show ?thesis
      by (simp add: quote_string.simps(2) unquote_escape coerce_utf8.simps(2) DecodeRune_ascii EncodeRune_ascii)
  next
    case bad
    have "getu4 (u_escape ''fffd'') = Some RuneError" by (simp add: u_escape_def hex_value_def RuneError_def)
    from unquote_u [OF _ this] 2 bad show ?thesis
      by (simp add: quote_string.simps(2) coerce_utf8.simps(2) IsSurrogate_def RuneError_def)
  next
    case sep
    have g: "getu4 (u_escape (''202'' @ [hex_char (?r mod 16)])) = Some ?r"
      using sep(2) by (auto simp: u_escape_def hex_value_def hex_char_def)
    have "\<not> IsSurrogate ?r" "?r \<noteq> RuneError" using sep(2) by (auto simp: IsSurrogate_def RuneError_def)
    with unquote_u [OF _ g] 2 sep show ?thesis
      by (simp add: quote_string.simps(2) coerce_utf8.simps(2) Let_def)
  next
    case ok
    then have "(?r = RuneError \<and> ?n = 1) = False" by (metis prod.collapse)
    with ok 2 have "quote_string (c # s) = take ?n (c # s) @ quote_string (drop ?n (c # s))"
      by (simp only: quote_string.simps(2) Let_def if_False)
    then have "unquote_bytes (quote_string (c # s)) =
        map_option ((@) (EncodeRune ?r)) (unquote_bytes (quote_string (drop ?n (c # s))))"
      using unquote_rune [OF ok(1,2)] by presburger
    then show ?thesis using 2(2) [OF ok(1) refl refl] by (simp only: coerce_utf8.simps(2) option.map)
  qed
qed simp

end
