(* ===== verification/JsonScan.thy ===== *)
theory JsonScan
  imports JsonText
begin

text \<open>
  The scanner of \<open>encoding/json\<close>: one step per byte over a stack of open objects and arrays, as the
  state functions of the package do. A finished value is handed to the frame below it. The main lemmas
  run the scanner over the text of a literal, an array or an object in any context.
\<close>

datatype json =
    JNull
  | JBool bool
  | JNum string
  | JStr string
  | JArr "json list"
  | JObj "(string \<times> json) list"

datatype frame =
    FKey "(string \<times> json) list"
  | FVal "(string \<times> json) list" string
  | FArr "json list"

datatype numst = NNeg | N0 | N1 | NDot | NDot0 | NE | NESign | NE0

datatype mode =
    MValue
  | MValueOrEmpty
  | MStringOrEmpty
  | MString
  | MStr string
  | MEsc string
  | MEscU nat string
  | MNum numst string
  | MLit string json
  | MEnd json

definition is_space :: "char \<Rightarrow> bool" where
  "is_space c \<longleftrightarrow> c = CHR '' '' \<or> c = CHR 0x09 \<or> c = CHR 0x0D \<or> c = CHR 0x0A"

definition is_digit :: "char \<Rightarrow> bool" where
  "is_digit c \<longleftrightarrow> 48 \<le> (of_char c :: nat) \<and> of_char c \<le> (57 :: nat)"

definition maxNestingDepth :: nat where "maxNestingDepth = 10000"

definition push_frame :: "frame \<Rightarrow> frame list \<Rightarrow> mode \<Rightarrow> (frame list \<times> mode) option" where
  "push_frame f fs m = (if length (f # fs) \<le> maxNestingDepth then Some (f # fs, m) else None)"

subsection \<open>Numbers\<close>

definition num_begin :: "char \<Rightarrow> numst option" where
  "num_begin c =
     (if c = CHR ''-'' then Some NNeg else if c = CHR ''0'' then Some N0
      else if is_digit c then Some N1 else None)"

text \<open>\<open>Some None\<close>: the literal is over; \<open>None\<close>: a syntax error.\<close>

fun num_step :: "numst \<Rightarrow> char \<Rightarrow> numst option option" where
  "num_step NNeg c = (if c = CHR ''0'' then Some (Some N0) else if is_digit c then Some (Some N1) else None)"
| "num_step N1 c =
     (if is_digit c then Some (Some N1)
      else if c = CHR ''.'' then Some (Some NDot)
      else if c = CHR ''e'' \<or> c = CHR ''E'' then Some (Some NE) else Some None)"
| "num_step N0 c =
     (if c = CHR ''.'' then Some (Some NDot)
      else if c = CHR ''e'' \<or> c = CHR ''E'' then Some (Some NE) else Some None)"
| "num_step NDot c = (if is_digit c then Some (Some NDot0) else None)"
| "num_step NDot0 c =
     (if is_digit c then Some (Some NDot0)
      else if c = CHR ''e'' \<or> c = CHR ''E'' then Some (Some NE) else Some None)"
| "num_step NE c =
     (if c = CHR ''+'' \<or> c = CHR ''-'' then Some (Some NESign)
      else if is_digit c then Some (Some NE0) else None)"
| "num_step NESign c = (if is_digit c then Some (Some NE0) else None)"
| "num_step NE0 c = (if is_digit c then Some (Some NE0) else Some None)"

definition num_final :: "numst \<Rightarrow> bool" where
  "num_final n \<longleftrightarrow> n \<in> {N0, N1, NDot0, NE0}"

fun num_run :: "numst \<Rightarrow> string \<Rightarrow> numst option" where
  "num_run n [] = Some n"
| "num_run n (c # cs) = (case num_step n c of Some (Some n') \<Rightarrow> num_run n' cs | _ \<Rightarrow> None)"

text \<open>The number literals of JSON.\<close>

definition is_number :: "string \<Rightarrow> bool" where
  "is_number l =
     (case l of
        [] \<Rightarrow> False
      | c # cs \<Rightarrow>
          (case num_begin c of
             None \<Rightarrow> False
           | Some n \<Rightarrow> (case num_run n cs of None \<Rightarrow> False | Some n' \<Rightarrow> num_final n')))"

subsection \<open>One byte\<close>

text \<open>\<open>stateBeginValue\<close>, \<open>stateBeginString\<close> and \<open>stateEndValue\<close>.\<close>

definition begin_value :: "frame list \<Rightarrow> mode \<Rightarrow> char \<Rightarrow> (frame list \<times> mode) option" where
  "begin_value fs m c =
     (if is_space c then Some (fs, m)
      else if c = CHR 0x7B then push_frame (FKey []) fs MStringOrEmpty
      else if c = CHR ''['' then push_frame (FArr []) fs MValueOrEmpty
      else if c = CHR 0x22 then Some (fs, MStr [])
      else if c = CHR ''t'' then Some (fs, MLit ''rue'' (JBool True))
      else if c = CHR ''f'' then Some (fs, MLit ''alse'' (JBool False))
      else if c = CHR ''n'' then Some (fs, MLit ''ull'' JNull)
      else map_option (\<lambda>n. (fs, MNum n [c])) (num_begin c))"

definition begin_string :: "frame list \<Rightarrow> mode \<Rightarrow> char \<Rightarrow> (frame list \<times> mode) option" where
  "begin_string fs m c =
     (if is_space c then Some (fs, m) else if c = CHR 0x22 then Some (fs, MStr []) else None)"

fun end_value :: "frame list \<Rightarrow> json \<Rightarrow> char \<Rightarrow> (frame list \<times> mode) option" where
  "end_value [] j c = (if is_space c then Some ([], MEnd j) else None)"
| "end_value (FKey ms # fs) j c =
     (if is_space c then Some (FKey ms # fs, MEnd j)
      else if c = CHR '':'' then (case j of JStr k \<Rightarrow> Some (FVal ms k # fs, MValue) | _ \<Rightarrow> None)
      else None)"
| "end_value (FVal ms k # fs) j c =
     (if is_space c then Some (FVal ms k # fs, MEnd j)
      else if c = CHR '','' then Some (FKey (ms @ [(k, j)]) # fs, MString)
      else if c = CHR 0x7D then Some (fs, MEnd (JObj (ms @ [(k, j)])))
      else None)"
| "end_value (FArr xs # fs) j c =
     (if is_space c then Some (FArr xs # fs, MEnd j)
      else if c = CHR '','' then Some (FArr (xs @ [j]) # fs, MValue)
      else if c = CHR '']'' then Some (fs, MEnd (JArr (xs @ [j])))
      else None)"

fun step :: "frame list \<times> mode \<Rightarrow> char \<Rightarrow> (frame list \<times> mode) option" where
  "step (fs, MValue) c = begin_value fs MValue c"
| "step (fs, MValueOrEmpty) c =
     (if c = CHR '']'' then (case fs of FArr xs # fs' \<Rightarrow> Some (fs', MEnd (JArr xs)) | _ \<Rightarrow> None)
      else begin_value fs MValueOrEmpty c)"
| "step (fs, MStringOrEmpty) c =
     (if c = CHR 0x7D then (case fs of FKey ms # fs' \<Rightarrow> Some (fs', MEnd (JObj ms)) | _ \<Rightarrow> None)
      else begin_string fs MStringOrEmpty c)"
| "step (fs, MString) c = begin_string fs MString c"
| "step (fs, MStr acc) c =
     (if c = CHR 0x22 then Some (fs, MEnd (JStr acc))
      else if c = CHR 0x5C then Some (fs, MEsc (acc @ [c]))
      else if of_char c < (32 :: nat) then None
      else Some (fs, MStr (acc @ [c])))"
| "step (fs, MEsc acc) c =
     (if c \<in> set (CHR 0x22 # CHR 0x5C # ''bfnrt/'') then Some (fs, MStr (acc @ [c]))
      else if c = CHR ''u'' then Some (fs, MEscU 4 (acc @ [c]))
      else None)"
| "step (fs, MEscU n acc) c =
     (if hex_value c = None then None
      else if n \<le> 1 then Some (fs, MStr (acc @ [c])) else Some (fs, MEscU (n - 1) (acc @ [c])))"
| "step (fs, MNum n acc) c =
     (case num_step n c of
        None \<Rightarrow> None
      | Some (Some n') \<Rightarrow> Some (fs, MNum n' (acc @ [c]))
      | Some None \<Rightarrow> end_value fs (JNum acc) c)"
| "step (fs, MLit rest j) c =
     (case rest of
        [] \<Rightarrow> None
      | x # xs \<Rightarrow> if c = x then Some (fs, if xs = [] then MEnd j else MLit xs j) else None)"
| "step (fs, MEnd j) c = end_value fs j c"

fun scan :: "frame list \<times> mode \<Rightarrow> string \<Rightarrow> (frame list \<times> mode) option" where
  "scan st [] = Some st"
| "scan st (c # cs) = Option.bind (step st c) (\<lambda>st'. scan st' cs)"

text \<open>\<open>checkValid\<close> with the value it has read; the end of the input acts as a space.\<close>

definition json_parse :: "string \<Rightarrow> json option" where
  "json_parse s =
     (case scan ([], MValue) (s @ '' '') of
        Some ([], MEnd j) \<Rightarrow> Some j
      | _ \<Rightarrow> None)"

lemma scan_append: "scan st (xs @ ys) = Option.bind (scan st xs) (\<lambda>st'. scan st' ys)"
  by (induction xs arbitrary: st) (auto simp: Option.bind_assoc)

subsection \<open>The text of a value\<close>

fun join_comma :: "string list \<Rightarrow> string" where
  "join_comma [] = []"
| "join_comma [x] = x"
| "join_comma (x # y # r) = x @ CHR '','' # join_comma (y # r)"

definition str_lit :: "string \<Rightarrow> string" where
  "str_lit raw = CHR 0x22 # raw @ [CHR 0x22]"

fun pr :: "json \<Rightarrow> string" where
  "pr JNull = ''null''"
| "pr (JBool b) = (if b then ''true'' else ''false'')"
| "pr (JNum l) = l"
| "pr (JStr raw) = str_lit raw"
| "pr (JArr js) = CHR ''['' # join_comma (map pr js) @ '']''"
| "pr (JObj kvs) = CHR 0x7B # join_comma (map (\<lambda>(k, j). str_lit k @ CHR '':'' # pr j) kvs) @ [CHR 0x7D]"

definition raw_ok :: "string \<Rightarrow> bool" where
  "raw_ok raw \<longleftrightarrow> (\<forall>fs acc. scan (fs, MStr acc) raw = Some (fs, MStr (acc @ raw)))"

fun jok :: "json \<Rightarrow> bool" where
  "jok JNull \<longleftrightarrow> True"
| "jok (JBool _) \<longleftrightarrow> True"
| "jok (JNum l) \<longleftrightarrow> is_number l"
| "jok (JStr raw) \<longleftrightarrow> raw_ok raw"
| "jok (JArr js) \<longleftrightarrow> (\<forall>j\<in>set js. jok j)"
| "jok (JObj kvs) \<longleftrightarrow> (\<forall>(k, j)\<in>set kvs. raw_ok k \<and> jok j)"

fun jdepth :: "json \<Rightarrow> nat" where
  "jdepth (JArr js) = Suc (Max (insert 0 (jdepth ` set js)))"
| "jdepth (JObj kvs) = Suc (Max (insert 0 ((\<lambda>(_, j). jdepth j) ` set kvs)))"
| "jdepth _ = 0"

definition delim :: "char \<Rightarrow> bool" where
  "delim c \<longleftrightarrow> is_space c \<or> c = CHR '','' \<or> c = CHR '']'' \<or> c = CHR 0x7D"

text \<open>In the context \<open>fs\<close> the text \<open>s\<close> is read as the value \<open>j\<close> once a delimiter follows.\<close>

definition reads :: "frame list \<Rightarrow> string \<Rightarrow> json \<Rightarrow> bool" where
  "reads fs s j \<longleftrightarrow> (\<forall>c m. delim c \<longrightarrow> m = MValue \<or> m = MValueOrEmpty \<longrightarrow> scan (fs, m) (s @ [c]) = end_value fs j c)"

lemma readsI:
  assumes "\<And>m. m = MValue \<or> m = MValueOrEmpty \<Longrightarrow> scan (fs, m) s = Some (fs, MEnd j)"
  shows "reads fs s j"
  using assms by (auto simp: reads_def scan_append)

lemma reads_scan:
  assumes "reads fs s j" "delim c" "m = MValue \<or> m = MValueOrEmpty"
  shows "scan (fs, m) (s @ c # r) = Option.bind (end_value fs j c) (\<lambda>st. scan st r)"
proof -
  have "scan (fs, m) ((s @ [c]) @ r) = Option.bind (end_value fs j c) (\<lambda>st. scan st r)"
    using assms by (simp only: scan_append [of _ "s @ [c]"] reads_def)
  then show ?thesis by simp
qed

lemma delim_num: "delim c \<Longrightarrow> num_final n \<Longrightarrow> num_step n c = Some None"
  by (auto simp: delim_def is_space_def num_final_def is_digit_def)

lemma scan_num: "num_run n l = Some n' \<Longrightarrow> scan (fs, MNum n acc) l = Some (fs, MNum n' (acc @ l))"
  by (induction l arbitrary: n acc) (auto split: option.splits)

lemma num_begin_other:
  assumes "num_begin c = Some n"
  shows "\<not> is_space c" "c \<noteq> CHR 0x7B" "c \<noteq> CHR ''[''" "c \<noteq> CHR '']''" "c \<noteq> CHR 0x22" "c \<noteq> CHR ''t''" "c \<noteq> CHR ''f''" "c \<noteq> CHR ''n''"
proof -
  from assms have "c = CHR ''-'' \<or> is_digit c" by (simp add: num_begin_def is_digit_def split: if_splits)
  then have "of_char c = (45 :: nat) \<or> 48 \<le> (of_char c :: nat) \<and> of_char c \<le> (57 :: nat)" by (auto simp: is_digit_def)
  then show "\<not> is_space c" "c \<noteq> CHR 0x7B" "c \<noteq> CHR ''[''" "c \<noteq> CHR '']''" "c \<noteq> CHR 0x22" "c \<noteq> CHR ''t''" "c \<noteq> CHR ''f''" "c \<noteq> CHR ''n''"
    by (auto simp: is_space_def)
qed

lemma begin_value_num: "num_begin c = Some n \<Longrightarrow> begin_value fs m c = Some (fs, MNum n [c])"
  by (simp add: begin_value_def num_begin_other)

lemma reads_num:
  assumes "is_number l"
  shows "reads fs l (JNum l)"
proof -
  from assms obtain c cs n n' where l: "l = c # cs" "num_begin c = Some n" "num_run n cs = Some n'" "num_final n'"
    unfolding is_number_def by (auto split: list.splits option.splits)
  have "step (fs, m) c = Some (fs, MNum n [c])" if "m = MValue \<or> m = MValueOrEmpty" for m
    using that begin_value_num [OF l(2)] num_begin_other(4) [OF l(2)] by auto
  then have "scan (fs, m) l = Some (fs, MNum n' l)" if "m = MValue \<or> m = MValueOrEmpty" for m
    using that scan_num [OF l(3), of fs "[c]"] by (simp add: l(1))
  then show ?thesis using delim_num [OF _ l(4)] by (simp add: reads_def scan_append)
qed

lemma scan_str_lit: "raw_ok raw \<Longrightarrow> scan (fs, MStr []) (raw @ [CHR 0x22]) = Some (fs, MEnd (JStr raw))"
  by (simp add: raw_ok_def scan_append)

lemma reads_str: "raw_ok raw \<Longrightarrow> reads fs (str_lit raw) (JStr raw)"
  by (rule readsI) (auto simp: str_lit_def scan_str_lit begin_value_def is_space_def)

lemma scan_elems:
  assumes "\<And>j xs. j \<in> set js \<Longrightarrow> reads (FArr xs # fs) (pr j) j" "js \<noteq> []" "m = MValue \<or> m = MValueOrEmpty"
  shows "scan (FArr xs # fs, m) (join_comma (map pr js) @ '']'') = Some (fs, MEnd (JArr (xs @ js)))"
  using assms
proof (induction js arbitrary: xs m rule: induct_list012)
  case (2 j)
  have "delim (CHR '']'')" by (simp add: delim_def)
  with reads_scan [of "FArr xs # fs" "pr j" j "CHR '']''" m "[]"] 2 show ?case by (simp add: is_space_def)
next
  case (3 j k js)
  have d: "delim (CHR '','')" by (simp add: delim_def)
  have "scan (FArr (xs @ [j]) # fs, MValue) (join_comma (map pr (k # js)) @ '']'') = Some (fs, MEnd (JArr ((xs @ [j]) @ k # js)))"
    by (rule 3(2)) (use 3(3) in auto)
  with reads_scan [of "FArr xs # fs" "pr j" j "CHR '',''" m, OF _ d] 3(3) [of j xs] 3(5) show ?case
    by (simp add: is_space_def)
qed simp

definition member :: "string \<times> json \<Rightarrow> string" where
  "member kj = str_lit (fst kj) @ CHR '':'' # pr (snd kj)"

lemma pr_JObj: "pr (JObj kvs) = CHR 0x7B # join_comma (map member kvs) @ [CHR 0x7D]"
  by (simp add: member_def [abs_def] split_def)

declare pr.simps(6) [simp del]

lemma scan_member:
  assumes "raw_ok k" "reads (FVal ms k # fs) (pr j) j" "delim c" "m = MString \<or> m = MStringOrEmpty"
  shows "scan (FKey ms # fs, m) (member (k, j) @ c # r) =
    Option.bind (end_value (FVal ms k # fs) j c) (\<lambda>st. scan st r)"
proof -
  have s: "step (FKey ms # fs, m) (CHR 0x22) = Some (FKey ms # fs, MStr [])"
    using assms(4) by (auto simp: begin_string_def is_space_def)
  have "scan (FKey ms # fs, m) (str_lit k) = Some (FKey ms # fs, MEnd (JStr k))"
    using s scan_str_lit [OF assms(1), of "FKey ms # fs"] by (simp add: str_lit_def)
  moreover have "step (FKey ms # fs, MEnd (JStr k)) (CHR '':'') = Some (FVal ms k # fs, MValue)"
    by (simp add: is_space_def)
  ultimately show ?thesis
    using reads_scan [OF assms(2,3), of MValue r] by (simp add: member_def scan_append)
qed

lemma scan_members:
  assumes "\<And>k j ms. (k, j) \<in> set kvs \<Longrightarrow> raw_ok k \<and> reads (FVal ms k # fs) (pr j) j" "kvs \<noteq> []"
    and "m = MString \<or> m = MStringOrEmpty"
  shows "scan (FKey ms # fs, m) (join_comma (map member kvs) @ [CHR 0x7D]) = Some (fs, MEnd (JObj (ms @ kvs)))"
  using assms
proof (induction kvs arbitrary: ms m rule: induct_list012)
  case (2 kj)
  obtain k j where kj: "kj = (k, j)" by force
  have d: "delim (CHR 0x7D)" by (simp add: delim_def)
  have "raw_ok k" "reads (FVal ms k # fs) (pr j) j" using 2(1) [of k j] kj by auto
  from scan_member [OF this d 2(3), of "[]"] show ?case by (simp add: kj is_space_def)
next
  case (3 kj y kvs)
  obtain k j where kj: "kj = (k, j)" by force
  have d: "delim (CHR '','')" by (simp add: delim_def)
  have r: "raw_ok k" "reads (FVal ms k # fs) (pr j) j" using 3(3) [of k j] kj by auto
  have "scan (FKey (ms @ [(k, j)]) # fs, MString) (join_comma (map member (y # kvs)) @ [CHR 0x7D]) =
      Some (fs, MEnd (JObj ((ms @ [(k, j)]) @ y # kvs)))"
    by (rule 3(2)) (use 3(3) in auto)
  with scan_member [OF r d 3(5)] show ?case by (simp add: kj is_space_def)
qed simp

lemma push_frame_ok: "length fs < maxNestingDepth \<Longrightarrow> push_frame f fs m = Some (f # fs, m)"
  by (simp add: push_frame_def)

lemma jdepth_arr: "j \<in> set js \<Longrightarrow> jdepth j < jdepth (JArr js)"
  by (simp add: less_Suc_eq_le)

lemma jdepth_obj: "(k, j) \<in> set kvs \<Longrightarrow> jdepth j < jdepth (JObj kvs)"
  by (force simp: less_Suc_eq_le intro!: Max_ge)

lemma reads_pr: "jok j \<Longrightarrow> length fs + jdepth j \<le> maxNestingDepth \<Longrightarrow> reads fs (pr j) j"
proof (induction j arbitrary: fs rule: pr.induct)
  case 1
  show ?case by (rule readsI) (auto simp: begin_value_def is_space_def)
next
  case (2 b)
  show ?case by (rule readsI) (cases b; auto simp: begin_value_def is_space_def)
next
  case (3 l)
  then show ?case by (simp add: reads_num)
next
  case (4 raw)
  then show ?case by (simp add: reads_str)
next
  case (5 js)
  have p: "step (fs, m) (CHR ''['') = Some (FArr [] # fs, MValueOrEmpty)" if "m = MValue \<or> m = MValueOrEmpty" for m
    using that 5(3) push_frame_ok by (auto simp: begin_value_def is_space_def)
  show ?case
  proof (rule readsI)
    fix m assume m: "m = MValue \<or> m = MValueOrEmpty"
    show "scan (fs, m) (pr (JArr js)) = Some (fs, MEnd (JArr js))"
    proof (cases "js = []")
      case False
      have "reads (FArr xs # fs) (pr j) j" if "j \<in> set js" for xs j
        using 5(1) [OF that, of "FArr xs # fs"] 5(2,3) that jdepth_arr [OF that] by simp
      from scan_elems [OF this False, where m = MValueOrEmpty and xs = "[]"] p [OF m] show ?thesis by simp
    qed (use p [OF m] in simp)
  qed
next
  case (6 kvs)
  have p: "step (fs, m) (CHR 0x7B) = Some (FKey [] # fs, MStringOrEmpty)" if "m = MValue \<or> m = MValueOrEmpty" for m
    using that 6(3) push_frame_ok by (auto simp: begin_value_def is_space_def)
  show ?case
  proof (rule readsI)
    fix m assume m: "m = MValue \<or> m = MValueOrEmpty"
    show "scan (fs, m) (pr (JObj kvs)) = Some (fs, MEnd (JObj kvs))"
    proof (cases "kvs = []")
      case False
      have "raw_ok k \<and> reads (FVal ms k # fs) (pr j) j" if "(k, j) \<in> set kvs" for ms k j
        using 6(1) [OF that refl, of "FVal ms k # fs"] 6(2,3) that jdepth_obj [OF that] by auto
      from scan_members [OF this False, where m = MStringOrEmpty and ms = "[]"] p [OF m] show ?thesis
        by (simp add: pr_JObj)
    qed (use p [OF m] in \<open>simp add: pr_JObj\<close>)
  qed
qed

text \<open>White space before a value and after it does not matter.\<close>

lemma scan_spaces: "list_all is_space ws \<Longrightarrow> scan (fs, MEnd j) ws = Some (fs, MEnd j)"
proof (induction ws)
  case (Cons c ws)
  moreover have "end_value fs j c = Some (fs, MEnd j)" if "is_space c" for c
    using that by (cases fs; simp) (rename_tac f fs', case_tac f; simp)
  ultimately show ?case by simp
qed simp

lemma parse_pr:
  assumes "jok j" "jdepth j \<le> maxNestingDepth" "list_all is_space ws"
  shows "json_parse (pr j @ ws) = Some j"
proof -
  obtain c r where w: "ws @ '' '' = c # r" by (cases ws) auto
  have "list_all is_space (ws @ '' '')" using assms(3) by (simp add: is_space_def)
  then have sp: "list_all is_space (c # r)" by (simp only: w)
  then have c: "is_space c" "delim c" by (auto simp: delim_def)
  have "reads [] (pr j) j" using reads_pr [OF assms(1), of "[]"] assms(2) by simp
  from reads_scan [OF this c(2), of MValue r] c(1) sp have "scan ([], MValue) (pr j @ c # r) = Some ([], MEnd j)"
    by (simp add: scan_spaces)
  then show ?thesis by (simp add: json_parse_def w [symmetric])
qed

subsection \<open>String literals are scanned as one\<close>

lemma raw_ok_append: "raw_ok a \<Longrightarrow> raw_ok b \<Longrightarrow> raw_ok (a @ b)"
  by (simp add: raw_ok_def scan_append)

lemma raw_ok_plain:
  assumes "\<And>c. c \<in> set l \<Longrightarrow> c \<noteq> CHR 0x22 \<and> c \<noteq> CHR 0x5C \<and> \<not> of_char c < (32 :: nat)"
  shows "raw_ok l"
proof -
  have "scan (fs, MStr acc) l = Some (fs, MStr (acc @ l))" for fs acc
    using assms by (induction l arbitrary: acc) auto
  then show ?thesis by (simp add: raw_ok_def)
qed

lemma raw_ok_u:
  assumes "length h = 4" "\<forall>c\<in>set h. hex_value c \<noteq> None"
  shows "raw_ok (u_escape h)"
proof -
  obtain a b c d where h: "h = [a, b, c, d]" using assms(1) by (auto simp: numeral_eq_Suc length_Suc_conv)
  show ?thesis using assms(2) by (auto simp: h raw_ok_def u_escape_def)
qed

lemma raw_ok_escape: "of_char c < (0x80 :: nat) \<Longrightarrow> raw_ok (escape_ascii c)"
proof -
  assume c: "of_char c < (0x80 :: nat)"
  let ?n = "of_char c :: nat"
  consider (bs) "c \<in> {CHR 0x22, CHR 0x5C, CHR 0x0A, CHR 0x0D, CHR 0x09}"
    | (u) "c \<notin> {CHR 0x22, CHR 0x5C, CHR 0x0A, CHR 0x0D, CHR 0x09}"
        "?n < 32 \<or> c = CHR ''<'' \<or> c = CHR ''>'' \<or> c = CHR ''&''"
    | (plain) "c \<notin> {CHR 0x22, CHR 0x5C, CHR 0x0A, CHR 0x0D, CHR 0x09}"
        "\<not> (?n < 32 \<or> c = CHR ''<'' \<or> c = CHR ''>'' \<or> c = CHR ''&'')"
    by blast
  then show ?thesis
  proof cases
    case bs
    then show ?thesis by (auto simp: escape_ascii_def raw_ok_def)
  next
    case u
    have "?n div 16 < 16" "?n mod 16 < 16" using c by (simp_all add: div_less_iff_less_mult)
    then have "raw_ok (u_escape [CHR ''0'', CHR ''0'', hex_char (?n div 16), hex_char (?n mod 16)])"
      by (intro raw_ok_u) (auto simp: hex_value_char, auto simp: hex_value_def)
    with u show ?thesis by (simp add: escape_ascii_def u_escape_def Let_def)
  next
    case plain
    then have "escape_ascii c = [c]" by (simp add: escape_ascii_def Let_def)
    then show ?thesis using raw_ok_plain [of "[c]"] plain by simp
  qed
qed

lemma rune_bytes_high:
  assumes "\<not> of_char c < (0x80 :: nat)" "DecodeRune (c # s) \<noteq> (RuneError, 1)" "x \<in> set (take (snd (DecodeRune (c # s))) (c # s))"
  shows "0x80 \<le> (of_char x :: nat)"
  using assms by (cases "c # s" rule: first4_cases) (auto simp: DecodeRune_def cont_byte_def split: if_splits)

lemma raw_ok_quote: "raw_ok (quote_string s)"
proof (induction s rule: quote_string.induct)
  case 1
  then show ?case by (simp add: raw_ok_def)
next
  case (2 c s)
  let ?r = "fst (DecodeRune (c # s))" and ?n = "snd (DecodeRune (c # s))"
  show ?case
  proof (cases "of_char c < (0x80 :: nat)")
    case True
    with 2 show ?thesis by (simp add: quote_string.simps(2) raw_ok_append raw_ok_escape)
  next
    case False
    note IH = 2(2) [OF False refl refl]
    consider (bad) "?r = RuneError \<and> ?n = 1"
      | (sep) "\<not> (?r = RuneError \<and> ?n = 1)" "?r = 0x2028 \<or> ?r = 0x2029"
      | (ok) "\<not> (?r = RuneError \<and> ?n = 1)" "\<not> (?r = 0x2028 \<or> ?r = 0x2029)" by blast
    then show ?thesis
    proof cases
      case bad
      have "raw_ok (u_escape ''fffd'')" by (rule raw_ok_u) (auto simp: hex_value_def)
      with IH bad False show ?thesis by (simp add: quote_string.simps(2) raw_ok_append)
    next
      case sep
      have "raw_ok (u_escape (''202'' @ [hex_char (?r mod 16)]))"
        by (rule raw_ok_u) (auto simp: hex_value_char, auto simp: hex_value_def)
      with IH sep False show ?thesis by (simp only: quote_string.simps(2) Let_def if_False raw_ok_append simp_thms if_True)
    next
      case ok
      then have d: "DecodeRune (c # s) \<noteq> (RuneError, 1)" by (metis fst_conv snd_conv)
      have "x \<noteq> CHR 0x22 \<and> x \<noteq> CHR 0x5C \<and> \<not> of_char x < (32 :: nat)" if "x \<in> set (take ?n (c # s))" for x
        using rune_bytes_high [OF False d that] by auto
      then have "raw_ok (take ?n (c # s))" by (rule raw_ok_plain)
      with IH ok False show ?thesis by (simp only: quote_string.simps(2) Let_def if_False raw_ok_append)
    qed
  qed
qed

end
