(* ===== verification/GoJson.thy ===== *)
theory GoJson
  imports JsonScan "HOL-Library.List_Lexorder" "HOL-Library.Char_ord"
begin

text \<open>
  \<open>json.Marshal\<close> and \<open>json.Unmarshal\<close> of \<open>encoding/json\<close> (Go 1.16), by reflection over descriptions of Go
  types: a struct lists its fields with their JSON name, the \<open>omitempty\<close> option and their type. Values
  carry the names of their fields. The flexible number types of \<open>gDoc_backend/model/flexint.go\<close> are
  types of their own, because they have their own \<open>UnmarshalJSON\<close>.

  A \<open>float64\<close> is its 64 bits. Its decimal text (\<open>strconv\<close>) is an argument: \<open>FormatFloat\<close> fails for
  infinities and NaN, \<open>ParseFloat\<close> for literals out of range.
\<close>

type_synonym f64 = "64 word"

record float_conv =
  FormatFloat :: "f64 \<Rightarrow> string option"
  ParseFloat :: "string \<Rightarrow> f64 option"

definition float_conv_ok :: "float_conv \<Rightarrow> bool" where
  "float_conv_ok F \<longleftrightarrow> (\<forall>w l. FormatFloat F w = Some l \<longrightarrow> is_number l \<and> ParseFloat F l = Some w)"

datatype gotype =
    TBool
  | TInt
  | TFloat
  | TString
  | TFlexInt
  | TFlexFloat
  | TIface
  | TPtr gotype
  | TSlice gotype
  | TMap gotype
  | TStruct "(string \<times> string \<times> bool \<times> gotype) list"

type_synonym field_desc = "string \<times> string \<times> bool \<times> gotype"

text \<open>\<open>VNil\<close> is the nil of pointers, slices, maps and interfaces; a map is sorted by its keys.\<close>

datatype goval =
    VNil
  | VBool bool
  | VInt int
  | VFloat f64
  | VStr string
  | VPtr goval
  | VSlice "goval list"
  | VMap "(string \<times> goval) list"
  | VStruct "(string \<times> goval) list"

fun zero :: "gotype \<Rightarrow> goval" where
  "zero TBool = VBool False"
| "zero TInt = VInt 0"
| "zero TFloat = VFloat 0"
| "zero TString = VStr []"
| "zero TFlexInt = VInt 0"
| "zero TFlexFloat = VFloat 0"
| "zero TIface = VNil"
| "zero (TPtr _) = VNil"
| "zero (TSlice _) = VNil"
| "zero (TMap _) = VNil"
| "zero (TStruct fs) = VStruct (map (\<lambda>(g, _, _, t). (g, zero t)) fs)"

subsection \<open>Fields and maps\<close>

definition get_field :: "string \<Rightarrow> (string \<times> goval) list \<Rightarrow> goval" where
  "get_field g vs = (case map_of vs g of Some v \<Rightarrow> v | None \<Rightarrow> VNil)"

definition set_field :: "string \<Rightarrow> goval \<Rightarrow> (string \<times> goval) list \<Rightarrow> (string \<times> goval) list" where
  "set_field g v vs = map (\<lambda>(h, x). if h = g then (h, v) else (h, x)) vs"

fun map_put :: "string \<Rightarrow> 'v \<Rightarrow> (string \<times> 'v) list \<Rightarrow> (string \<times> 'v) list" where
  "map_put k v [] = [(k, v)]"
| "map_put k v ((l, x) # m) =
     (if k < l then (k, v) # (l, x) # m else if k = l then (k, v) # m else (l, x) # map_put k v m)"

subsection \<open>Bytes\<close>

text \<open>Bytes and characters are the same thing in Go.\<close>

definition chars :: "byte list \<Rightarrow> string" where
  "chars = map (\<lambda>b. char_of (unat b))"

definition bytes :: "string \<Rightarrow> byte list" where
  "bytes = map of_char"

lemma char_of_byte: "char_of (unat (of_char c :: byte)) = c"
proof -
  have "unat (of_nat (of_char c) :: byte) = of_char c mod 256" by (simp only: unat_of_nat) simp
  then have "unat (of_char c :: byte) = of_char c" using nat_of_char_less_256 [of c] by (simp add: of_nat_of_char)
  then show ?thesis by simp
qed

lemma chars_bytes [simp]: "chars (bytes s) = s"
  by (induction s) (simp_all add: chars_def bytes_def char_of_byte)

subsection \<open>Integers\<close>

definition FormatInt :: "int \<Rightarrow> string" where
  "FormatInt i = (if i < 0 then CHR ''-'' # dec_digits (nat (- i)) else dec_digits (nat i))"

definition int64_range :: "int \<Rightarrow> bool" where
  "int64_range i \<longleftrightarrow> - (2 ^ 63) \<le> i \<and> i < 2 ^ 63"

text \<open>\<open>strconv.ParseInt(s, 10, 64)\<close>, which is also \<open>strconv.Atoi\<close> on a 64-bit machine.\<close>

definition ParseInt :: "string \<Rightarrow> int option" where
  "ParseInt s =
     (let (neg, ds) = (case s of c # r \<Rightarrow> if c = CHR ''-'' then (True, r) else if c = CHR ''+'' then (False, r) else (False, s)
                       | [] \<Rightarrow> (False, []));
          i = (if neg then - int (undigits 0 ds) else int (undigits 0 ds))
      in if ds \<noteq> [] \<and> list_all is_digit ds \<and> int64_range i then Some i else None)"

subsection \<open>Marshal\<close>

definition isEmptyValue :: "gotype \<Rightarrow> goval \<Rightarrow> bool" where
  "isEmptyValue t v =
     (case t of
        TIface \<Rightarrow> v = VNil
      | TStruct _ \<Rightarrow> False
      | _ \<Rightarrow>
          (case v of
             VNil \<Rightarrow> True
           | VBool b \<Rightarrow> \<not> b
           | VInt i \<Rightarrow> i = 0
           | VFloat w \<Rightarrow> w = 0 \<or> w = 0x8000000000000000
           | VStr s \<Rightarrow> s = []
           | VSlice vs \<Rightarrow> vs = []
           | VMap m \<Rightarrow> m = []
           | _ \<Rightarrow> False))"

text \<open>
  The JSON value of a Go value at a type; \<open>None\<close> when \<open>Marshal\<close> returns an error (or the value does not
  have the type).
\<close>

fun to_json :: "float_conv \<Rightarrow> gotype \<Rightarrow> goval \<Rightarrow> json option"
  and to_jsons :: "float_conv \<Rightarrow> gotype \<Rightarrow> goval list \<Rightarrow> json list option"
  and to_members :: "float_conv \<Rightarrow> gotype \<Rightarrow> (string \<times> goval) list \<Rightarrow> (string \<times> json) list option"
  and to_fields :: "float_conv \<Rightarrow> field_desc list \<Rightarrow> (string \<times> goval) list \<Rightarrow> (string \<times> json) list option" where
  "to_json F t VNil =
     (case t of TIface \<Rightarrow> Some JNull | TPtr _ \<Rightarrow> Some JNull | TSlice _ \<Rightarrow> Some JNull | TMap _ \<Rightarrow> Some JNull
      | _ \<Rightarrow> None)"
| "to_json F t (VBool b) = (case t of TBool \<Rightarrow> Some (JBool b) | TIface \<Rightarrow> Some (JBool b) | _ \<Rightarrow> None)"
| "to_json F t (VInt i) =
     (case t of TInt \<Rightarrow> Some (JNum (FormatInt i)) | TFlexInt \<Rightarrow> Some (JNum (FormatInt i))
      | TIface \<Rightarrow> Some (JNum (FormatInt i)) | _ \<Rightarrow> None)"
| "to_json F t (VFloat w) =
     (case t of TFloat \<Rightarrow> map_option JNum (FormatFloat F w) | TFlexFloat \<Rightarrow> map_option JNum (FormatFloat F w)
      | TIface \<Rightarrow> map_option JNum (FormatFloat F w) | _ \<Rightarrow> None)"
| "to_json F t (VStr s) =
     (case t of TString \<Rightarrow> Some (JStr (quote_string s)) | TIface \<Rightarrow> Some (JStr (quote_string s)) | _ \<Rightarrow> None)"
| "to_json F t (VPtr v) = (case t of TPtr u \<Rightarrow> to_json F u v | _ \<Rightarrow> None)"
| "to_json F t (VSlice vs) =
     (case t of TSlice u \<Rightarrow> map_option JArr (to_jsons F u vs) | TIface \<Rightarrow> map_option JArr (to_jsons F TIface vs)
      | _ \<Rightarrow> None)"
| "to_json F t (VMap m) =
     (case t of TMap u \<Rightarrow> map_option JObj (to_members F u m) | TIface \<Rightarrow> map_option JObj (to_members F TIface m)
      | _ \<Rightarrow> None)"
| "to_json F t (VStruct vs) = (case t of TStruct fs \<Rightarrow> map_option JObj (to_fields F fs vs) | _ \<Rightarrow> None)"
| "to_jsons F t [] = Some []"
| "to_jsons F t (v # vs) = do { j \<leftarrow> to_json F t v; js \<leftarrow> to_jsons F t vs; Some (j # js) }"
| "to_members F t [] = Some []"
| "to_members F t ((k, v) # m) =
     do { j \<leftarrow> to_json F t v; r \<leftarrow> to_members F t m; Some ((quote_string k, j) # r) }"
| "to_fields F fs [] = (if fs = [] then Some [] else None)"
| "to_fields F fs ((h, v) # vs) =
     (case fs of
        [] \<Rightarrow> None
      | (g, k, omitempty, t) # fs' \<Rightarrow>
          if omitempty \<and> isEmptyValue t v then to_fields F fs' vs
          else do { j \<leftarrow> to_json F t v; r \<leftarrow> to_fields F fs' vs; Some ((quote_string k, j) # r) })"

definition Marshal :: "float_conv \<Rightarrow> gotype \<Rightarrow> goval \<Rightarrow> byte list option" where
  "Marshal F t v = map_option (\<lambda>j. bytes (pr j)) (to_json F t v)"

subsection \<open>Unmarshal\<close>

text \<open>
  An error of a type mismatch is saved and decoding goes on; an error of an \<open>UnmarshalJSON\<close> method
  ends it.
\<close>

datatype dec_err = DOk | DSaved | DAbort

definition then_err :: "dec_err \<Rightarrow> dec_err \<Rightarrow> dec_err" where
  "then_err e e' = (if e' = DAbort then DAbort else if e = DOk then e' else e)"

definition text_of :: "string \<Rightarrow> string" where
  "text_of raw = (case unquote_bytes raw of Some s \<Rightarrow> s | None \<Rightarrow> [])"

text \<open>Upper case, with the two non-ASCII letters that fold to \<open>K\<close> and \<open>S\<close>.\<close>

fun fold_key :: "string \<Rightarrow> string" where
  "fold_key (a # b # c # s) =
     (if a = CHR 0xE2 \<and> b = CHR 0x84 \<and> c = CHR 0xAA then CHR ''K'' # fold_key s
      else if a = CHR 0xC5 \<and> b = CHR 0xBF then CHR ''S'' # fold_key (c # s)
      else (if 97 \<le> (of_char a :: nat) \<and> of_char a \<le> (122 :: nat) then char_of (of_char a - 32 :: nat) else a) # fold_key (b # c # s))"
| "fold_key [a, b] =
     (if a = CHR 0xC5 \<and> b = CHR 0xBF then [CHR ''S'']
      else (if 97 \<le> (of_char a :: nat) \<and> of_char a \<le> (122 :: nat) then char_of (of_char a - 32 :: nat) else a) # fold_key [b])"
| "fold_key [a] = [if 97 \<le> (of_char a :: nat) \<and> of_char a \<le> (122 :: nat) then char_of (of_char a - 32 :: nat) else a]"
| "fold_key [] = []"

definition find_field :: "field_desc list \<Rightarrow> string \<Rightarrow> (string \<times> gotype) option" where
  "find_field fs key =
     map_option (\<lambda>(g, _, _, t). (g, t))
       (case find (\<lambda>(_, k, _, _). k = key) fs of
          Some f \<Rightarrow> Some f
        | None \<Rightarrow> find (\<lambda>(_, k, _, _). fold_key k = fold_key key) fs)"

definition FlexInt_UnmarshalJSON :: "json \<Rightarrow> goval \<Rightarrow> goval \<times> dec_err" where
  "FlexInt_UnmarshalJSON b fi =
     (case b of
        JStr raw \<Rightarrow>
          (let s = text_of raw in
           if s = [] then (VInt 0, DOk)
           else case ParseInt s of Some i \<Rightarrow> (VInt i, DOk) | None \<Rightarrow> (fi, DAbort))
      | JNum l \<Rightarrow> (case ParseInt l of Some i \<Rightarrow> (VInt i, DOk) | None \<Rightarrow> (fi, DAbort))
      | JNull \<Rightarrow> (fi, DOk)
      | _ \<Rightarrow> (fi, DAbort))"

definition FlexFloat_UnmarshalJSON :: "float_conv \<Rightarrow> json \<Rightarrow> goval \<Rightarrow> goval \<times> dec_err" where
  "FlexFloat_UnmarshalJSON F b fi =
     (case b of
        JStr raw \<Rightarrow> (case ParseFloat F (text_of raw) of Some i \<Rightarrow> (VFloat i, DOk) | None \<Rightarrow> (fi, DAbort))
      | JNum l \<Rightarrow> (case ParseFloat F l of Some i \<Rightarrow> (VFloat i, DOk) | None \<Rightarrow> (fi, DAbort))
      | JNull \<Rightarrow> (fi, DOk)
      | _ \<Rightarrow> (fi, DAbort))"

text \<open>\<open>indirect\<close>: pointers on the way to the value are allocated.\<close>

fun base_type :: "gotype \<Rightarrow> gotype" where
  "base_type (TPtr t) = base_type t"
| "base_type t = t"

fun deref :: "gotype \<Rightarrow> goval \<Rightarrow> goval" where
  "deref (TPtr t) v = deref t (case v of VPtr x \<Rightarrow> x | _ \<Rightarrow> zero t)"
| "deref t v = v"

fun wrap :: "gotype \<Rightarrow> goval \<Rightarrow> goval" where
  "wrap (TPtr t) v = VPtr (wrap t v)"
| "wrap t v = v"

definition at_base :: "gotype \<Rightarrow> goval \<Rightarrow> (gotype \<Rightarrow> goval \<Rightarrow> goval \<times> dec_err) \<Rightarrow> goval \<times> dec_err" where
  "at_base t v f = (case f (base_type t) (deref t v) of (x, e) \<Rightarrow> (wrap t x, e))"

text \<open>Literals, and composite values for a target of another kind.\<close>

definition decode_plain :: "float_conv \<Rightarrow> json \<Rightarrow> gotype \<Rightarrow> goval \<Rightarrow> goval \<times> dec_err" where
  "decode_plain F j u x =
     (case u of
        TFlexInt \<Rightarrow> FlexInt_UnmarshalJSON j x
      | TFlexFloat \<Rightarrow> FlexFloat_UnmarshalJSON F j x
      | _ \<Rightarrow>
          (case j of
             JBool b \<Rightarrow> if u = TBool \<or> u = TIface then (VBool b, DOk) else (x, DSaved)
           | JStr raw \<Rightarrow> if u = TString \<or> u = TIface then (VStr (text_of raw), DOk) else (x, DSaved)
           | JNum l \<Rightarrow>
               if u = TInt then (case ParseInt l of Some i \<Rightarrow> (VInt i, DOk) | None \<Rightarrow> (x, DSaved))
               else if u = TFloat \<or> u = TIface then (case ParseFloat F l of Some w \<Rightarrow> (VFloat w, DOk) | None \<Rightarrow> (x, DSaved))
               else (x, DSaved)
           | _ \<Rightarrow> (x, DSaved)))"

definition slice_target :: "gotype \<Rightarrow> goval \<Rightarrow> (gotype \<times> goval list) option" where
  "slice_target u x =
     (case u of
        TIface \<Rightarrow> Some (TIface, [])
      | TSlice w \<Rightarrow> Some (w, case x of VSlice olds \<Rightarrow> olds | _ \<Rightarrow> [])
      | _ \<Rightarrow> None)"

definition map_target :: "gotype \<Rightarrow> goval \<Rightarrow> (gotype \<times> (string \<times> goval) list) option" where
  "map_target u x =
     (case u of
        TIface \<Rightarrow> Some (TIface, [])
      | TMap w \<Rightarrow> Some (w, case x of VMap m \<Rightarrow> m | _ \<Rightarrow> [])
      | _ \<Rightarrow> None)"

definition struct_target :: "gotype \<Rightarrow> goval \<Rightarrow> (field_desc list \<times> (string \<times> goval) list) option" where
  "struct_target u x =
     (case u of
        TStruct fs \<Rightarrow> Some (fs, case x of VStruct vs \<Rightarrow> vs | _ \<Rightarrow> [])
      | _ \<Rightarrow> None)"

function (sequential) decode :: "float_conv \<Rightarrow> gotype \<Rightarrow> json \<Rightarrow> goval \<Rightarrow> goval \<times> dec_err"
  and decode_elems :: "float_conv \<Rightarrow> gotype \<Rightarrow> json list \<Rightarrow> goval list \<Rightarrow> goval list \<times> dec_err"
  and decode_map :: "float_conv \<Rightarrow> gotype \<Rightarrow> (string \<times> json) list \<Rightarrow> (string \<times> goval) list \<Rightarrow> (string \<times> goval) list \<times> dec_err"
  and decode_struct :: "float_conv \<Rightarrow> field_desc list \<Rightarrow> (string \<times> json) list \<Rightarrow> (string \<times> goval) list \<Rightarrow> (string \<times> goval) list \<times> dec_err" where
  "decode F t JNull v =
     (case t of TIface \<Rightarrow> (VNil, DOk) | TPtr _ \<Rightarrow> (VNil, DOk) | TSlice _ \<Rightarrow> (VNil, DOk) | TMap _ \<Rightarrow> (VNil, DOk)
      | _ \<Rightarrow> (v, DOk))"
| "decode F t (JBool b) v = at_base t v (decode_plain F (JBool b))"
| "decode F t (JNum l) v = at_base t v (decode_plain F (JNum l))"
| "decode F t (JStr raw) v = at_base t v (decode_plain F (JStr raw))"
| "decode F t (JArr js) v =
     at_base t v (\<lambda>u x.
       case slice_target u x of
         Some (w, olds) \<Rightarrow> map_prod VSlice id (decode_elems F w js olds)
       | None \<Rightarrow> decode_plain F (JArr js) u x)"
| "decode F t (JObj kvs) v =
     at_base t v (\<lambda>u x.
       case map_target u x of
         Some (w, m) \<Rightarrow> map_prod VMap id (decode_map F w kvs m)
       | None \<Rightarrow>
           (case struct_target u x of
              Some (fs, vs) \<Rightarrow> map_prod VStruct id (decode_struct F fs kvs vs)
            | None \<Rightarrow> decode_plain F (JObj kvs) u x))"
| "decode_elems F t [] olds = ([], DOk)"
| "decode_elems F t (j # js) olds =
     (case decode F t j (case olds of [] \<Rightarrow> zero t | old # _ \<Rightarrow> old) of
        (v, e) \<Rightarrow>
          if e = DAbort then (v # drop 1 olds, DAbort)
          else (case decode_elems F t js (drop 1 olds) of (vs, e') \<Rightarrow> (v # vs, then_err e e')))"
| "decode_map F t [] m = (m, DOk)"
| "decode_map F t ((raw, j) # kvs) m =
     (case decode F t j (zero t) of
        (v, e) \<Rightarrow>
          if e = DAbort then (m, DAbort)
          else (case decode_map F t kvs (map_put (text_of raw) v m) of (m', e') \<Rightarrow> (m', then_err e e')))"
| "decode_struct F fs [] vs = (vs, DOk)"
| "decode_struct F fs ((raw, j) # kvs) vs =
     (case find_field fs (text_of raw) of
        None \<Rightarrow> decode_struct F fs kvs vs
      | Some (g, t) \<Rightarrow>
          (case decode F t j (get_field g vs) of
             (v, e) \<Rightarrow>
               if e = DAbort then (set_field g v vs, DAbort)
               else (case decode_struct F fs kvs (set_field g v vs) of (vs', e') \<Rightarrow> (vs', then_err e e'))))"

  by pat_completeness auto

termination
  by (relation "measure (\<lambda>x. case x of
      Inl (Inl (F, t, j, v)) \<Rightarrow> size j
    | Inl (Inr (F, t, js, olds)) \<Rightarrow> size_list size js
    | Inr (Inl (F, t, kvs, m)) \<Rightarrow> size_list (size_prod (\<lambda>_. 0) size) kvs
    | Inr (Inr (F, fs, kvs, vs)) \<Rightarrow> size_list (size_prod (\<lambda>_. 0) size) kvs)") simp_all

datatype json_error = SyntaxError | UnmarshalTypeError

definition Unmarshal :: "float_conv \<Rightarrow> gotype \<Rightarrow> byte list \<Rightarrow> goval \<Rightarrow> goval \<times> json_error option" where
  "Unmarshal F t data v =
     (case json_parse (chars data) of
        None \<Rightarrow> (v, Some SyntaxError)
      | Some j \<Rightarrow> (case decode F t j v of (x, e) \<Rightarrow> (x, if e = DOk then None else Some UnmarshalTypeError)))"

end
