(* ===== verification/GoJsonProps.thy ===== *)
theory GoJsonProps
  imports GoJson
begin

text \<open>
  Correctness of the JSON layer: decoding keeps values well typed whatever the input
  (\<open>decode_typed\<close>), and what \<open>Marshal\<close> writes is read back by \<open>Unmarshal\<close> (\<open>marshal_unmarshal\<close>).
\<close>

subsection \<open>Types\<close>

text \<open>
  A description is well formed when its structs have distinct field names and distinct JSON names,
  and its pointers point to what cannot be null in JSON.
\<close>

fun nillable :: "gotype \<Rightarrow> bool" where
  "nillable TIface = True"
| "nillable (TPtr _) = True"
| "nillable (TSlice _) = True"
| "nillable (TMap _) = True"
| "nillable _ = False"

definition ascii_key :: "string \<Rightarrow> bool" where
  "ascii_key k \<longleftrightarrow> list_all (\<lambda>c. of_char c < (0x80 :: nat)) k"

lemma ascii_key_valid: "ascii_key k \<Longrightarrow> utf8_valid k"
  by (induction k) (simp_all add: ascii_key_def utf8_valid.simps(2) DecodeRune_ascii RuneError_def)

fun wf_type :: "gotype \<Rightarrow> bool" where
  "wf_type (TPtr t) \<longleftrightarrow> \<not> nillable t \<and> wf_type t"
| "wf_type (TSlice t) \<longleftrightarrow> wf_type t"
| "wf_type (TMap t) \<longleftrightarrow> wf_type t"
| "wf_type (TStruct fs) \<longleftrightarrow>
     distinct (map fst fs) \<and> distinct (map (fst \<circ> snd) fs) \<and> list_all (\<lambda>f. ascii_key (fst (snd f))) fs \<and>
     list_all (\<lambda>(_, _, _, t). wf_type t) fs"
| "wf_type _ \<longleftrightarrow> True"

lemma size_elem: "v \<in> set vs \<Longrightarrow> size v \<le> size_list size vs"
  by (simp add: size_list_estimation')

lemma size_member: "(k, v) \<in> set m \<Longrightarrow> size v \<le> size_list (size_prod (\<lambda>_. 0) size) m"
  by (induction m) auto

function has_type :: "gotype \<Rightarrow> goval \<Rightarrow> bool"
  and has_fields :: "field_desc list \<Rightarrow> (string \<times> goval) list \<Rightarrow> bool" where
  "has_type t VNil \<longleftrightarrow> nillable t"
| "has_type t (VBool b) \<longleftrightarrow> t = TBool \<or> t = TIface"
| "has_type t (VInt i) \<longleftrightarrow> (t = TInt \<or> t = TFlexInt) \<and> int64_range i"
| "has_type t (VFloat w) \<longleftrightarrow> t = TFloat \<or> t = TFlexFloat \<or> t = TIface"
| "has_type t (VStr s) \<longleftrightarrow> t = TString \<or> t = TIface"
| "has_type t (VPtr v) \<longleftrightarrow> (case t of TPtr u \<Rightarrow> has_type u v | _ \<Rightarrow> False)"
| "has_type t (VSlice vs) \<longleftrightarrow>
     (case t of TSlice u \<Rightarrow> list_all (has_type u) vs | TIface \<Rightarrow> list_all (has_type TIface) vs | _ \<Rightarrow> False)"
| "has_type t (VMap m) \<longleftrightarrow>
     (case t of
        TMap u \<Rightarrow> sorted_wrt (<) (map fst m) \<and> list_all (\<lambda>(_, v). has_type u v) m
      | TIface \<Rightarrow> sorted_wrt (<) (map fst m) \<and> list_all (\<lambda>(_, v). has_type TIface v) m
      | _ \<Rightarrow> False)"
| "has_type t (VStruct vs) \<longleftrightarrow> (case t of TStruct fs \<Rightarrow> has_fields fs vs | _ \<Rightarrow> False)"
| "has_fields fs [] \<longleftrightarrow> fs = []"
| "has_fields fs ((h, v) # vs) \<longleftrightarrow>
     (case fs of [] \<Rightarrow> False | (g, k, om, t) # fs' \<Rightarrow> g = h \<and> has_type t v \<and> has_fields fs' vs)"
  by pat_completeness auto

termination
  by (relation "measure (\<lambda>x. case x of Inl (t, v) \<Rightarrow> size v | Inr (fs, vs) \<Rightarrow> size_list (size_prod (\<lambda>_. 0) size) vs)")
    (auto simp: less_Suc_eq_le dest: size_elem size_member)

lemma zero_typed: "has_type t (zero t)"
proof (induction t rule: zero.induct)
  case (11 fs)
  have IH: "has_type t (zero t)" if "(g, k, om, t) \<in> set fs" for g k om t
    using 11 [OF that refl refl refl] .
  then have "has_fields fs (map (\<lambda>(g, _, _, t). (g, zero t)) fs)"
  proof (induction fs)
    case (Cons f fs)
    obtain g k om t where f: "f = (g, k, om, t)" by (cases f) auto
    have "has_type t (zero t)" using Cons(2) [of g k om t] by (simp add: f)
    moreover have "has_fields fs (map (\<lambda>(g, _, _, t). (g, zero t)) fs)" by (rule Cons(1)) (use Cons(2) in auto)
    ultimately show ?case by (simp add: f)
  qed simp
  then show ?case by simp
qed (simp_all add: int64_range_def)

lemma base_typed: "has_type t v \<Longrightarrow> has_type (base_type t) (deref t v)"
  by (induction t v rule: deref.induct) (auto simp: zero_typed split: goval.splits)

lemma wrap_typed: "has_type (base_type t) x \<Longrightarrow> has_type t (wrap t x)"
  by (induction t x rule: wrap.induct) auto

lemma wf_base: "wf_type t \<Longrightarrow> wf_type (base_type t)"
  by (induction t rule: base_type.induct) auto

lemma at_base_typed:
  assumes "has_type t v" "\<And>x. has_type (base_type t) x \<Longrightarrow> has_type (base_type t) (fst (f (base_type t) x))"
  shows "has_type t (fst (at_base t v f))"
  using wrap_typed [OF assms(2) [OF base_typed [OF assms(1)]]] by (simp add: at_base_def split_def)

lemma ParseInt_range: "ParseInt s = Some i \<Longrightarrow> int64_range i"
  by (auto simp: ParseInt_def Let_def split: prod.splits if_splits)

lemma FlexInt_typed: "has_type TFlexInt x \<Longrightarrow> has_type TFlexInt (fst (FlexInt_UnmarshalJSON j x))"
  by (auto simp: FlexInt_UnmarshalJSON_def Let_def ParseInt_range int64_range_def split: json.splits option.splits dest: ParseInt_range)

lemma FlexFloat_typed: "has_type TFlexFloat x \<Longrightarrow> has_type TFlexFloat (fst (FlexFloat_UnmarshalJSON F j x))"
  by (auto simp: FlexFloat_UnmarshalJSON_def split: json.splits option.splits)

lemma decode_plain_typed: "has_type u x \<Longrightarrow> has_type u (fst (decode_plain F j u x))"
  by (cases u; cases j)
    (auto simp: decode_plain_def FlexInt_typed FlexFloat_typed split: option.splits dest: ParseInt_range)

lemma map_put_keys: "set (map fst (map_put k v m)) = insert k (set (map fst m))"
proof (induction m)
  case (Cons a m)
  obtain l x where "a = (l, x)" by force
  with Cons show ?case by (simp split: if_splits) blast
qed simp

lemma map_put_sorted: "sorted_wrt (<) (map fst m) \<Longrightarrow> sorted_wrt (<) (map fst (map_put k v m))"
proof (induction m)
  case (Cons a m)
  obtain l x where a: "a = (l, x)" by force
  have "l < y" if "y \<in> set (map fst (map_put k v m))" "l < k" for y
    using that Cons(2) map_put_keys [of k v m] by (auto simp: a)
  with Cons show ?case by (auto simp: a)
qed simp

lemma map_put_all: "list_all (\<lambda>(_, v). P v) m \<Longrightarrow> P v \<Longrightarrow> list_all (\<lambda>(_, v). P v) (map_put k v m)"
  by (induction m) auto

lemma has_fields_get:
  "has_fields fs vs \<Longrightarrow> distinct (map fst fs) \<Longrightarrow> (g, k, om, t) \<in> set fs \<Longrightarrow> has_type t (get_field g vs)"
proof (induction vs arbitrary: fs)
  case (Cons a vs)
  obtain h v where a: "a = (h, v)" by force
  from Cons(2) obtain k' om' t' fs' where fs: "fs = (h, k', om', t') # fs'" "has_type t' v" "has_fields fs' vs"
    by (auto simp: a split: list.splits)
  show ?case
  proof (cases "g = h")
    case True
    then have "t = t'" using Cons(3,4) by (auto simp: fs rev_image_eqI)
    with True fs show ?thesis by (simp add: get_field_def a)
  next
    case False
    then have "get_field g (a # vs) = get_field g vs" by (simp add: get_field_def a)
    with Cons False fs show ?thesis by auto
  qed
qed simp

lemma set_field_Cons: "set_field g v ((h, x) # vs) = (h, if h = g then v else x) # set_field g v vs"
  by (simp add: set_field_def)

lemma has_fields_set:
  "has_fields fs vs \<Longrightarrow> distinct (map fst fs) \<Longrightarrow> (g, k, om, t) \<in> set fs \<Longrightarrow> has_type t v \<Longrightarrow> has_fields fs (set_field g v vs)"
proof (induction vs arbitrary: fs)
  case (Cons a vs)
  obtain h x where a: "a = (h, x)" by force
  from Cons(2) obtain k' om' t' fs' where fs: "fs = (h, k', om', t') # fs'" "has_type t' x" "has_fields fs' vs"
    by (auto simp: a split: list.splits)
  show ?case
  proof (cases "g = h")
    case True
    then have t: "t = t'" "h \<notin> set (map fst fs')" using Cons(3,4) by (auto simp: fs rev_image_eqI)
    have "map fst vs = map fst fs'" using fs(3)
      by (induction vs arbitrary: fs') (auto split: list.splits)
    then have "set_field g v vs = vs" using t(2) True
      by (auto simp: set_field_def intro!: map_idI) (metis fst_conv image_eqI list.set_map)
    with True t fs Cons(5) show ?thesis by (simp add: a set_field_Cons)
  next
    case False
    with Cons fs show ?thesis by (auto simp: a set_field_Cons)
  qed
qed (simp add: set_field_def)

lemma find_field_in: "find_field fs key = Some (g, t) \<Longrightarrow> \<exists>k om. (g, k, om, t) \<in> set fs"
  by (auto simp: find_field_def find_Some_iff split: option.splits) (metis nth_mem)+

lemma decode_typed_all:
  "wf_type t \<Longrightarrow> has_type t v \<Longrightarrow> has_type t (fst (decode F t j v))"
  "wf_type u \<Longrightarrow> list_all (has_type u) olds \<Longrightarrow> list_all (has_type u) (fst (decode_elems F u js olds))"
  "wf_type w \<Longrightarrow> sorted_wrt (<) (map fst m) \<Longrightarrow> list_all (\<lambda>(_, v). has_type w v) m \<Longrightarrow>
     sorted_wrt (<) (map fst (fst (decode_map F w kvs m))) \<and> list_all (\<lambda>(_, v). has_type w v) (fst (decode_map F w kvs m))"
  "wf_type (TStruct fs) \<Longrightarrow> has_fields fs vs \<Longrightarrow> has_fields fs (fst (decode_struct F fs lvs vs))"
proof (induction F t j v and F u js olds and F w kvs m and F fs lvs vs rule: decode_decode_elems_decode_map_decode_struct.induct)
  case (1 F t v)
  then show ?case by (cases t) simp_all
next
  case (5 F t js v)
  have "has_type (base_type t) (fst (case slice_target (base_type t) x of
         Some (w, olds) \<Rightarrow> map_prod VSlice id (decode_elems F w js olds)
       | None \<Rightarrow> decode_plain F (JArr js) (base_type t) x))" if x: "has_type (base_type t) x" for x
  proof (cases "slice_target (base_type t) x")
    case None
    then show ?thesis using x by (simp add: decode_plain_typed)
  next
    case (Some p)
    obtain w olds where p: "p = (w, olds)" by force
    have "wf_type w \<and> list_all (has_type w) olds" using Some p x wf_base [OF 5(2)]
      by (auto simp: slice_target_def split: gotype.splits goval.splits)
    with 5(1) [OF Some p [symmetric]] have "list_all (has_type w) (fst (decode_elems F w js olds))" by blast
    then show ?thesis using Some p by (auto simp: slice_target_def split: gotype.splits)
  qed
  then show ?case using 5(3) by (simp add: at_base_typed)
next
  case (6 F t kvs v)
  have "has_type (base_type t) (fst (case map_target (base_type t) x of
         Some (w, m) \<Rightarrow> map_prod VMap id (decode_map F w kvs m)
       | None \<Rightarrow>
           (case struct_target (base_type t) x of
              Some (fs, vs) \<Rightarrow> map_prod VStruct id (decode_struct F fs kvs vs)
            | None \<Rightarrow> decode_plain F (JObj kvs) (base_type t) x)))" if x: "has_type (base_type t) x" for x
  proof (cases "map_target (base_type t) x")
    case (Some p)
    obtain w m where p: "p = (w, m)" by force
    have "wf_type w \<and> sorted_wrt (<) (map fst m) \<and> list_all (\<lambda>(_, v). has_type w v) m" using Some p x wf_base [OF 6(3)]
      by (auto simp: map_target_def split: gotype.splits goval.splits)
    with 6(2) [OF Some p [symmetric]] have "sorted_wrt (<) (map fst (fst (decode_map F w kvs m))) \<and>
      list_all (\<lambda>(_, v). has_type w v) (fst (decode_map F w kvs m))" by blast
    then show ?thesis using Some p by (auto simp: map_target_def split: gotype.splits)
  next
    case None
    show ?thesis
    proof (cases "struct_target (base_type t) x")
      case Nop: None
      then show ?thesis using x None by (simp add: decode_plain_typed)
    next
      case (Some p)
      obtain fs vs where p: "p = (fs, vs)" by force
      have "wf_type (TStruct fs) \<and> has_fields fs vs" using Some p x wf_base [OF 6(3)]
        by (auto simp: struct_target_def split: gotype.splits goval.splits)
      with 6(1) [OF None Some p [symmetric]] have "has_fields fs (fst (decode_struct F fs kvs vs))" by blast
      then show ?thesis using None Some p by (auto simp: struct_target_def split: gotype.splits)
    qed
  qed
  then show ?case using 6(4) by (simp add: at_base_typed)
next
  case (8 F t j js olds)
  obtain v e where d: "decode F t j (case olds of [] \<Rightarrow> zero t | old # _ \<Rightarrow> old) = (v, e)" by force
  have old: "has_type t (case olds of [] \<Rightarrow> zero t | old # _ \<Rightarrow> old)" "list_all (has_type t) (drop 1 olds)"
    using 8(4) zero_typed by (cases olds; simp)+
  have v: "has_type t v" using 8(1) [OF 8(3) old(1)] d by simp
  show ?case
  proof (cases "e = DAbort")
    case False
    from 8(2) [OF d [symmetric] False 8(3) old(2)] v d False show ?thesis
      by (cases "decode_elems F t js (drop 1 olds)") simp
  qed (use v d old(2) in simp)
next
  case (10 F t raw j kvs m)
  obtain v e where d: "decode F t j (zero t) = (v, e)" by force
  have v: "has_type t v" using 10(1) [OF 10(3) zero_typed] d by simp
  show ?case
  proof (cases "e = DAbort")
    case False
    from 10(2) [OF d [symmetric] False 10(3) map_put_sorted [OF 10(4)] map_put_all [OF 10(5) v]] d False show ?thesis
      by (cases "decode_map F t kvs (map_put (text_of raw) v m)") simp
  qed (use 10(4,5) d in simp)
next
  case (12 F fs raw j kvs vs)
  show ?case
  proof (cases "find_field fs (text_of raw)")
    case None
    with 12(1) [OF None 12(4,5)] show ?thesis by simp
  next
    case (Some p)
    obtain g t where p: "p = (g, t)" by force
    obtain v e where d: "decode F t j (get_field g vs) = (v, e)" by force
    obtain k om where f: "(g, k, om, t) \<in> set fs" using find_field_in Some p by blast
    have wf: "wf_type t" "distinct (map fst fs)" using 12(4) f by (auto simp: list_all_iff)
    have v: "has_type t v" using 12(2) [OF Some p [symmetric] wf(1) has_fields_get [OF 12(5) wf(2) f]] d by simp
    note s = has_fields_set [OF 12(5) wf(2) f v]
    show ?thesis
    proof (cases "e = DAbort")
      case False
      from 12(3) [OF Some p [symmetric] d [symmetric] False 12(4) s] Some p d False show ?thesis
        by (cases "decode_struct F fs kvs (set_field g v vs)") simp
    qed (use s Some p d in simp)
  qed
qed (simp_all add: at_base_typed decode_plain_typed)

lemma decode_typed: "wf_type t \<Longrightarrow> has_type t v \<Longrightarrow> has_type t (fst (decode F t j v))"
  by (rule decode_typed_all(1))

subsection \<open>Reading back what was written\<close>

text \<open>
  The values JSON keeps apart: strings are valid UTF-8, floats are finite, and what \<open>omitempty\<close> leaves
  out is the zero value.
\<close>

function plain_val :: "float_conv \<Rightarrow> gotype \<Rightarrow> goval \<Rightarrow> bool"
  and plain_fields :: "float_conv \<Rightarrow> field_desc list \<Rightarrow> (string \<times> goval) list \<Rightarrow> bool" where
  "plain_val F t VNil \<longleftrightarrow> True"
| "plain_val F t (VBool b) \<longleftrightarrow> True"
| "plain_val F t (VInt i) \<longleftrightarrow> True"
| "plain_val F t (VFloat w) \<longleftrightarrow> FormatFloat F w \<noteq> None"
| "plain_val F t (VStr s) \<longleftrightarrow> utf8_valid s"
| "plain_val F t (VPtr v) \<longleftrightarrow> (case t of TPtr u \<Rightarrow> plain_val F u v | _ \<Rightarrow> False)"
| "plain_val F t (VSlice vs) \<longleftrightarrow>
     (case t of TSlice u \<Rightarrow> list_all (plain_val F u) vs | _ \<Rightarrow> list_all (plain_val F TIface) vs)"
| "plain_val F t (VMap m) \<longleftrightarrow>
     list_all (\<lambda>(k, _). utf8_valid k) m \<and>
     (case t of TMap u \<Rightarrow> list_all (\<lambda>(_, v). plain_val F u v) m | _ \<Rightarrow> list_all (\<lambda>(_, v). plain_val F TIface v) m)"
| "plain_val F t (VStruct vs) \<longleftrightarrow> (case t of TStruct fs \<Rightarrow> plain_fields F fs vs | _ \<Rightarrow> False)"
| "plain_fields F fs [] \<longleftrightarrow> True"
| "plain_fields F fs ((h, v) # vs) \<longleftrightarrow>
     (case fs of
        [] \<Rightarrow> False
      | (g, k, om, t) # fs' \<Rightarrow> plain_val F t v \<and> (om \<and> isEmptyValue t v \<longrightarrow> v = zero t) \<and> plain_fields F fs' vs)"
  by pat_completeness auto

termination
  by (relation "measure (\<lambda>x. case x of Inl (F, t, v) \<Rightarrow> size v | Inr (F, fs, vs) \<Rightarrow> size_list (size_prod (\<lambda>_. 0) size) vs)")
    (auto simp: less_Suc_eq_le dest: size_elem size_member)

lemma text_of_quote: "text_of (quote_string s) = coerce_utf8 s"
  by (simp add: text_of_def unquote_quote)

lemma dec_digits_is_digit: "list_all is_digit (dec_digits n)"
  by (auto simp: list_all_iff is_digit_def of_digit_char dest!: set_dec_digits)

lemma dec_digits_nonempty: "dec_digits n \<noteq> []"
  by (subst dec_digits.simps) simp

lemma ParseInt_FormatInt:
  assumes "int64_range i"
  shows "ParseInt (FormatInt i) = Some i"
proof (cases "i < 0")
  case True
  with assms show ?thesis
    by (simp add: FormatInt_def ParseInt_def dec_digits_is_digit dec_digits_nonempty undigits_dec_digits)
next
  case False
  obtain c r where d: "dec_digits (nat i) = c # r" using dec_digits_nonempty [of "nat i"] by (cases "dec_digits (nat i)") auto
  have "is_digit c" using dec_digits_is_digit [of "nat i"] by (simp add: d)
  then have c: "c \<noteq> CHR ''-''" "c \<noteq> CHR ''+''" by (auto simp: is_digit_def)
  have u: "undigits 0 (c # r) = nat i" using undigits_dec_digits [of "nat i"] by (simp only: d)
  have "list_all is_digit (c # r)" using dec_digits_is_digit [of "nat i"] by (simp only: d)
  then show ?thesis using assms False c u
    by (simp only: FormatInt_def ParseInt_def d list.case Let_def if_False prod.case) simp
qed

lemma digits_run: "list_all is_digit ds \<Longrightarrow> num_run N1 ds = Some N1"
  by (induction ds) auto

lemma dec_digits_lead: "0 < n \<Longrightarrow> \<exists>c r. dec_digits n = c # r \<and> is_digit c \<and> c \<noteq> CHR ''0'' \<and> list_all is_digit r"
proof (induction n rule: dec_digits.induct)
  case (1 n)
  show ?case
  proof (cases "n < 10")
    case True
    then have "of_char (digit_char n) = 48 + n" by (rule of_digit_char)
    with 1 True show ?thesis by (subst dec_digits.simps) (auto simp: is_digit_def)
  next
    case False
    then have "0 < n div 10" by simp
    with 1(1) [OF False] obtain c r where "dec_digits (n div 10) = c # r" "is_digit c" "c \<noteq> CHR ''0''" "list_all is_digit r" by auto
    moreover have "is_digit (digit_char (n mod 10))" by (simp add: is_digit_def of_digit_char)
    ultimately show ?thesis using False by (subst dec_digits.simps) simp
  qed
qed

lemma is_number_nat: "is_number (dec_digits n)" "num_run NNeg (dec_digits n) \<in> {Some N0, Some N1}"
proof -
  have "is_number (dec_digits n) \<and> num_run NNeg (dec_digits n) \<in> {Some N0, Some N1}"
  proof (cases "n = 0")
    case True
    then have "dec_digits n = ''0''" by (subst dec_digits.simps) (simp add: digit_char_def, code_simp)
    then show ?thesis by (simp add: is_number_def num_begin_def num_final_def)
  next
    case False
    then obtain c r where d: "dec_digits n = c # r" "is_digit c" "c \<noteq> CHR ''0''" "list_all is_digit r"
      using dec_digits_lead by blast
    have "c \<noteq> CHR ''-''" using d(2) by (auto simp: is_digit_def)
    with d digits_run [OF d(4)] show ?thesis by (simp add: is_number_def num_begin_def num_final_def)
  qed
  then show "is_number (dec_digits n)" "num_run NNeg (dec_digits n) \<in> {Some N0, Some N1}" by auto
qed

lemma is_number_FormatInt: "is_number (FormatInt i)"
  using is_number_nat(1) [of "nat i"] is_number_nat(2) [of "nat (- i)"]
  by (cases "i < 0") (auto simp: FormatInt_def is_number_def [of "CHR ''-'' # _"] num_begin_def num_final_def)

lemma at_base_ptr:
  "at_base (TPtr t) v f = map_prod VPtr id (at_base t (case v of VPtr x \<Rightarrow> x | _ \<Rightarrow> zero t) f)"
  by (simp add: at_base_def split_def)

lemma decode_ptr:
  "j \<noteq> JNull \<Longrightarrow> decode F (TPtr t) j v = map_prod VPtr id (decode F t j (case v of VPtr x \<Rightarrow> x | _ \<Rightarrow> zero t))"
  by (cases j) (simp_all add: at_base_ptr)

lemma map_put_last: "(\<And>a. a \<in> set (map fst m) \<Longrightarrow> a < k) \<Longrightarrow> map_put k v m = m @ [(k, v)]"
proof (induction m)
  case (Cons a m)
  obtain l x where a: "a = (l, x)" by force
  have "l < k" using Cons(2) [of l] by (simp add: a)
  then have "\<not> k < l" "k \<noteq> l" by auto
  with Cons show ?case by (simp add: a)
qed simp

definition zeros :: "field_desc list \<Rightarrow> (string \<times> goval) list" where
  "zeros fs = map (\<lambda>(g, _, _, t). (g, zero t)) fs"

lemma find_field_exact:
  assumes "distinct (map (fst \<circ> snd) (fs0 @ (g, k, om, t) # fs))"
  shows "find_field (fs0 @ (g, k, om, t) # fs) k = Some (g, t)"
proof -
  have "find (\<lambda>(_, k', _, _). k' = k) (fs0 @ (g, k, om, t) # fs) = Some (g, k, om, t)"
    using assms by (induction fs0) (auto simp: split_def)
  then show ?thesis by (simp add: find_field_def)
qed

lemma get_field_at: "g \<notin> set (map fst vs0) \<Longrightarrow> get_field g (vs0 @ (g, v) # vs) = v"
  by (simp add: get_field_def map_add_def map_of_eq_None_iff [THEN iffD2])

lemma set_field_other: "g \<notin> set (map fst vs) \<Longrightarrow> set_field g v vs = vs"
  by (induction vs) (auto simp: set_field_def)

lemma set_field_at:
  assumes "g \<notin> set (map fst vs0)" "g \<notin> set (map fst vs)"
  shows "set_field g v (vs0 @ (g, x) # vs) = vs0 @ (g, v) # vs"
  using set_field_other [OF assms(1)] set_field_other [OF assms(2)] by (simp add: set_field_def)

lemma fst_zeros: "map fst (zeros fs) = map fst fs"
  by (simp add: zeros_def split_def)

text \<open>One field of a struct, the fields before it being done.\<close>

lemma decode_field:
  assumes "distinct (map fst (fs0 @ (g, k, om, t) # fs))" "distinct (map (fst \<circ> snd) (fs0 @ (g, k, om, t) # fs))"
    and "map fst vs0 = map fst fs0" "utf8_valid k" "decode F t j (zero t) = (v, DOk)"
  shows "decode_struct F (fs0 @ (g, k, om, t) # fs) ((quote_string k, j) # kvs) (vs0 @ (g, zero t) # zeros fs) =
    decode_struct F (fs0 @ (g, k, om, t) # fs) kvs ((vs0 @ [(g, v)]) @ zeros fs)"
proof -
  have g: "g \<notin> set (map fst vs0)" "g \<notin> set (map fst (zeros fs))"
    unfolding fst_zeros assms(3) using assms(1) by auto
  have "text_of (quote_string k) = k" using assms(4) by (simp add: text_of_quote coerce_valid)
  with find_field_exact [OF assms(2)] get_field_at [OF g(1)] set_field_at [OF g] assms(5) show ?thesis
    by (simp add: then_err_def split: prod.splits)
qed

lemma at_base_self: "(\<And>u. t \<noteq> TPtr u) \<Longrightarrow> at_base t v f = f t v"
  by (cases t) (auto simp: at_base_def split_def)

text \<open>The members \<open>kvs\<close> fill in the fields \<open>fs\<close> with \<open>xs\<close>, whatever fields come before.\<close>

definition fills :: "float_conv \<Rightarrow> field_desc list \<Rightarrow> (string \<times> json) list \<Rightarrow> (string \<times> goval) list \<Rightarrow> bool" where
  "fills F fs kvs xs \<longleftrightarrow>
     (\<forall>fs0 vs0. distinct (map fst (fs0 @ fs)) \<longrightarrow> distinct (map (fst \<circ> snd) (fs0 @ fs)) \<longrightarrow> map fst vs0 = map fst fs0 \<longrightarrow>
        decode_struct F (fs0 @ fs) kvs (vs0 @ zeros fs) = (vs0 @ xs, DOk))"

lemma fillsD:
  "fills F fs kvs xs \<Longrightarrow> distinct (map fst (fs0 @ fs)) \<Longrightarrow> distinct (map (fst \<circ> snd) (fs0 @ fs)) \<Longrightarrow>
   map fst vs0 = map fst fs0 \<Longrightarrow> decode_struct F (fs0 @ fs) kvs (vs0 @ zeros fs) = (vs0 @ xs, DOk)"
  unfolding fills_def by blast

lemma fills_omit: "fills F fs kvs xs \<Longrightarrow> fills F ((g, k, om, t) # fs) kvs ((g, zero t) # xs)"
  unfolding fills_def [of F "_ # _"]
proof (intro allI impI)
  fix fs0 and vs0 :: "(string \<times> goval) list"
  assume r: "fills F fs kvs xs" and "distinct (map fst (fs0 @ (g, k, om, t) # fs))"
    "distinct (map (fst \<circ> snd) (fs0 @ (g, k, om, t) # fs))" "map fst vs0 = map fst fs0"
  then show "decode_struct F (fs0 @ (g, k, om, t) # fs) kvs (vs0 @ zeros ((g, k, om, t) # fs)) = (vs0 @ (g, zero t) # xs, DOk)"
    using fillsD [OF r, of "fs0 @ [(g, k, om, t)]" "vs0 @ [(g, zero t)]"] by (simp add: zeros_def)
qed

lemma fills_field:
  assumes r: "fills F fs kvs xs" and k: "utf8_valid k" and j: "decode F t j (zero t) = (v, DOk)"
  shows "fills F ((g, k, om, t) # fs) ((quote_string k, j) # kvs) ((g, v) # xs)"
  unfolding fills_def [of F "_ # _"]
proof (intro allI impI)
  fix fs0 and vs0 :: "(string \<times> goval) list"
  assume d: "distinct (map fst (fs0 @ (g, k, om, t) # fs))"
    "distinct (map (fst \<circ> snd) (fs0 @ (g, k, om, t) # fs))" "map fst vs0 = map fst fs0"
  have z: "zeros ((g, k, om, t) # fs) = (g, zero t) # zeros fs" by (simp add: zeros_def)
  show "decode_struct F (fs0 @ (g, k, om, t) # fs) ((quote_string k, j) # kvs) (vs0 @ zeros ((g, k, om, t) # fs)) =
      (vs0 @ (g, v) # xs, DOk)"
    unfolding z decode_field [OF d k j] using fillsD [OF r, of "fs0 @ [(g, k, om, t)]" "vs0 @ [(g, v)]"] d by simp
qed

lemma roundtrip_all:
  "wf_type t \<Longrightarrow> has_type t v \<Longrightarrow> plain_val F t v \<Longrightarrow> float_conv_ok F \<Longrightarrow>
     \<exists>j. to_json F t v = Some j \<and> jok j \<and> decode F t j (zero t) = (v, DOk) \<and> (nillable t \<or> j \<noteq> JNull)"
  "wf_type u \<Longrightarrow> list_all (has_type u) vs \<Longrightarrow> list_all (plain_val F u) vs \<Longrightarrow> float_conv_ok F \<Longrightarrow>
     \<exists>js. to_jsons F u vs = Some js \<and> list_all jok js \<and> decode_elems F u js [] = (vs, DOk)"
  "wf_type w \<Longrightarrow> sorted_wrt (<) (map fst m) \<Longrightarrow> list_all (\<lambda>(_, v). has_type w v) m \<Longrightarrow>
   list_all (\<lambda>(k, _). utf8_valid k) m \<Longrightarrow> list_all (\<lambda>(_, v). plain_val F w v) m \<Longrightarrow> float_conv_ok F \<Longrightarrow>
     \<exists>kvs. to_members F w m = Some kvs \<and> list_all (\<lambda>(k, j). raw_ok k \<and> jok j) kvs \<and>
       (\<forall>m0. (\<forall>a\<in>set (map fst m0). \<forall>b\<in>set (map fst m). a < b) \<longrightarrow> decode_map F w kvs m0 = (m0 @ m, DOk))"
  "list_all (\<lambda>(_, _, _, t). wf_type t) fs \<Longrightarrow> list_all (\<lambda>f. utf8_valid (fst (snd f))) fs \<Longrightarrow>
   has_fields fs xs \<Longrightarrow> plain_fields F fs xs \<Longrightarrow> float_conv_ok F \<Longrightarrow>
     \<exists>kvs. to_fields F fs xs = Some kvs \<and> list_all (\<lambda>(k, j). raw_ok k \<and> jok j) kvs \<and> fills F fs kvs xs"
proof (induction F t v and F u vs and F w m and F fs xs rule: to_json_to_jsons_to_members_to_fields.induct)
  case (1 F t)
  then show ?case by (cases t) (simp_all)
next
  case (2 F t b)
  then show ?case by (auto simp: at_base_self decode_plain_def)
next
  case (3 F t i)
  then show ?case
    by (auto simp: at_base_self decode_plain_def FlexInt_UnmarshalJSON_def ParseInt_FormatInt is_number_FormatInt)
next
  case (4 F t w)
  then obtain l where l: "FormatFloat F w = Some l" by auto
  with 4(4) have "is_number l" "ParseFloat F l = Some w" by (auto simp: float_conv_ok_def)
  with 4 l show ?case by (auto simp: at_base_self decode_plain_def FlexFloat_UnmarshalJSON_def)
next
  case (5 F t s)
  then show ?case by (auto simp: at_base_self decode_plain_def raw_ok_quote text_of_quote coerce_valid)
next
  case (6 F t v)
  then obtain u where u: "t = TPtr u" by (auto split: gotype.splits)
  with 6 obtain j where "to_json F u v = Some j" "jok j" "decode F u j (zero u) = (v, DOk)" "j \<noteq> JNull" by auto
  then show ?case by (simp add: u decode_ptr)
next
  case (7 F t vs)
  then consider (s) u where "t = TSlice u" | (i) "t = TIface" by (auto split: gotype.splits)
  then show ?case
  proof cases
    case s
    with 7(2) [OF s] 7(3-6) show ?thesis by (auto simp: at_base_self slice_target_def list_all_iff)
  next
    case i
    with 7(1) [OF i] 7(3-6) show ?thesis by (auto simp: at_base_self slice_target_def list_all_iff)
  qed
next
  case (8 F t m)
  then consider (s) u where "t = TMap u" | (i) "t = TIface" by (auto split: gotype.splits)
  then show ?case
  proof cases
    case s
    with 8(2) [OF s] 8(3-6) show ?thesis by (auto simp: at_base_self map_target_def list_all_iff)
  next
    case i
    with 8(1) [OF i] 8(3-6) show ?thesis by (auto simp: at_base_self map_target_def list_all_iff)
  qed
next
  case (9 F t vs)
  then obtain fs where t: "t = TStruct fs" by (auto split: gotype.splits)
  have w: "list_all (\<lambda>(_, _, _, t). wf_type t) fs" "list_all (\<lambda>f. utf8_valid (fst (snd f))) fs" "has_fields fs vs"
    "plain_fields F fs vs" using 9(2-4) ascii_key_valid by (auto simp: t list_all_iff)
  from 9(1) [OF t w 9(5)] obtain kvs where k: "to_fields F fs vs = Some kvs"
    "list_all (\<lambda>(k, j). raw_ok k \<and> jok j) kvs" "fills F fs kvs vs" by auto
  have "decode_struct F fs kvs (zeros fs) = (vs, DOk)" using fillsD [OF k(3), of "[]" "[]"] 9(2) by (simp add: t)
  with k(1,2) show ?case
    by (auto simp: t at_base_self map_target_def struct_target_def zeros_def list_all_iff)
next
  case (11 F t v vs)
  then obtain j js where "to_json F t v = Some j" "jok j" "decode F t j (zero t) = (v, DOk)"
    "to_jsons F t vs = Some js" "list_all jok js" "decode_elems F t js [] = (vs, DOk)" by fastforce
  then show ?case by (simp add: then_err_def)
next
  case (13 F t k v m)
  then obtain j where j: "to_json F t v = Some j" "jok j" "decode F t j (zero t) = (v, DOk)" by auto
  from 13(2) [OF j(1)] 13(3-8) obtain kvs where r: "to_members F t m = Some kvs" "list_all (\<lambda>(k, j). raw_ok k \<and> jok j) kvs"
    "\<And>m0. (\<forall>a\<in>set (map fst m0). \<forall>b\<in>set (map fst m). a < b) \<Longrightarrow> decode_map F t kvs m0 = (m0 @ m, DOk)" by auto
  have k: "text_of (quote_string k) = k" using 13(6) by (simp add: text_of_quote coerce_valid)
  have "decode_map F t ((quote_string k, j) # kvs) m0 = (m0 @ (k, v) # m, DOk)"
    if "\<forall>a\<in>set (map fst m0). \<forall>b\<in>set (map fst ((k, v) # m)). a < b" for m0
  proof -
    have p: "map_put k v m0 = m0 @ [(k, v)]" by (rule map_put_last) (use that in auto)
    have "decode_map F t kvs (m0 @ [(k, v)]) = ((m0 @ [(k, v)]) @ m, DOk)"
      by (rule r(3)) (use that 13(4) in auto)
    then show ?thesis using j(3) k p by (simp add: then_err_def)
  qed
  with j r show ?case by (auto simp: raw_ok_quote)
next
  case (15 F fs h v vs)
  then obtain g k om t fs' where fs: "fs = (g, k, om, t) # fs'" by (cases fs) (auto split: prod.splits)
  have prem: "g = h" "has_type t v" "has_fields fs' vs" "plain_val F t v" "om \<and> isEmptyValue t v \<longrightarrow> v = zero t"
    "plain_fields F fs' vs" "wf_type t" "utf8_valid k" "list_all (\<lambda>(_, _, _, t). wf_type t) fs'" "list_all (\<lambda>f. utf8_valid (fst (snd f))) fs'"
    using 15(4-8) by (auto simp: fs)
  show ?case
  proof (cases "om \<and> isEmptyValue t v")
    case True
    from 15(1) [OF fs refl refl refl True prem(9,10,3,6) 15(8)] obtain kvs where
      r: "to_fields F fs' vs = Some kvs" "list_all (\<lambda>(k, j). raw_ok k \<and> jok j) kvs" "fills F fs' kvs vs" by auto
    with True prem(1,5) fills_omit [OF r(3), of g k om t] show ?thesis by (simp add: fs)
  next
    case False
    from 15(2) [OF fs refl refl refl False prem(7,2,4) 15(8)] obtain j where
      j: "to_json F t v = Some j" "jok j" "decode F t j (zero t) = (v, DOk)" by auto
    from 15(3) [OF fs refl refl refl False j(1) prem(9,10,3,6) 15(8)] obtain kvs where
      r: "to_fields F fs' vs = Some kvs" "list_all (\<lambda>(k, j). raw_ok k \<and> jok j) kvs" "fills F fs' kvs vs" by auto
    with False j prem(1) fills_field [OF r(3) prem(8) j(3), of g om] show ?thesis by (auto simp: fs raw_ok_quote)
  qed
qed (simp_all add: fills_def zeros_def)

text \<open>How deep a value nests.\<close>

fun vdepth :: "goval \<Rightarrow> nat" where
  "vdepth (VPtr v) = vdepth v"
| "vdepth (VSlice vs) = Suc (Max (insert 0 (vdepth ` set vs)))"
| "vdepth (VMap m) = Suc (Max (insert 0 ((\<lambda>(_, v). vdepth v) ` set m)))"
| "vdepth (VStruct vs) = Suc (Max (insert 0 ((\<lambda>(_, v). vdepth v) ` set vs)))"
| "vdepth _ = 0"

lemma Max_mono_rel:
  assumes "finite A" "finite B" "\<And>a. a \<in> A \<Longrightarrow> \<exists>b\<in>B. a \<le> b"
  shows "Max (insert (0 :: nat) A) \<le> Max (insert 0 B)"
proof (rule Max.boundedI)
  fix a assume "a \<in> insert 0 A"
  then show "a \<le> Max (insert 0 B)" using assms(2) assms(3) [of a]
    by (auto intro: order_trans Max_ge)
qed (use assms(1) in auto)

lemma depth_arr: "\<forall>j\<in>set js. \<exists>v\<in>set vs. jdepth j \<le> vdepth v \<Longrightarrow> jdepth (JArr js) \<le> vdepth (VSlice vs)"
  unfolding jdepth.simps vdepth.simps Suc_le_mono by (rule Max_mono_rel) auto

lemma depth_obj:
  "\<forall>p\<in>set kvs. \<exists>q\<in>set m. jdepth (snd p) \<le> vdepth (snd q) \<Longrightarrow>
   jdepth (JObj kvs) \<le> vdepth (VMap m) \<and> jdepth (JObj kvs) \<le> vdepth (VStruct m)"
  unfolding jdepth.simps vdepth.simps Suc_le_mono split_def by (intro conjI; rule Max_mono_rel) auto

lemma depth_all:
  "to_json F t v = Some j \<Longrightarrow> jdepth j \<le> vdepth v"
  "to_jsons F u vs = Some js \<Longrightarrow> \<forall>j\<in>set js. \<exists>v\<in>set vs. jdepth j \<le> vdepth v"
  "to_members F w m = Some kvs \<Longrightarrow> \<forall>p\<in>set kvs. \<exists>q\<in>set m. jdepth (snd p) \<le> vdepth (snd q)"
  "to_fields F fs xs = Some kvs \<Longrightarrow> \<forall>p\<in>set kvs. \<exists>q\<in>set xs. jdepth (snd p) \<le> vdepth (snd q)"
proof (induction F t v and F u vs and F w m and F fs xs arbitrary: j and js and kvs and kvs rule: to_json_to_jsons_to_members_to_fields.induct)
  case (7 F t vs)
  from 7(3) obtain js where "t = TIface \<and> to_jsons F TIface vs = Some js \<or> (\<exists>u. t = TSlice u \<and> to_jsons F u vs = Some js)"
    and j: "j = JArr js" by (auto split: gotype.splits)
  then have "\<forall>j\<in>set js. \<exists>v\<in>set vs. jdepth j \<le> vdepth v" using 7(1,2) by blast
  then show ?case unfolding j by (rule depth_arr)
next
  case (8 F t m)
  from 8(3) obtain kvs where "t = TIface \<and> to_members F TIface m = Some kvs \<or> (\<exists>u. t = TMap u \<and> to_members F u m = Some kvs)"
    and j: "j = JObj kvs" by (auto split: gotype.splits)
  then have "\<forall>p\<in>set kvs. \<exists>q\<in>set m. jdepth (snd p) \<le> vdepth (snd q)" using 8(1,2) by blast
  then show ?case unfolding j by (rule depth_obj [THEN conjunct1])
next
  case (9 F t vs)
  from 9(2) obtain fs kvs where t: "t = TStruct fs" "to_fields F fs vs = Some kvs"
    and j: "j = JObj kvs" by (auto split: gotype.splits)
  then have "\<forall>p\<in>set kvs. \<exists>q\<in>set vs. jdepth (snd p) \<le> vdepth (snd q)" using 9(1) [OF t] by blast
  then show ?case unfolding j by (rule depth_obj [THEN conjunct2])
next
  case (11 F t v vs)
  then obtain j js' where "to_json F t v = Some j" "to_jsons F t vs = Some js'" "js = j # js'"
    by (auto simp: bind_eq_Some_conv)
  with 11(1) 11(2) show ?case by auto
next
  case (13 F t k v m)
  then obtain j kvs' where "to_json F t v = Some j" "to_members F t m = Some kvs'" "kvs = (quote_string k, j) # kvs'"
    by (auto simp: bind_eq_Some_conv)
  with 13(1) 13(2) show ?case by auto
next
  case (15 F fs h v vs)
  obtain g k om t fs' where fs: "fs = (g, k, om, t) # fs'" using 15(4) by (cases fs) (auto split: prod.splits)
  show ?case
  proof (cases "om \<and> isEmptyValue t v")
    case True
    with 15(1) [OF fs refl refl refl True] 15(4) show ?thesis by (auto simp: fs)
  next
    case False
    then obtain j kvs' where j: "to_json F t v = Some j" "to_fields F fs' vs = Some kvs'" "kvs = (quote_string k, j) # kvs'"
      using 15(4) by (auto simp: fs bind_eq_Some_conv)
    with 15(2) [OF fs refl refl refl False j(1)] 15(3) [OF fs refl refl refl False j(1) j(2)] show ?thesis by auto
  qed
qed (auto split: gotype.splits if_splits)

lemma Marshal_text:
  assumes "wf_type t" "has_type t v" "plain_val F t v" "float_conv_ok F" "vdepth v \<le> maxNestingDepth"
  obtains j where "Marshal F t v = Some (bytes (pr j))" "jok j" "jdepth j \<le> maxNestingDepth"
    "decode F t j (zero t) = (v, DOk)"
proof -
  obtain j where j: "to_json F t v = Some j" "jok j" "decode F t j (zero t) = (v, DOk)"
    using roundtrip_all(1) [OF assms(1-4)] by blast
  have "jdepth j \<le> maxNestingDepth" using depth_all(1) [OF j(1)] assms(5) by simp
  with j show ?thesis by (intro that) (simp_all add: Marshal_def)
qed

lemma chars_append: "chars (a @ b) = chars a @ chars b"
  by (simp add: chars_def)

text \<open>\<open>Unmarshal\<close> reads back what \<open>Marshal\<close> wrote, also when white space follows it.\<close>

lemma marshal_unmarshal:
  assumes "wf_type t" "has_type t v" "plain_val F t v" "float_conv_ok F" "vdepth v \<le> maxNestingDepth"
  shows "\<exists>b. Marshal F t v = Some b \<and>
    (\<forall>ws. list_all is_space (chars ws) \<longrightarrow> Unmarshal F t (b @ ws) (zero t) = (v, None))"
proof -
  obtain j where j: "Marshal F t v = Some (bytes (pr j))" "jok j" "jdepth j \<le> maxNestingDepth"
    "decode F t j (zero t) = (v, DOk)" by (rule Marshal_text [OF assms])
  with parse_pr [OF j(2,3)] show ?thesis by (auto simp: Unmarshal_def chars_append)
qed

end
