(* ===== verification/BeModel.thy ===== *)
theory BeModel
  imports GoJsonProps
begin

text \<open>
  \<open>gDoc_backend/model\<close>: the structs of a sheet and of the update messages, as descriptions of Go types
  with their JSON names and \<open>omitempty\<close> options. Every description is well formed
  (\<open>wf_SheetT\<close>, \<open>wf_updates\<close>), so that the results on \<open>encoding/json\<close> apply to it. An embedded
  struct is listed with its promoted fields.
\<close>

subsection \<open>\<open>sheet.go\<close>\<close>

definition MergeCellT :: gotype where
  "MergeCellT = TStruct [
       (''C'', ''c'', True, TInt), (''Cs'', ''cs'', True, TInt), (''R'', ''r'', True, TInt),
       (''Rs'', ''rs'', True, TInt)]"

definition PST :: gotype where
  "PST = TStruct [
       (''Height'', ''height'', True, TInt), (''Width'', ''width'', True, TInt),
       (''Left'', ''left'', True, TInt), (''Top'', ''top'', True, TInt), (''IsShow'', ''isshow'', True, TBool),
       (''Value'', ''value'', True, TString)]"

definition CellTypeT :: gotype where
  "CellTypeT = TStruct [
       (''Fa'', ''fa'', True, TString),
       (''S'', ''s'', True, TSlice (TStruct [
         (''Bl'', ''bl'', True, TInt), (''Cl'', ''cl'', True, TInt), (''Fc'', ''fc'', True, TString),
         (''Ff'', ''ff'', True, TString), (''Fs'', ''fs'', True, TIface), (''It'', ''it'', True, TInt),
         (''Un'', ''un'', True, TInt), (''V'', ''v'', True, TString)])),
       (''T'', ''t'', True, TString)]"

definition CellValueT :: gotype where
  "CellValueT = TStruct [
       (''Bg'', ''bg'', True, TString), (''Bl'', ''bl'', True, TInt), (''Cl'', ''cl'', True, TInt),
       (''Ct'', ''ct'', True, TPtr CellTypeT), (''F'', ''f'', True, TString), (''Fc'', ''fc'', True, TString),
       (''Ff'', ''ff'', True, TString), (''Fs'', ''fs'', True, TIface), (''It'', ''it'', True, TInt),
       (''M'', ''m'', True, TString), (''Mc'', ''mc'', True, TPtr MergeCellT), (''Tb'', ''tb'', True, TString),
       (''Tr'', ''tr'', True, TIface), (''V'', ''v'', True, TIface), (''Ht'', ''ht'', True, TIface),
       (''Vt'', ''vt'', True, TIface), (''Rt'', ''rt'', True, TIface), (''Ps'', ''ps'', True, TPtr PST)]"

definition Cell_fields :: "field_desc list" where
  "Cell_fields = [
       (''C'', ''c'', False, TFlexInt), (''R'', ''r'', False, TFlexInt), (''V'', ''v'', True, CellValueT)]"

definition CellT :: gotype where
  "CellT = TStruct Cell_fields"

definition BorderValueStyleT :: gotype where
  "BorderValueStyleT = TStruct [
       (''Color'', ''color'', True, TString), (''Style'', ''style'', True, TInt)]"

definition BorderT :: gotype where
  "BorderT = TStruct [
       (''BorderType'', ''borderType'', True, TString), (''Color'', ''color'', True, TString),
       (''Range'', ''range'', True, TSlice (TStruct [
         (''Column'', ''column'', True, TSlice TInt), (''Row'', ''row'', True, TSlice TInt)])),
       (''RangeType'', ''rangeType'', True, TString), (''Style'', ''style'', True, TString),
       (''Value'', ''value'', True, TStruct [
         (''RowIndex'', ''row_index'', True, TInt), (''ColIndex'', ''col_index'', True, TInt),
         (''B'', ''b'', True, BorderValueStyleT), (''L'', ''l'', True, BorderValueStyleT),
         (''R'', ''r'', True, BorderValueStyleT), (''T'', ''t'', True, BorderValueStyleT)])]"

definition ConfigMergeT :: gotype where
  "ConfigMergeT = TStruct [
       (''C'', ''c'', True, TInt), (''Cs'', ''cs'', True, TInt), (''R'', ''r'', True, TInt),
       (''Rs'', ''rs'', True, TInt)]"

definition SheetConfigT :: gotype where
  "SheetConfigT = TStruct [
       (''BorderInfo'', ''borderInfo'', True, TSlice BorderT), (''Columnlen'', ''columnlen'', True, TMap TFloat),
       (''CurentsheetView'', ''curentsheetView'', True, TString),
       (''CustomHeight'', ''customHeight'', True, TMap TFloat),
       (''CustomWidth'', ''customWidth'', True, TMap TFloat), (''Merge'', ''merge'', True, TMap ConfigMergeT),
       (''Rowhidden'', ''rowhidden'', True, TMap TFloat), (''Colhidden'', ''colhidden'', True, TMap TFloat),
       (''Rowlen'', ''rowlen'', True, TMap TFloat),
       (''SheetViewZoom'', ''sheetViewZoom'', True, TStruct [
         (''ViewLayoutZoomScale'', ''viewLayoutZoomScale'', True, TFloat),
         (''ViewNormalZoomScale'', ''viewNormalZoomScale'', True, TFloat),
         (''ViewPageZoomScale'', ''viewPageZoomScale'', True, TFloat)]),
       (''Authority'', ''authority'', True, TIface)]"

definition FilterT :: gotype where
  "FilterT = TStruct [
       (''Caljs'', ''caljs'', True, TStruct [
         (''Text'', ''text'', True, TString), (''Type'', ''type'', True, TString),
         (''Value'', ''value'', True, TString)]),
       (''Cindex'', ''cindex'', True, TFloat), (''Edc'', ''edc'', True, TFloat),
       (''Edr'', ''edr'', True, TFloat), (''Optionstate'', ''optionstate'', True, TBool),
       (''Rowhidden'', ''rowhidden'', True, TMap TFloat), (''Stc'', ''stc'', True, TFloat),
       (''Str'', ''str'', True, TFloat)]"

definition FilterSelectT :: gotype where
  "FilterSelectT = TStruct [
       (''Column'', ''column'', True, TSlice TFloat), (''Row'', ''row'', True, TSlice TFloat),
       (''ColumnFocus'', ''column_focus'', True, TFloat), (''Height'', ''height'', True, TFloat),
       (''HeightMove'', ''height_move'', True, TFloat), (''Left'', ''left'', True, TFloat),
       (''LeftMove'', ''left_move'', True, TFloat), (''RowFocus'', ''row_focus'', True, TFloat),
       (''Top'', ''top'', True, TFloat), (''TopMove'', ''top_move'', True, TFloat),
       (''Width'', ''width'', True, TFloat), (''WidthMove'', ''width_move'', True, TFloat)]"

definition SelectSaveT :: gotype where
  "SelectSaveT = TStruct [
       (''Column'', ''column'', True, TSlice TFloat), (''ColumnFocus'', ''column_focus'', True, TFloat),
       (''Height'', ''height'', True, TFloat), (''HeightMove'', ''height_move'', True, TFloat),
       (''Left'', ''left'', True, TFloat), (''LeftMove'', ''left_move'', True, TFloat),
       (''Row'', ''row'', True, TSlice TFloat), (''RowFocus'', ''row_focus'', True, TFloat),
       (''Top'', ''top'', True, TFloat), (''TopMove'', ''top_move'', True, TFloat),
       (''Width'', ''width'', True, TFloat), (''WidthMove'', ''width_move'', True, TFloat)]"

definition AlternateFormatSaveT :: gotype where
  "AlternateFormatSaveT = TStruct [
       (''Cellrange'', ''cellrange'', True, TStruct [
         (''Column'', ''column'', True, TSlice TInt), (''Row'', ''row'', True, TSlice TInt)]),
       (''Format'', ''format'', True, TStruct [
         (''Foot'', ''foot'', True, TStruct [
           (''Bc'', ''bc'', True, TString), (''Fc'', ''fc'', True, TString)]),
         (''Head'', ''head'', True, TStruct [
           (''Bc'', ''bc'', True, TString), (''Fc'', ''fc'', True, TString)]),
         (''One'', ''one'', True, TStruct [
           (''Bc'', ''bc'', True, TString), (''Fc'', ''fc'', True, TString)]),
         (''Two'', ''two'', True, TStruct [
           (''Bc'', ''bc'', True, TString), (''Fc'', ''fc'', True, TString)])]),
       (''HasRowFooter'', ''hasRowFooter'', True, TBool), (''HasRowHeader'', ''hasRowHeader'', True, TBool)]"

definition AlternateFormatSaveModelCustomT :: gotype where
  "AlternateFormatSaveModelCustomT = TMap (TStruct [
       (''Bc'', ''bc'', True, TString), (''Fc'', ''fc'', True, TString)])"

definition ConditionFormatSaveT :: gotype where
  "ConditionFormatSaveT = TStruct [
       (''Cellrange'', ''cellrange'', True, TSlice (TStruct [
         (''Column'', ''column'', True, TSlice TInt), (''Row'', ''row'', True, TSlice TInt)])),
       (''ConditionName'', ''conditionName'', True, TString),
       (''ConditionRange'', ''conditionRange'', True, TSlice (TStruct [
         (''Column'', ''column'', False, TSlice TInt), (''Row'', ''row'', True, TSlice TInt)])),
       (''ConditionValue'', ''conditionValue'', True, TSlice TInt), (''Format'', ''format'', True, TIface),
       (''Type'', ''type'', True, TString)]"

definition FrozenT :: gotype where
  "FrozenT = TStruct [
       (''Range'', ''range'', True, TStruct [
         (''ColumnFocus'', ''column_focus'', True, TInt), (''RowFocus'', ''row_focus'', True, TInt)]),
       (''Type'', ''type'', True, TString)]"

definition Chart_ChartOptions_DefaultOption_Axis_XAxisDownT :: gotype where
  "Chart_ChartOptions_DefaultOption_Axis_XAxisDownT = TStruct [
       (''Data'', ''data'', True, TSlice TString), (''Inverse'', ''inverse'', True, TBool),
       (''Name'', ''name'', True, TString),
       (''NetArea'', ''netArea'', True, TStruct [
         (''ColorOne'', ''colorOne'', True, TString), (''ColorTwo'', ''colorTwo'', True, TString),
         (''Interval'', ''interval'', True, TStruct [
           (''CusNumber'', ''cusNumber'', True, TInt), (''Value'', ''value'', True, TString)]),
         (''Show'', ''show'', True, TBool)]),
       (''NetLine'', ''netLine'', True, TStruct [
         (''Color'', ''color'', True, TString),
         (''Interval'', ''interval'', True, TStruct [
           (''CusNumber'', ''cusNumber'', True, TInt), (''Value'', ''value'', True, TString)]),
         (''Show'', ''show'', True, TBool), (''Type'', ''type'', True, TString),
         (''Width'', ''width'', True, TInt)]),
       (''Show'', ''show'', True, TBool),
       (''Tick'', ''tick'', True, TStruct [
         (''Color'', ''color'', True, TString), (''Length'', ''length'', True, TInt),
         (''Position'', ''position'', True, TString), (''Show'', ''show'', True, TBool),
         (''Width'', ''width'', True, TInt)]),
       (''TickLabel'', ''tickLabel'', True, TStruct [
         (''Digit'', ''digit'', True, TString), (''Distance'', ''distance'', True, TInt),
         (''Label'', ''label'', True, TStruct [
           (''Color'', ''color'', True, TString), (''CusFontSize'', ''cusFontSize'', True, TInt),
           (''FontFamily'', ''fontFamily'', True, TString), (''FontGroup'', ''fontGroup'', True, TSlice TIface),
           (''FontSize'', ''fontSize'', True, TInt)]),
         (''Max'', ''max'', True, TIface), (''Min'', ''min'', True, TIface),
         (''Optimize'', ''optimize'', True, TInt), (''Prefix'', ''prefix'', True, TString),
         (''Ratio'', ''ratio'', True, TInt), (''Rotate'', ''rotate'', True, TInt),
         (''Show'', ''show'', True, TBool), (''Suffix'', ''suffix'', True, TString)]),
       (''TickLine'', ''tickLine'', True, TStruct [
         (''Color'', ''color'', True, TString), (''Show'', ''show'', True, TBool),
         (''Width'', ''width'', True, TInt)]),
       (''Title'', ''title'', True, TStruct [
         (''FzPosition'', ''fzPosition'', True, TString),
         (''Label'', ''label'', True, TStruct [
           (''Color'', ''color'', True, TString), (''CusFontSize'', ''cusFontSize'', True, TInt),
           (''FontFamily'', ''fontFamily'', True, TString), (''FontGroup'', ''fontGroup'', True, TSlice TIface),
           (''FontSize'', ''fontSize'', True, TInt)]),
         (''NameGap'', ''nameGap'', True, TInt), (''Rotate'', ''rotate'', True, TInt),
         (''ShowTitle'', ''showTitle'', True, TBool), (''Text'', ''text'', True, TString)]),
       (''Type'', ''type'', True, TString)]"

definition Chart_ChartOptions_DefaultOption_Axis_XAxisUpT :: gotype where
  "Chart_ChartOptions_DefaultOption_Axis_XAxisUpT = TStruct [
       (''AxisLine'', ''axisLine'', True, TStruct [
         (''OnZero'', ''onZero'', True, TBool)]),
       (''Inverse'', ''inverse'', True, TBool), (''Name'', ''name'', True, TString),
       (''NetArea'', ''netArea'', True, TStruct [
         (''ColorOne'', ''colorOne'', True, TString), (''ColorTwo'', ''colorTwo'', True, TString),
         (''Interval'', ''interval'', True, TStruct [
           (''CusNumber'', ''cusNumber'', True, TInt), (''Value'', ''value'', True, TString)]),
         (''Show'', ''show'', True, TBool)]),
       (''NetLine'', ''netLine'', True, TStruct [
         (''Color'', ''color'', True, TString),
         (''Interval'', ''interval'', True, TStruct [
           (''CusNumber'', ''cusNumber'', True, TInt), (''Value'', ''value'', True, TString)]),
         (''Show'', ''show'', True, TBool), (''Type'', ''type'', True, TString),
         (''Width'', ''width'', True, TInt)]),
       (''Show'', ''show'', True, TBool),
       (''Tick'', ''tick'', True, TStruct [
         (''Color'', ''color'', True, TString), (''Length'', ''length'', True, TInt),
         (''Position'', ''position'', True, TString), (''Show'', ''show'', True, TBool),
         (''Width'', ''width'', True, TInt)]),
       (''TickLabel'', ''tickLabel'', True, TStruct [
         (''Digit'', ''digit'', True, TString), (''Distance'', ''distance'', True, TInt),
         (''Label'', ''label'', True, TStruct [
           (''Color'', ''color'', True, TString), (''CusFontSize'', ''cusFontSize'', True, TInt),
           (''FontFamily'', ''fontFamily'', True, TString), (''FontGroup'', ''fontGroup'', True, TSlice TIface),
           (''FontSize'', ''fontSize'', True, TInt)]),
         (''Max'', ''max'', True, TString), (''Min'', ''min'', True, TString),
         (''Optimize'', ''optimize'', True, TInt), (''Prefix'', ''prefix'', True, TString),
         (''Ratio'', ''ratio'', True, TInt), (''Rotate'', ''rotate'', True, TInt),
         (''Show'', ''show'', True, TBool), (''Suffix'', ''suffix'', True, TString)]),
       (''TickLine'', ''tickLine'', True, TStruct [
         (''Color'', ''color'', True, TString), (''Show'', ''show'', True, TBool),
         (''Width'', ''width'', True, TInt)]),
       (''Title'', ''title'', True, TStruct [
         (''FzPosition'', ''fzPosition'', True, TString),
         (''Label'', ''label'', True, TStruct [
           (''Color'', ''color'', True, TString), (''CusFontSize'', ''cusFontSize'', True, TInt),
           (''FontFamily'', ''fontFamily'', True, TString), (''FontGroup'', ''fontGroup'', True, TSlice TIface),
           (''FontSize'', ''fontSize'', True, TInt)]),
         (''NameGap'', ''nameGap'', True, TInt), (''Rotate'', ''rotate'', True, TInt),
         (''ShowTitle'', ''showTitle'', True, TBool), (''Text'', ''text'', True, TString)])]"

definition Chart_ChartOptions_DefaultOption_Axis_YAxisLeft_TickLabelT :: gotype where
  "Chart_ChartOptions_DefaultOption_Axis_YAxisLeft_TickLabelT = TStruct [
       (''Digit'', ''digit'', True, TString), (''Distance'', ''distance'', True, TInt),
       (''Formatter'', ''formatter'', True, TStruct [
         (''Digit'', ''digit'', True, TString), (''Prefix'', ''prefix'', True, TString),
         (''Ratio'', ''ratio'', True, TInt), (''Suffix'', ''suffix'', True, TString)]),
       (''Label'', ''label'', True, TStruct [
         (''Color'', ''color'', True, TString), (''CusFontSize'', ''cusFontSize'', True, TInt),
         (''FontFamily'', ''fontFamily'', True, TString), (''FontGroup'', ''fontGroup'', True, TSlice TIface),
         (''FontSize'', ''fontSize'', True, TInt)]),
       (''Max'', ''max'', True, TIface), (''Min'', ''min'', True, TIface),
       (''Prefix'', ''prefix'', True, TString), (''Ratio'', ''ratio'', True, TInt),
       (''Rotate'', ''rotate'', True, TInt), (''Show'', ''show'', True, TBool),
       (''Split'', ''split'', True, TInt), (''Suffix'', ''suffix'', True, TString)]"

definition Chart_ChartOptions_DefaultOption_Axis_YAxisLeftT :: gotype where
  "Chart_ChartOptions_DefaultOption_Axis_YAxisLeftT = TStruct [
       (''Inverse'', ''inverse'', True, TBool), (''Name'', ''name'', True, TString),
       (''NetArea'', ''netArea'', True, TStruct [
         (''ColorOne'', ''colorOne'', True, TString), (''ColorTwo'', ''colorTwo'', True, TString),
         (''Interval'', ''interval'', True, TStruct [
           (''CusNumber'', ''cusNumber'', True, TInt), (''Value'', ''value'', True, TString)]),
         (''Show'', ''show'', True, TBool)]),
       (''NetLine'', ''netLine'', True, TStruct [
         (''Color'', ''color'', True, TString),
         (''Interval'', ''interval'', True, TStruct [
           (''CusNumber'', ''cusNumber'', True, TInt), (''Value'', ''value'', True, TString)]),
         (''Show'', ''show'', True, TBool), (''Type'', ''type'', True, TString),
         (''Width'', ''width'', True, TInt)]),
       (''Show'', ''show'', True, TBool),
       (''Tick'', ''tick'', True, TStruct [
         (''Color'', ''color'', True, TString), (''Length'', ''length'', True, TInt),
         (''Position'', ''position'', True, TString), (''Show'', ''show'', True, TBool),
         (''Width'', ''width'', True, TInt)]),
       (''TickLabel'', ''tickLabel'', True, Chart_ChartOptions_DefaultOption_Axis_YAxisLeft_TickLabelT),
       (''TickLine'', ''tickLine'', True, TStruct [
         (''Color'', ''color'', True, TString), (''Show'', ''show'', True, TBool),
         (''Width'', ''width'', True, TInt)]),
       (''Title'', ''title'', True, TStruct [
         (''FzPosition'', ''fzPosition'', True, TString),
         (''Label'', ''label'', True, TStruct [
           (''Color'', ''color'', True, TString), (''CusFontSize'', ''cusFontSize'', True, TInt),
           (''FontFamily'', ''fontFamily'', True, TString), (''FontGroup'', ''fontGroup'', True, TSlice TIface),
           (''FontSize'', ''fontSize'', True, TInt)]),
         (''NameGap'', ''nameGap'', True, TInt), (''Rotate'', ''rotate'', True, TInt),
         (''ShowTitle'', ''showTitle'', True, TBool), (''Text'', ''text'', True, TString)]),
       (''Type'', ''type'', True, TString)]"

definition Chart_ChartOptions_DefaultOption_Axis_YAxisRight_TickLabelT :: gotype where
  "Chart_ChartOptions_DefaultOption_Axis_YAxisRight_TickLabelT = TStruct [
       (''Digit'', ''digit'', True, TString), (''Distance'', ''distance'', True, TInt),
       (''Formatter'', ''formatter'', True, TStruct [
         (''Digit'', ''digit'', True, TString), (''Prefix'', ''prefix'', True, TString),
         (''Ratio'', ''ratio'', True, TInt), (''Suffix'', ''suffix'', True, TString)]),
       (''Label'', ''label'', True, TStruct [
         (''Color'', ''color'', True, TString), (''CusFontSize'', ''cusFontSize'', True, TInt),
         (''FontFamily'', ''fontFamily'', True, TString), (''FontGroup'', ''fontGroup'', True, TSlice TIface),
         (''FontSize'', ''fontSize'', True, TInt)]),
       (''Max'', ''max'', True, TIface), (''Min'', ''min'', True, TIface),
       (''Prefix'', ''prefix'', True, TString), (''Ratio'', ''ratio'', True, TInt),
       (''Rotate'', ''rotate'', True, TInt), (''Show'', ''show'', True, TBool),
       (''Split'', ''split'', True, TInt), (''Suffix'', ''suffix'', True, TString)]"

definition Chart_ChartOptions_DefaultOption_Axis_YAxisRightT :: gotype where
  "Chart_ChartOptions_DefaultOption_Axis_YAxisRightT = TStruct [
       (''Inverse'', ''inverse'', True, TBool), (''Name'', ''name'', True, TString),
       (''NetArea'', ''netArea'', True, TStruct [
         (''ColorOne'', ''colorOne'', True, TString), (''ColorTwo'', ''colorTwo'', True, TString),
         (''Interval'', ''interval'', True, TStruct [
           (''CusNumber'', ''cusNumber'', True, TInt), (''Value'', ''value'', True, TString)]),
         (''Show'', ''show'', True, TBool)]),
       (''NetLine'', ''netLine'', True, TStruct [
         (''Color'', ''color'', True, TString),
         (''Interval'', ''interval'', True, TStruct [
           (''CusNumber'', ''cusNumber'', True, TInt), (''Value'', ''value'', True, TString)]),
         (''Show'', ''show'', True, TBool), (''Type'', ''type'', True, TString),
         (''Width'', ''width'', True, TInt)]),
       (''Show'', ''show'', True, TBool),
       (''Tick'', ''tick'', True, TStruct [
         (''Color'', ''color'', True, TString), (''Length'', ''length'', True, TInt),
         (''Position'', ''position'', True, TString), (''Show'', ''show'', True, TBool),
         (''Width'', ''width'', True, TInt)]),
       (''TickLabel'', ''tickLabel'', True, Chart_ChartOptions_DefaultOption_Axis_YAxisRight_TickLabelT),
       (''TickLine'', ''tickLine'', True, TStruct [
         (''Color'', ''color'', True, TString), (''Show'', ''show'', True, TBool),
         (''Width'', ''width'', True, TInt)]),
       (''Title'', ''title'', True, TStruct [
         (''FzPosition'', ''fzPosition'', True, TString),
         (''Label'', ''label'', True, TStruct [
           (''Color'', ''color'', True, TString), (''CusFontSize'', ''cusFontSize'', True, TInt),
           (''FontFamily'', ''fontFamily'', True, TString), (''FontGroup'', ''fontGroup'', True, TSlice TIface),
           (''FontSize'', ''fontSize'', True, TInt)]),
         (''NameGap'', ''nameGap'', True, TInt), (''Rotate'', ''rotate'', True, TInt),
         (''ShowTitle'', ''showTitle'', True, TBool), (''Text'', ''text'', True, TString)])]"

definition Chart_ChartOptions_DefaultOption_AxisT :: gotype where
  "Chart_ChartOptions_DefaultOption_AxisT = TStruct [
       (''AxisType'', ''axisType'', True, TString),
       (''XAxisDown'', ''xAxisDown'', True, Chart_ChartOptions_DefaultOption_Axis_XAxisDownT),
       (''XAxisUp'', ''xAxisUp'', True, Chart_ChartOptions_DefaultOption_Axis_XAxisUpT),
       (''YAxisLeft'', ''yAxisLeft'', True, Chart_ChartOptions_DefaultOption_Axis_YAxisLeftT),
       (''YAxisRight'', ''yAxisRight'', True, Chart_ChartOptions_DefaultOption_Axis_YAxisRightT)]"

definition Chart_ChartOptions_DefaultOption_LegendT :: gotype where
  "Chart_ChartOptions_DefaultOption_LegendT = TStruct [
       (''Data'', ''data'', True, TSlice TString),
       (''Distance'', ''distance'', True, TStruct [
         (''CusGap'', ''cusGap'', True, TInt), (''Value'', ''value'', True, TString)]),
       (''Height'', ''height'', True, TStruct [
         (''CusSize'', ''cusSize'', True, TInt), (''Value'', ''value'', True, TString)]),
       (''ItemGap'', ''itemGap'', True, TInt),
       (''Label'', ''label'', True, TStruct [
         (''Color'', ''color'', True, TString), (''CusFontSize'', ''cusFontSize'', True, TInt),
         (''FontFamily'', ''fontFamily'', True, TString), (''FontGroup'', ''fontGroup'', True, TSlice TIface),
         (''FontSize'', ''fontSize'', True, TInt)]),
       (''Position'', ''position'', True, TStruct [
         (''Direction'', ''direction'', True, TString), (''OffsetX'', ''offsetX'', True, TInt),
         (''OffsetY'', ''offsetY'', True, TInt), (''Value'', ''value'', True, TString)]),
       (''SelectMode'', ''selectMode'', True, TString),
       (''Selected'', ''selected'', True, TSlice (TStruct [
         (''IsShow'', ''isShow'', True, TBool), (''SeriesName'', ''seriesName'', True, TString)])),
       (''Show'', ''show'', True, TBool),
       (''Width'', ''width'', True, TStruct [
         (''CusSize'', ''cusSize'', True, TInt), (''Value'', ''value'', True, TString)])]"

definition Chart_ChartOptions_DefaultOption_TooltipT :: gotype where
  "Chart_ChartOptions_DefaultOption_TooltipT = TStruct [
       (''AxisPointer'', ''axisPointer'', True, TStruct [
         (''Style'', ''style'', True, TStruct [
           (''Color'', ''color'', True, TString), (''Type'', ''type'', True, TString),
           (''Width'', ''width'', True, TString)]),
         (''Type'', ''type'', True, TString)]),
       (''BackgroundColor'', ''backgroundColor'', True, TString),
       (''Format'', ''format'', True, TSlice (TStruct [
         (''Digit'', ''digit'', True, TString), (''Prefix'', ''prefix'', True, TString),
         (''Ratio'', ''ratio'', True, TInt), (''SeriesName'', ''seriesName'', True, TString),
         (''Suffix'', ''suffix'', True, TString)])),
       (''Label'', ''label'', True, TStruct [
         (''Color'', ''color'', True, TString), (''CusFontSize'', ''cusFontSize'', True, TInt),
         (''FontFamily'', ''fontFamily'', True, TString), (''FontGroup'', ''fontGroup'', True, TSlice TIface),
         (''FontSize'', ''fontSize'', True, TInt)]),
       (''Position'', ''position'', True, TString), (''Show'', ''show'', True, TBool),
       (''TriggerOn'', ''triggerOn'', True, TString), (''TriggerType'', ''triggerType'', True, TString)]"

definition Chart_ChartOptions_DefaultOptionT :: gotype where
  "Chart_ChartOptions_DefaultOptionT = TStruct [
       (''Axis'', ''axis'', True, Chart_ChartOptions_DefaultOption_AxisT),
       (''Config'', ''config'', True, TStruct [
         (''Color'', ''color'', True, TString), (''FontFamily'', ''fontFamily'', True, TString),
         (''Grid'', ''grid'', True, TStruct [
           (''Bottom'', ''bottom'', True, TInt), (''Left'', ''left'', True, TInt),
           (''Right'', ''right'', True, TInt), (''Top'', ''top'', True, TInt),
           (''Value'', ''value'', True, TString)])]),
       (''Legend'', ''legend'', True, Chart_ChartOptions_DefaultOption_LegendT),
       (''Subtitle'', ''subtitle'', True, TStruct [
         (''Distance'', ''distance'', True, TStruct [
           (''CusGap'', ''cusGap'', True, TInt), (''Value'', ''value'', True, TString)]),
         (''Label'', ''label'', True, TStruct [
           (''Color'', ''color'', True, TString), (''CusFontSize'', ''cusFontSize'', True, TInt),
           (''FontFamily'', ''fontFamily'', True, TString), (''FontGroup'', ''fontGroup'', True, TSlice TIface),
           (''FontSize'', ''fontSize'', True, TInt)]),
         (''Show'', ''show'', True, TBool), (''Text'', ''text'', True, TString)]),
       (''Title'', ''title'', True, TStruct [
         (''Label'', ''label'', True, TStruct [
           (''Color'', ''color'', True, TString), (''CusFontSize'', ''cusFontSize'', True, TInt),
           (''FontFamily'', ''fontFamily'', True, TString), (''FontGroup'', ''fontGroup'', True, TSlice TIface),
           (''FontSize'', ''fontSize'', True, TInt)]),
         (''Position'', ''position'', True, TStruct [
           (''OffsetX'', ''offsetX'', True, TInt), (''OffsetY'', ''offsetY'', True, TInt),
           (''Value'', ''value'', True, TString)]),
         (''Show'', ''show'', True, TBool), (''Text'', ''text'', True, TString)]),
       (''Tooltip'', ''tooltip'', True, Chart_ChartOptions_DefaultOption_TooltipT)]"

definition Chart_ChartOptionsT :: gotype where
  "Chart_ChartOptionsT = TStruct [
       (''ChartAllType'', ''chartAllType'', True, TString), (''ChartID'', ''chart_id'', True, TString),
       (''DefaultOption'', ''defaultOption'', True, Chart_ChartOptions_DefaultOptionT),
       (''RangeArray'', ''rangeArray'', True, TSlice (TStruct [
         (''Column'', ''column'', True, TSlice TInt), (''Row'', ''row'', True, TSlice TInt)])),
       (''RangeColCheck'', ''rangeColCheck'', True, TStruct [
         (''Exits'', ''exits'', True, TBool), (''Range'', ''range'', True, TSlice TInt)]),
       (''RangeConfigCheck'', ''rangeConfigCheck'', True, TBool),
       (''RangeRowCheck'', ''rangeRowCheck'', True, TStruct [
         (''Exits'', ''exits'', True, TBool), (''Range'', ''range'', True, TSlice TInt)])]"

definition ChartT :: gotype where
  "ChartT = TStruct [
       (''ChartOptions'', ''chartOptions'', True, Chart_ChartOptionsT),
       (''ChartID'', ''chart_id'', True, TString), (''Height'', ''height'', True, TInt),
       (''IsShow'', ''isShow'', True, TBool), (''Left'', ''left'', True, TInt),
       (''NeedRangeShow'', ''needRangeShow'', True, TBool), (''SheetIndex'', ''sheetIndex'', True, TString),
       (''Top'', ''top'', True, TInt), (''Width'', ''width'', True, TInt)]"

definition ImageT :: gotype where
  "ImageT = TStruct [
       (''Border'', ''border'', True, TStruct [
         (''Color'', ''color'', True, TString), (''Radius'', ''radius'', True, TInt),
         (''Style'', ''style'', True, TString), (''Width'', ''width'', True, TInt)]),
       (''Crop'', ''crop'', True, TStruct [
         (''Height'', ''height'', True, TInt), (''OffsetLeft'', ''offsetLeft'', True, TInt),
         (''OffsetTop'', ''offsetTop'', True, TInt), (''Width'', ''width'', True, TInt)]),
       (''Default'', ''default'', True, TStruct [
         (''Height'', ''height'', True, TInt), (''Left'', ''left'', True, TInt), (''Top'', ''top'', True, TInt),
         (''Width'', ''width'', True, TInt)]),
       (''FixedLeft'', ''fixedLeft'', True, TInt), (''FixedTop'', ''fixedTop'', True, TInt),
       (''IsFixedPos'', ''isFixedPos'', True, TBool), (''OriginHeight'', ''originHeight'', True, TInt),
       (''OriginWidth'', ''originWidth'', True, TInt), (''Src'', ''src'', True, TString),
       (''Type'', ''type'', True, TString)]"

definition PivotTableT :: gotype where
  "PivotTableT = TStruct [
       (''Column'', ''column'', True, TSlice (TStruct [
         (''Fullname'', ''fullname'', True, TString), (''Index'', ''index'', True, TInt),
         (''Name'', ''name'', False, TString)])),
       (''DrawPivotTable'', ''drawPivotTable'', True, TBool), (''Filter'', ''filter'', True, TSlice TIface),
       (''PivotDataSheetIndex'', ''pivotDataSheetIndex'', True, TInt),
       (''PivotDatas'', ''pivotDatas'', True, TSlice (TSlice TInt)),
       (''PivotTableBoundary'', ''pivotTableBoundary'', True, TSlice TInt),
       (''PivotSelectSave'', ''pivot_select_save'', True, TStruct [
         (''Column'', ''column'', True, TSlice TInt), (''Row'', ''row'', True, TSlice TInt)]),
       (''Row'', ''row'', True, TSlice (TStruct [
         (''Fullname'', ''fullname'', True, TString), (''Index'', ''index'', True, TInt),
         (''Name'', ''name'', True, TString)])),
       (''ShowType'', ''showType'', True, TString),
       (''Values'', ''values'', True, TSlice (TStruct [
         (''Fullname'', ''fullname'', True, TString), (''Index'', ''index'', True, TInt),
         (''Name'', ''name'', True, TString), (''Nameindex'', ''nameindex'', True, TInt),
         (''Sumtype'', ''sumtype'', True, TString)]))]"

definition CalcChainT :: gotype where
  "CalcChainT = TStruct [
       (''C'', ''c'', True, TInt), (''Chidren'', ''chidren'', True, TStruct []),
       (''Color'', ''color'', True, TString), (''Func'', ''func'', True, TSlice TIface),
       (''Index'', ''index'', True, TString), (''Parent'', ''parent'', True, TIface), (''R'', ''r'', True, TInt),
       (''Times'', ''times'', True, TInt)]"

definition DynamicArrayT :: gotype where
  "DynamicArrayT = TStruct [
       (''C'', ''c'', True, TInt), (''Data'', ''data'', True, TSlice (TSlice TInt)),
       (''F'', ''f'', True, TString), (''R'', ''r'', True, TInt)]"

subsection \<open>\<open>model.go\<close>\<close>

definition SheetT :: gotype where
  "SheetT = TStruct [
       (''CalcChain'', ''calcChain'', True, TSlice CalcChainT), (''Celldata'', ''celldata'', True, TSlice CellT),
       (''ChWidth'', ''ch_width'', True, TInt), (''Column'', ''column'', True, TInt),
       (''Config'', ''config'', True, TPtr SheetConfigT), (''Index'', ''index'', False, TString),
       (''Color'', ''color'', False, TString),
       (''LuckysheetSelectSave'', ''luckysheet_select_save'', True, TSlice SelectSaveT),
       (''Name'', ''name'', False, TString), (''Order'', ''order'', False, TInt),
       (''RhHeight'', ''rh_height'', True, TInt), (''Row'', ''row'', True, TInt),
       (''ScrollLeft'', ''scrollLeft'', True, TInt), (''ScrollTop'', ''scrollTop'', True, TInt),
       (''Status'', ''status'', False, TFlexInt), (''ShowGridLines'', ''showGridLines'', True, TInt),
       (''ZoomRatio'', ''zoomRatio'', True, TFloat), (''Filter'', ''filter'', True, TMap FilterT),
       (''FilterSelect'', ''filter_select'', True, TPtr FilterSelectT), (''Images'', ''images'', True, TIface),
       (''AlternateFormatSave'', ''luckysheet_alternateformat_save'', True, TSlice AlternateFormatSaveT),
       (''AlternateFormatSaveModelCustom'', ''luckysheet_alternateformat_save_modelCustom'', True, TSlice AlternateFormatSaveModelCustomT),
       (''ConditionFormatSave'', ''luckysheet_conditionformat_save'', True, TSlice ConditionFormatSaveT),
       (''Frozen'', ''frozen'', True, TPtr FrozenT), (''Chart'', ''chart'', True, TSlice ChartT),
       (''Image'', ''image'', True, TSlice ImageT), (''IsPivotTable'', ''isPivotTable'', True, TBool),
       (''PivotTable'', ''pivotTable'', True, TPtr PivotTableT),
       (''DynamicArray'', ''dynamicArray'', True, TSlice DynamicArrayT)]"

subsection \<open>\<open>update.go\<close>\<close>

definition UpdateVT :: gotype where
  "UpdateVT = TStruct (Cell_fields @ [
       (''I'', ''i'', False, TString), (''T'', ''t'', False, TString)])"

definition UpdateRVT :: gotype where
  "UpdateRVT = TStruct [
       (''I'', ''i'', False, TString),
       (''Range'', ''range'', False, TStruct [
         (''Column'', ''column'', False, TSlice TInt), (''Row'', ''row'', False, TSlice TInt)]),
       (''T'', ''t'', False, TString), (''V'', ''v'', False, TSlice (TSlice CellValueT))]"

definition UpdateCGT :: gotype where
  "UpdateCGT = TStruct [
       (''T'', ''t'', False, TString), (''I'', ''i'', False, TString), (''K'', ''k'', False, TString),
       (''V'', ''v'', False, TIface)]"

definition UpdateCommonT :: gotype where
  "UpdateCommonT = TStruct [
       (''T'', ''t'', False, TString), (''I'', ''i'', False, TString), (''K'', ''k'', False, TString),
       (''V'', ''v'', False, TIface)]"

definition UpdateCalcChainT :: gotype where
  "UpdateCalcChainT = TStruct [
       (''I'', ''i'', False, TString), (''Op'', ''op'', False, TString), (''Pos'', ''pos'', False, TInt),
       (''T'', ''t'', False, TString), (''V'', ''v'', False, TString)]"

definition UpdateRowColumnT :: gotype where
  "UpdateRowColumnT = TStruct [
       (''I'', ''i'', False, TString), (''T'', ''t'', False, TString),
       (''V'', ''v'', False, TStruct [
         (''Index'', ''index'', False, TInt), (''Len'', ''len'', False, TInt)]),
       (''RC'', ''rc'', False, TString)]"

definition FilterValueT :: gotype where
  "FilterValueT = TStruct [
       (''Filter'', ''filter'', False, TSlice FilterT),
       (''FilterSelect'', ''filter_select'', False, FilterSelectT)]"

definition UpdateFilterT :: gotype where
  "UpdateFilterT = TStruct [
       (''I'', ''i'', False, TString), (''T'', ''t'', False, TString), (''V'', ''v'', False, TPtr FilterValueT)]"

definition AddSheetT :: gotype where
  "AddSheetT = TStruct [
       (''I'', ''i'', False, TString), (''T'', ''t'', False, TString), (''V'', ''v'', False, TPtr SheetT)]"

definition CopySheetT :: gotype where
  "CopySheetT = TStruct [
       (''I'', ''i'', False, TString), (''T'', ''t'', False, TString),
       (''V'', ''v'', False, TStruct [
         (''CopyIndex'', ''copyindex'', False, TString), (''Name'', ''name'', False, TString)])]"

definition DeleteSheetT :: gotype where
  "DeleteSheetT = TStruct [
       (''I'', ''i'', False, TString), (''T'', ''t'', False, TString),
       (''V'', ''v'', False, TStruct [
         (''DeleteIndex'', ''deleIndex'', False, TString)])]"

definition RecoverSheetT :: gotype where
  "RecoverSheetT = TStruct [
       (''I'', ''i'', False, TString), (''T'', ''t'', False, TString),
       (''V'', ''v'', False, TStruct [
         (''RecoverIndex'', ''reIndex'', False, TString)])]"

definition UpdateSheetOrderT :: gotype where
  "UpdateSheetOrderT = TStruct [
       (''I'', ''i'', False, TString), (''T'', ''t'', False, TString), (''V'', ''v'', False, TMap TInt)]"

definition ToggleSheetT :: gotype where
  "ToggleSheetT = TStruct [
       (''I'', ''i'', False, TString), (''T'', ''t'', False, TString), (''V'', ''v'', False, TString)]"

definition HideOrShowSheetT :: gotype where
  "HideOrShowSheetT = TStruct [
       (''I'', ''i'', False, TString), (''T'', ''t'', False, TString), (''V'', ''v'', False, TInt),
       (''Op'', ''op'', False, TString), (''Cur'', ''cur'', False, TString)]"

subsection \<open>Well-formedness\<close>

lemmas type_defs =
  MergeCellT_def PST_def CellTypeT_def CellValueT_def Cell_fields_def CellT_def BorderValueStyleT_def
  BorderT_def ConfigMergeT_def SheetConfigT_def FilterT_def FilterSelectT_def SelectSaveT_def
  AlternateFormatSaveT_def AlternateFormatSaveModelCustomT_def ConditionFormatSaveT_def FrozenT_def
  Chart_ChartOptions_DefaultOption_Axis_XAxisDownT_def Chart_ChartOptions_DefaultOption_Axis_XAxisUpT_def
  Chart_ChartOptions_DefaultOption_Axis_YAxisLeft_TickLabelT_def
  Chart_ChartOptions_DefaultOption_Axis_YAxisLeftT_def
  Chart_ChartOptions_DefaultOption_Axis_YAxisRight_TickLabelT_def
  Chart_ChartOptions_DefaultOption_Axis_YAxisRightT_def Chart_ChartOptions_DefaultOption_AxisT_def
  Chart_ChartOptions_DefaultOption_LegendT_def Chart_ChartOptions_DefaultOption_TooltipT_def
  Chart_ChartOptions_DefaultOptionT_def Chart_ChartOptionsT_def ChartT_def ImageT_def PivotTableT_def
  CalcChainT_def DynamicArrayT_def SheetT_def UpdateVT_def UpdateRVT_def UpdateCGT_def UpdateCommonT_def
  UpdateCalcChainT_def UpdateRowColumnT_def FilterValueT_def UpdateFilterT_def AddSheetT_def CopySheetT_def
  DeleteSheetT_def RecoverSheetT_def UpdateSheetOrderT_def ToggleSheetT_def HideOrShowSheetT_def

lemma wf_CellT: "wf_type CellT"
  by (simp add: type_defs ascii_key_def)

lemma wf_ChartT: "wf_type ChartT"
  by (simp add: type_defs ascii_key_def)

lemma wf_parts:
  "wf_type BorderT" "wf_type SheetConfigT" "wf_type FilterT" "wf_type FilterSelectT" "wf_type SelectSaveT"
  "wf_type AlternateFormatSaveT" "wf_type AlternateFormatSaveModelCustomT" "wf_type ConditionFormatSaveT"
  "wf_type FrozenT" "wf_type ImageT" "wf_type PivotTableT" "wf_type CalcChainT" "wf_type DynamicArrayT"
  by (simp_all add: type_defs ascii_key_def)

lemma structs_not_nil:
  "\<not> nillable SheetConfigT" "\<not> nillable FilterSelectT" "\<not> nillable FrozenT" "\<not> nillable PivotTableT" "\<not> nillable SheetT"
  by (simp_all add: SheetConfigT_def FilterSelectT_def FrozenT_def PivotTableT_def SheetT_def)

lemma wf_SheetT: "wf_type SheetT"
  using wf_CellT wf_ChartT wf_parts structs_not_nil by (simp add: SheetT_def ascii_key_def)

lemma wf_updates:
  "wf_type UpdateVT" "wf_type UpdateRVT" "wf_type UpdateCGT" "wf_type UpdateCommonT" "wf_type UpdateCalcChainT"
  "wf_type UpdateRowColumnT" "wf_type CopySheetT" "wf_type DeleteSheetT" "wf_type RecoverSheetT"
  "wf_type UpdateSheetOrderT" "wf_type ToggleSheetT" "wf_type HideOrShowSheetT" "wf_type UpdateFilterT"
  using wf_CellT wf_parts by (simp_all add: type_defs ascii_key_def)

lemma wf_AddSheetT: "wf_type AddSheetT"
  using wf_SheetT structs_not_nil by (simp add: AddSheetT_def ascii_key_def)

end
