(* ===== verification/BeModelProps.thy ===== *)
theory BeModelProps
  imports BeModel
begin

text \<open>
  What the server may rely on when it decodes a message or a stored sheet: the decoded value has the
  static type of its Go variable, and a stored cell or sheet is read back as it was.
\<close>

text \<open>The types the handlers decode into.\<close>

definition decoded_types :: "gotype list" where
  "decoded_types = [UpdateVT, UpdateRVT, UpdateCGT, UpdateCommonT, UpdateCalcChainT, UpdateRowColumnT, CopySheetT,
     DeleteSheetT, RecoverSheetT, UpdateSheetOrderT, ToggleSheetT, HideOrShowSheetT, CellT, SheetT, CalcChainT,
     TSlice BorderT, TMap TFloat, FrozenT, SheetConfigT, FilterSelectT, TMap FilterT, TSlice AlternateFormatSaveT,
     TSlice ConditionFormatSaveT, PivotTableT, TSlice DynamicArrayT, TIface]"

lemma wf_decoded: "t \<in> set decoded_types \<Longrightarrow> wf_type t"
  unfolding decoded_types_def using wf_updates wf_CellT wf_SheetT wf_parts by auto

lemma Unmarshal_typed:
  assumes "wf_type t" "has_type t v"
  shows "has_type t (fst (Unmarshal F t b v))"
  using decode_typed [OF assms] assms(2) by (simp add: Unmarshal_def split: option.splits prod.splits) (metis fst_conv)

subsection \<open>A value to evaluate the properties at\<close>

definition wit_floats :: float_conv where
  "wit_floats = \<lparr>FormatFloat = (\<lambda>w. if w = 0 then Some ''0'' else None), ParseFloat = (\<lambda>l. if l = ''0'' then Some 0 else None)\<rparr>"

lemma wit_floats_ok: "float_conv_ok wit_floats"
proof -
  have "is_number ''0''" by code_simp
  then show ?thesis by (simp add: float_conv_ok_def wit_floats_def)
qed

definition wit_cell :: goval where
  "wit_cell = VStruct [(''C'', VInt 1), (''R'', VInt 2),
     (''V'', VStruct [
       (''Bg'', VStr ''#fff''), (''Bl'', VInt 1), (''Cl'', VInt 0), (''Ct'', VPtr (VStruct [(''Fa'', VStr ''General''), (''S'', VNil), (''T'', VStr ''g'')])),
       (''F'', VStr []), (''Fc'', VStr []), (''Ff'', VStr []), (''Fs'', VNil), (''It'', VInt 0), (''M'', VStr ''hi''), (''Mc'', VNil),
       (''Tb'', VStr []), (''Tr'', VNil), (''V'', VStr ''hi''), (''Ht'', VNil), (''Vt'', VNil), (''Rt'', VFloat 0), (''Ps'', VNil)])]"

lemma wit_cell_typed: "has_type CellT wit_cell"
  by (simp add: wit_cell_def type_defs int64_range_def)

lemma wit_cell_plain: "plain_val wit_floats CellT wit_cell"
  by (simp add: wit_cell_def type_defs wit_floats_def isEmptyValue_def utf8_valid.simps DecodeRune_ascii RuneError_def)

lemma wit_cell_depth: "vdepth wit_cell \<le> maxNestingDepth"
  by (simp add: wit_cell_def maxNestingDepth_def)

subsection \<open>Properties\<close>



text \<open>C17:
  A cell or a sheet that \<open>json.Marshal\<close> writes is read back by \<open>json.Unmarshal\<close> as the same value, also
  with white space after it, which is how cells lie in their slots. The value must keep apart what JSON
  keeps apart (valid UTF-8, finite floats, no empty but non-nil slice or map in an \<open>omitempty\<close> field) and
  not nest deeper than the scanner allows; \<open>float_conv_ok\<close> is the round trip of \<open>strconv\<close>.
\<close>

theorem stored_value_roundtrip:
  assumes "t \<in> {CellT, SheetT}" "has_type t v" "plain_val F t v" "float_conv_ok F" "vdepth v \<le> maxNestingDepth"
    and "list_all is_space (chars ws)"
  shows "\<exists>b. Marshal F t v = Some b \<and> Unmarshal F t (b @ ws) (zero t) = (v, None)"
proof -
  have "wf_type t" using assms(1) wf_CellT wf_SheetT by auto
  from marshal_unmarshal [OF this assms(2-5)] assms(6) show ?thesis by blast
qed

theorem stored_value_roundtrip_witness:
  "\<exists>b. Marshal wit_floats CellT wit_cell = Some b \<and> Unmarshal wit_floats CellT (b @ bytes '' '') (zero CellT) = (wit_cell, None)"
  by (rule stored_value_roundtrip [OF _ wit_cell_typed wit_cell_plain wit_floats_ok wit_cell_depth])
    (simp_all add: is_space_def)

end
