(* ===== verification/BeLock.thy ===== *)
theory BeLock
  imports Prelude
begin

text \<open>
  \<open>gDoc_backend/lock/lock.go\<close>: per-file read/write locks and per-cell mutexes behind two global maps.
  Goroutines run the functions statement by statement; \<open>tstep\<close> is one statement of one goroutine, with
  the line of the source in the name of its program counter. The maps are read without a lock, as in
  the code. A pending writer does not hold back readers here, so there are at least the interleavings
  of \<open>sync.RWMutex\<close>.
\<close>

record locks =
  FileLockMap :: "string \<rightharpoonup> (string \<rightharpoonup> nat)"
  FileRWLockMap :: "string \<rightharpoonup> nat"
  FileLock :: bool
  mu_locked :: "nat \<Rightarrow> bool"
  rw_readers :: "nat \<Rightarrow> nat"
  rw_writer :: "nat \<Rightarrow> bool"
  next_addr :: nat

definition init_locks :: locks where
  "init_locks = \<lparr>FileLockMap = Map.empty, FileRWLockMap = Map.empty, FileLock = False, mu_locked = (\<lambda>_. False),
     rw_readers = (\<lambda>_. 0), rw_writer = (\<lambda>_. False), next_addr = 0\<rparr>"

definition cell_name :: "u32 \<Rightarrow> u32 \<Rightarrow> string" where
  "cell_name row column = FormatUint (ucast row) @ CHR ''-'' # FormatUint (ucast column)"

text \<open>
  A call: \<open>LockCell\<close>, \<open>LockFile\<close>, \<open>UnlockFile\<close>, \<open>AddFileLock\<close>, and \<open>DeleteFileLock\<close>. \<open>UnlockCell\<close>
  starts at \<open>Unl74\<close>.
\<close>

datatype lock_op = OpCell string string | OpFile string | OpUnlockFile string | OpAdd string | OpDel string

fun op_file :: "lock_op \<Rightarrow> string" where
  "op_file (OpCell f _) = f"
| "op_file (OpFile f) = f"
| "op_file (OpUnlockFile f) = f"
| "op_file (OpAdd f) = f"
| "op_file (OpDel f) = f"

text \<open>
  \<open>Crashed p\<close>: the goroutine panicked at \<open>p\<close> and keeps the locks it had; \<open>Fatal p\<close>: the run-time ended
  the process.
\<close>

datatype pc =
    Idle
  | Enter lock_op
  | Add27 lock_op | Add28 lock_op | Add32 lock_op | Add35 lock_op
  | EvalRW lock_op
  | WaitRW lock_op nat
  | Cell60 string string | Cell63 string string | Cell64 string string | Cell65 string string | Cell66 string string
  | WaitCell string string nat
  | InCell string string
  | Unl74 string string | Unl75 string string
  | InFile string
  | Del42 string | Del43 string | Del46 string | Del49 string
  | Crashed pc
  | Fatal pc

definition cell_mutex :: "locks \<Rightarrow> string \<Rightarrow> string \<Rightarrow> nat option" where
  "cell_mutex L f c = Option.bind (FileLockMap L f) (\<lambda>m. m c)"

fun tstep :: "locks \<Rightarrow> pc \<Rightarrow> (locks \<times> pc) option" where
  "tstep L Idle = None"
| "tstep L (Enter op) =
     Some (L, case op of
       OpAdd _ \<Rightarrow> Add27 op
     | OpDel f \<Rightarrow> Del42 f
     | _ \<Rightarrow> if FileRWLockMap L (op_file op) = None then Add27 op else EvalRW op)"
| "tstep L (Add27 op) = (if FileLock L then None else Some (L\<lparr>FileLock := True\<rparr>, Add28 op))"
| "tstep L (Add28 op) =
     Some (if FileLockMap L (op_file op) = None
           then L\<lparr>FileLockMap := (FileLockMap L)(op_file op \<mapsto> Map.empty)\<rparr> else L, Add32 op)"
| "tstep L (Add32 op) =
     Some (if FileRWLockMap L (op_file op) = None
           then L\<lparr>FileRWLockMap := (FileRWLockMap L)(op_file op \<mapsto> next_addr L), next_addr := Suc (next_addr L)\<rparr> else L,
           Add35 op)"
| "tstep L (Add35 op) =
     Some (L\<lparr>FileLock := False\<rparr>, case op of OpAdd _ \<Rightarrow> Idle | _ \<Rightarrow> EvalRW op)"
| "tstep L (EvalRW op) =
     Some (case FileRWLockMap L (op_file op) of
       None \<Rightarrow> (L, Crashed (EvalRW op))
     | Some a \<Rightarrow>
         (case op of
            OpUnlockFile f \<Rightarrow> if rw_writer L a then (L\<lparr>rw_writer := (rw_writer L)(a := False)\<rparr>, Idle) else (L, Fatal (EvalRW op))
          | _ \<Rightarrow> (L, WaitRW op a)))"
| "tstep L (WaitRW op a) =
     (case op of
        OpCell f c \<Rightarrow>
          if rw_writer L a then None
          else Some (L\<lparr>rw_readers := (rw_readers L)(a := Suc (rw_readers L a))\<rparr>, Cell60 f c)
      | OpFile f \<Rightarrow>
          if rw_writer L a \<or> 0 < rw_readers L a then None
          else Some (L\<lparr>rw_writer := (rw_writer L)(a := True)\<rparr>, InFile f)
      | _ \<Rightarrow> None)"
| "tstep L (Cell60 f c) =
     Some (L, case cell_mutex L f c of Some a \<Rightarrow> WaitCell f c a | None \<Rightarrow> Cell63 f c)"
| "tstep L (Cell63 f c) = (if FileLock L then None else Some (L\<lparr>FileLock := True\<rparr>, Cell64 f c))"
| "tstep L (Cell64 f c) =
     Some (case FileLockMap L f of
       None \<Rightarrow> (L, Crashed (Cell64 f c))
     | Some m \<Rightarrow>
         (L\<lparr>FileLockMap := (FileLockMap L)(f \<mapsto> m(c \<mapsto> next_addr L)), next_addr := Suc (next_addr L)\<rparr>, Cell65 f c))"
| "tstep L (Cell65 f c) = Some (L\<lparr>FileLock := False\<rparr>, Cell66 f c)"
| "tstep L (Cell66 f c) =
     Some (L, case cell_mutex L f c of Some a \<Rightarrow> WaitCell f c a | None \<Rightarrow> Crashed (Cell66 f c))"
| "tstep L (WaitCell f c a) =
     (if mu_locked L a then None else Some (L\<lparr>mu_locked := (mu_locked L)(a := True)\<rparr>, InCell f c))"
| "tstep L (InCell f c) = Some (L, Unl74 f c)"
| "tstep L (Unl74 f c) =
     Some (case cell_mutex L f c of
       None \<Rightarrow> (L, Crashed (Unl74 f c))
     | Some a \<Rightarrow>
         if mu_locked L a then (L\<lparr>mu_locked := (mu_locked L)(a := False)\<rparr>, Unl75 f c) else (L, Fatal (Unl74 f c)))"
| "tstep L (Unl75 f c) =
     Some (case FileRWLockMap L f of
       None \<Rightarrow> (L, Crashed (Unl75 f c))
     | Some a \<Rightarrow>
         if 0 < rw_readers L a then (L\<lparr>rw_readers := (rw_readers L)(a := rw_readers L a - 1)\<rparr>, Idle) else (L, Fatal (Unl75 f c)))"
| "tstep L (InFile f) = Some (L, Enter (OpUnlockFile f))"
| "tstep L (Del42 f) = (if FileLock L then None else Some (L\<lparr>FileLock := True\<rparr>, Del43 f))"
| "tstep L (Del43 f) = Some (L\<lparr>FileLockMap := (FileLockMap L)(f := None)\<rparr>, Del46 f)"
| "tstep L (Del46 f) = Some (L\<lparr>FileRWLockMap := (FileRWLockMap L)(f := None)\<rparr>, Del49 f)"
| "tstep L (Del49 f) = Some (L\<lparr>FileLock := False\<rparr>, Idle)"
| "tstep L (Crashed p) = None"
| "tstep L (Fatal p) = None"

subsection \<open>Interleaving\<close>

type_synonym lock_conf = "locks \<times> (nat \<Rightarrow> pc)"

text \<open>
  An idle goroutine starts a call of an allowed kind (never \<open>UnlockFile\<close> on its own); any goroutine
  that is not blocked moves, unless the process has ended.
\<close>

definition alive :: "(nat \<Rightarrow> pc) \<Rightarrow> bool" where
  "alive ths \<longleftrightarrow> (\<forall>i p. ths i \<noteq> Fatal p)"

inductive lock_step :: "(lock_op \<Rightarrow> bool) \<Rightarrow> lock_conf \<Rightarrow> lock_conf \<Rightarrow> bool" for allowed where
  Start: "ths i = Idle \<Longrightarrow> alive ths \<Longrightarrow> allowed op \<Longrightarrow> op \<noteq> OpUnlockFile (op_file op) \<Longrightarrow>
    lock_step allowed (L, ths) (L, ths(i := Enter op))"
| Move: "tstep L (ths i) = Some (L', p) \<Longrightarrow> alive ths \<Longrightarrow> lock_step allowed (L, ths) (L', ths(i := p))"

definition lock_reach :: "(lock_op \<Rightarrow> bool) \<Rightarrow> lock_conf \<Rightarrow> lock_conf \<Rightarrow> bool" where
  "lock_reach allowed = (lock_step allowed)\<^sup>*\<^sup>*"

definition idle_conf :: "locks \<Rightarrow> lock_conf" where
  "idle_conf L = (L, \<lambda>_. Idle)"

subsection \<open>The read/write lock of a file\<close>

fun reads_file :: "string \<Rightarrow> pc \<Rightarrow> bool" where
  "reads_file f (Cell60 g _) = (g = f)"
| "reads_file f (Cell63 g _) = (g = f)"
| "reads_file f (Cell64 g _) = (g = f)"
| "reads_file f (Cell65 g _) = (g = f)"
| "reads_file f (Cell66 g _) = (g = f)"
| "reads_file f (WaitCell g _ _) = (g = f)"
| "reads_file f (InCell g _) = (g = f)"
| "reads_file f (Unl74 g _) = (g = f)"
| "reads_file f (Unl75 g _) = (g = f)"
| "reads_file f (Crashed p) = reads_file f p"
| "reads_file f (Fatal p) = reads_file f p"
| "reads_file f _ = False"

fun writes_file :: "string \<Rightarrow> pc \<Rightarrow> bool" where
  "writes_file f (InFile g) = (g = f)"
| "writes_file f (Enter op) = (op = OpUnlockFile f)"
| "writes_file f (Add27 op) = (op = OpUnlockFile f)"
| "writes_file f (Add28 op) = (op = OpUnlockFile f)"
| "writes_file f (Add32 op) = (op = OpUnlockFile f)"
| "writes_file f (Add35 op) = (op = OpUnlockFile f)"
| "writes_file f (EvalRW op) = (op = OpUnlockFile f)"
| "writes_file f (Crashed p) = writes_file f p"
| "writes_file f (Fatal p) = writes_file f p"
| "writes_file f _ = False"

fun deletes_file :: "string \<Rightarrow> pc \<Rightarrow> bool" where
  "deletes_file f (Enter op) = (op = OpDel f)"
| "deletes_file f (Del42 g) = (g = f)"
| "deletes_file f (Del43 g) = (g = f)"
| "deletes_file f (Del46 g) = (g = f)"
| "deletes_file f (Del49 g) = (g = f)"
| "deletes_file f _ = False"

fun waits_at :: "pc \<Rightarrow> (string \<times> nat) option" where
  "waits_at (WaitRW op a) = Some (op_file op, a)"
| "waits_at _ = None"

text \<open>
  The lock of \<open>f\<close> counts its readers and has at most one writer, all of them found among the
  goroutines; addresses are not shared between files.
\<close>

definition rw_inv :: "string \<Rightarrow> lock_conf \<Rightarrow> bool" where
  "rw_inv f s \<longleftrightarrow> (case s of (L, ths) \<Rightarrow>
     finite {i. ths i \<noteq> Idle} \<and>
     (\<forall>b \<ge> next_addr L. rw_readers L b = 0 \<and> \<not> rw_writer L b) \<and>
     (\<forall>g b. FileRWLockMap L g = Some b \<longrightarrow> b < next_addr L) \<and>
     (\<forall>i g b. waits_at (ths i) = Some (g, b) \<longrightarrow> b < next_addr L) \<and>
     (\<forall>i. \<not> deletes_file f (ths i)) \<and>
     (case FileRWLockMap L f of
        None \<Rightarrow> \<forall>i. \<not> reads_file f (ths i) \<and> \<not> writes_file f (ths i) \<and> (\<forall>b. waits_at (ths i) \<noteq> Some (f, b))
      | Some a \<Rightarrow>
          rw_readers L a = card {i. reads_file f (ths i)} \<and>
          (rw_writer L a \<longleftrightarrow> (\<exists>i. writes_file f (ths i))) \<and>
          (rw_writer L a \<longrightarrow> rw_readers L a = 0) \<and>
          (\<forall>i j. writes_file f (ths i) \<and> writes_file f (ths j) \<longrightarrow> i = j) \<and>
          (\<forall>i b. waits_at (ths i) = Some (f, b) \<longrightarrow> b = a) \<and>
          (\<forall>g b. g \<noteq> f \<and> FileRWLockMap L g = Some b \<longrightarrow> b \<noteq> a) \<and>
          (\<forall>i g b. g \<noteq> f \<and> waits_at (ths i) = Some (g, b) \<longrightarrow> b \<noteq> a)))"

lemma rw_inv_init: "rw_inv f (idle_conf init_locks)"
  by (simp add: rw_inv_def idle_conf_def init_locks_def)

lemma finite_upd: "finite {i. ths i \<noteq> Idle} \<Longrightarrow> finite {j. (ths(i := p)) j \<noteq> Idle}"
  by (rule finite_subset [of _ "insert i {i. ths i \<noteq> Idle}"]) auto

lemma finite_readers: "finite {i. ths i \<noteq> Idle} \<Longrightarrow> finite {i. reads_file f (ths i)}"
  by (rule finite_subset [of _ "{i. ths i \<noteq> Idle}"]) auto

lemma rw_invD:
  assumes "rw_inv f (L, ths)"
  shows "finite {i. ths i \<noteq> Idle}" "next_addr L \<le> b \<Longrightarrow> rw_readers L b = 0 \<and> \<not> rw_writer L b"
    and "FileRWLockMap L g = Some b \<Longrightarrow> b < next_addr L" "waits_at (ths i) = Some (g, b) \<Longrightarrow> b < next_addr L"
    and "\<not> deletes_file f (ths i)"
  using assms by (auto simp: rw_inv_def)

lemma rw_invD_None:
  assumes "rw_inv f (L, ths)" "FileRWLockMap L f = None"
  shows "\<not> reads_file f (ths j)" "\<not> writes_file f (ths j)" "waits_at (ths j) \<noteq> Some (f, b)"
  using assms by (auto simp: rw_inv_def)

lemma rw_invD_Some:
  assumes "rw_inv f (L, ths)" "FileRWLockMap L f = Some a"
  shows "rw_readers L a = card {i. reads_file f (ths i)}" "rw_writer L a \<longleftrightarrow> (\<exists>i. writes_file f (ths i))"
    and "rw_writer L a \<Longrightarrow> rw_readers L a = 0" "writes_file f (ths i) \<Longrightarrow> writes_file f (ths j) \<Longrightarrow> i = j"
    and "waits_at (ths i) = Some (f, b) \<Longrightarrow> b = a" "g \<noteq> f \<Longrightarrow> FileRWLockMap L g = Some b \<Longrightarrow> b \<noteq> a"
    and "g \<noteq> f \<Longrightarrow> waits_at (ths i) = Some (g, b) \<Longrightarrow> b \<noteq> a"
  using assms by (auto simp: rw_inv_def)

lemma rw_invI_Some:
  assumes "finite {i. ths i \<noteq> Idle}" "\<And>b. next_addr L \<le> b \<Longrightarrow> rw_readers L b = 0 \<and> \<not> rw_writer L b"
    "\<And>g b. FileRWLockMap L g = Some b \<Longrightarrow> b < next_addr L" "\<And>i g b. waits_at (ths i) = Some (g, b) \<Longrightarrow> b < next_addr L"
    "\<And>i. \<not> deletes_file f (ths i)" "FileRWLockMap L f = Some a" "rw_readers L a = card {i. reads_file f (ths i)}"
    "rw_writer L a \<longleftrightarrow> (\<exists>i. writes_file f (ths i))" "rw_writer L a \<Longrightarrow> rw_readers L a = 0"
    "\<And>i j. writes_file f (ths i) \<Longrightarrow> writes_file f (ths j) \<Longrightarrow> i = j"
    "\<And>i b. waits_at (ths i) = Some (f, b) \<Longrightarrow> b = a" "\<And>g b. g \<noteq> f \<Longrightarrow> FileRWLockMap L g = Some b \<Longrightarrow> b \<noteq> a"
    "\<And>i g b. g \<noteq> f \<Longrightarrow> waits_at (ths i) = Some (g, b) \<Longrightarrow> b \<noteq> a"
  shows "rw_inv f (L, ths)"
  unfolding rw_inv_def prod.case assms(6) option.case using assms by blast

text \<open>A step that neither takes nor gives back the lock of \<open>f\<close>.\<close>

lemma rw_inv_stutter:
  assumes inv: "rw_inv f (L, ths)"
    and map: "FileRWLockMap L' f = FileRWLockMap L f" "next_addr L \<le> next_addr L'"
      "\<And>g b. FileRWLockMap L' g = Some b \<Longrightarrow> FileRWLockMap L g = Some b \<or> b = next_addr L \<and> b < next_addr L'"
    and words: "\<And>b. rw_readers L' b \<noteq> rw_readers L b \<or> rw_writer L' b \<noteq> rw_writer L b \<Longrightarrow>
      b < next_addr L \<and> FileRWLockMap L f \<noteq> Some b"
    and p: "reads_file f p = reads_file f (ths i)" "writes_file f p = writes_file f (ths i)" "\<not> deletes_file f p"
      "\<And>g b. waits_at p = Some (g, b) \<Longrightarrow> waits_at (ths i) = Some (g, b) \<or> FileRWLockMap L g = Some b"
  shows "rw_inv f (L', ths(i := p))"
proof -
  let ?t = "ths(i := p)"
  have R: "reads_file f (?t j) = reads_file f (ths j)" for j using p(1) by simp
  have W: "writes_file f (?t j) = writes_file f (ths j)" for j using p(2) by simp
  note I = rw_invD [OF inv]
  have Q: "waits_at (ths j) = Some (g, b) \<or> FileRWLockMap L g = Some b" if "waits_at (?t j) = Some (g, b)" for j g b
    using that p(4) by (cases "j = i") auto
  have zero: "rw_readers L' b = 0 \<and> \<not> rw_writer L' b" if "next_addr L' \<le> b" for b
    using words [of b] I(2) [of b] map(2) that by (metis leD order_trans)
  have fresh: "b < next_addr L'" if "FileRWLockMap L' g = Some b" for g b using map(2) map(3) [OF that] I(3) [of g b] by auto
  have fw: "b < next_addr L'" if "waits_at (?t j) = Some (g, b)" for j g b
    using Q [OF that] I(3) [of g b] I(4) [of j g b] map(2) by auto
  have dl: "\<not> deletes_file f (?t j)" for j using I(5) p(3) by simp
  show ?thesis
  proof (cases "FileRWLockMap L f")
    case None
    note n = rw_invD_None [OF inv None]
    have "waits_at (?t j) \<noteq> Some (f, b)" for j b using Q [of j f b] n(3) None by auto
    then show ?thesis unfolding rw_inv_def
      using finite_upd [OF I(1)] zero fresh fw dl n(1,2) R W None map(1) by simp
  next
    case (Some a)
    note n = rw_invD_Some [OF inv Some]
    have a: "rw_readers L' a = rw_readers L a" "rw_writer L' a = rw_writer L a" using words [of a] Some by auto
    show ?thesis
    proof (rule rw_invI_Some [OF finite_upd [OF I(1)] zero fresh fw dl])
      show "FileRWLockMap L' f = Some a" using map(1) Some by simp
      show "rw_readers L' a = card {j. reads_file f (?t j)}" using n(1) a(1) by (simp only: R)
      show "rw_writer L' a = (\<exists>j. writes_file f (?t j))" using n(2) a(2) by (simp only: W)
      show "rw_writer L' a \<Longrightarrow> rw_readers L' a = 0" using n(3) a by simp
      show "writes_file f (?t k) \<Longrightarrow> writes_file f (?t j) \<Longrightarrow> k = j" for k j using n(4) by (simp only: W)
      show "b = a" if "waits_at (?t j) = Some (f, b)" for j b using Q [OF that] n(5) [of j b] Some by auto
      show "b \<noteq> a" if "g \<noteq> f" "FileRWLockMap L' g = Some b" for g b
        using map(3) [OF that(2)] n(6) [OF that(1), of b] I(3) [OF Some] by auto
      show "b \<noteq> a" if "g \<noteq> f" "waits_at (?t j) = Some (g, b)" for j g b
        using Q [OF that(2)] n(6) [OF that(1), of b] n(7) [OF that(1), of j b] by auto
    qed
  qed
qed

text \<open>The lock of \<open>f\<close> is registered.\<close>

lemma rw_inv_create:
  assumes inv: "rw_inv f (L, ths)" and n: "FileRWLockMap L f = None"
    and L': "L' = L\<lparr>FileRWLockMap := (FileRWLockMap L)(f \<mapsto> next_addr L), next_addr := Suc (next_addr L)\<rparr>"
    and p: "\<not> reads_file f p" "\<not> writes_file f p" "\<not> deletes_file f p" "waits_at p = None"
  shows "rw_inv f (L', ths(i := p))"
proof -
  let ?t = "ths(i := p)"
  note I = rw_invD [OF inv] and N = rw_invD_None [OF inv n]
  have rw: "\<not> reads_file f (?t j)" "\<not> writes_file f (?t j)" for j using N p by simp_all
  have wt: "g \<noteq> f" "b < next_addr L" if "waits_at (?t j) = Some (g, b)" for j g b
    using that N(3) [of j b] I(4) [of j g b] p(4) by (auto split: if_splits)
  show ?thesis
  proof (rule rw_invI_Some [OF finite_upd [OF I(1)], where a = "next_addr L"])
    show "rw_readers L' (next_addr L) = card {j. reads_file f (?t j)}" using I(2) [of "next_addr L"] rw by (simp add: L')
    show "rw_writer L' (next_addr L) = (\<exists>j. writes_file f (?t j))" using I(2) [of "next_addr L"] rw by (simp add: L')
    show "rw_writer L' (next_addr L) \<Longrightarrow> rw_readers L' (next_addr L) = 0" using I(2) [of "next_addr L"] by (simp add: L')
    show "rw_readers L' b = 0 \<and> \<not> rw_writer L' b" if "next_addr L' \<le> b" for b using I(2) [of b] that by (simp add: L')
    show "b < next_addr L'" if "FileRWLockMap L' g = Some b" for g b
      using I(3) [of g b] that by (auto simp: L' split: if_splits)
    show "b < next_addr L'" if "waits_at (?t j) = Some (g, b)" for j g b using wt(2) [OF that] by (simp add: L')
    show "\<not> deletes_file f (?t j)" for j using I(5) p(3) by simp
    show "b \<noteq> next_addr L" if "g \<noteq> f" "FileRWLockMap L' g = Some b" for g b using I(3) [of g b] that by (auto simp: L')
    show "b \<noteq> next_addr L" if "g \<noteq> f" "waits_at (?t j) = Some (g, b)" for j g b using wt(2) [OF that(2)] by simp
    show "b = next_addr L" if "waits_at (?t j) = Some (f, b)" for j b using wt(1) [OF that] by simp
  qed (use rw(2) in \<open>simp_all add: L' del: fun_upd_apply, simp\<close>)
qed

text \<open>Taking and giving back the lock of \<open>f\<close>.\<close>

lemma rw_inv_words:
  assumes inv: "rw_inv f (L, ths)" and a: "FileRWLockMap L f = Some a"
    and L': "L' = L\<lparr>rw_readers := (rw_readers L)(a := k), rw_writer := (rw_writer L)(a := w)\<rparr>"
      "k = card {j. reads_file f ((ths(i := p)) j)}" "w = (\<exists>j. writes_file f ((ths(i := p)) j))" "w \<Longrightarrow> k = 0"
      "\<And>j l. writes_file f ((ths(i := p)) j) \<Longrightarrow> writes_file f ((ths(i := p)) l) \<Longrightarrow> j = l"
    and p: "\<not> deletes_file f p" "waits_at p = None"
  shows "rw_inv f (L', ths(i := p))"
proof -
  let ?t = "ths(i := p)"
  note I = rw_invD [OF inv] and N = rw_invD_Some [OF inv a]
  have wt: "waits_at (ths j) = Some (g, b)" if "waits_at (?t j) = Some (g, b)" for j g b
    using that p(2) by (auto split: if_splits)
  have a0: "a < next_addr L" using I(3) [OF a] .
  show ?thesis
  proof (rule rw_invI_Some [OF finite_upd [OF I(1)], where a = a])
    show "rw_readers L' b = 0 \<and> \<not> rw_writer L' b" if "next_addr L' \<le> b" for b using I(2) [of b] that a0 by (simp add: L'(1))
    show "b < next_addr L'" if "FileRWLockMap L' g = Some b" for g b using I(3) [of g b] that by (simp add: L'(1))
    show "b < next_addr L'" if "waits_at (?t j) = Some (g, b)" for j g b using I(4) [OF wt [OF that]] by (simp add: L'(1))
    show "\<not> deletes_file f (?t j)" for j using I(5) p(1) by simp
    show "b \<noteq> a" if "g \<noteq> f" "FileRWLockMap L' g = Some b" for g b using N(6) [OF that(1), of b] that(2) by (simp add: L'(1))
    show "b \<noteq> a" if "g \<noteq> f" "waits_at (?t j) = Some (g, b)" for j g b using N(7) [OF that(1) wt [OF that(2)]] .
    show "b = a" if "waits_at (?t j) = Some (f, b)" for j b using N(5) [OF wt [OF that]] .
    have s: "FileRWLockMap L' f = Some a" "rw_readers L' a = k" "rw_writer L' a = w" using a by (simp_all add: L'(1))
    show "FileRWLockMap L' f = Some a" by (rule s(1))
    show "rw_readers L' a = card {j. reads_file f (?t j)}" using s(2) L'(2) by (rule trans)
    show "rw_writer L' a = (\<exists>j. writes_file f (?t j))" using s(3) L'(3) by (rule trans)
    show "rw_writer L' a \<Longrightarrow> rw_readers L' a = 0" using L'(4) s(2,3) by blast
  qed (rule L'(5))
qed

lemma card_upd_add:
  assumes "finite {j. P (ths j)}" "\<not> P (ths i)" "P p"
  shows "card {j. P ((ths(i := p)) j)} = Suc (card {j. P (ths j)})"
proof -
  have "{j. P ((ths(i := p)) j)} = insert i {j. P (ths j)}" using assms(3) by auto
  with assms show ?thesis by simp
qed

lemma card_upd_del:
  assumes "finite {j. P (ths j)}" "P (ths i)" "\<not> P p"
  shows "card {j. P ((ths(i := p)) j)} = card {j. P (ths j)} - 1"
proof -
  have "{j. P ((ths(i := p)) j)} = {j. P (ths j)} - {i}" using assms(3) by auto
  with assms show ?thesis by (simp add: card_Diff_singleton)
qed

lemma card_upd_same: "P p = P (ths i) \<Longrightarrow> card {j. P ((ths(i := p)) j)} = card {j. P (ths j)}"
  by (rule arg_cong [where f = card]) auto

lemma locks_upd_idle:
  "L\<lparr>rw_readers := (rw_readers L)(a := k)\<rparr> = L\<lparr>rw_readers := (rw_readers L)(a := k), rw_writer := (rw_writer L)(a := rw_writer L a)\<rparr>"
  "L\<lparr>rw_writer := (rw_writer L)(a := w)\<rparr> = L\<lparr>rw_readers := (rw_readers L)(a := rw_readers L a), rw_writer := (rw_writer L)(a := w)\<rparr>"
  by simp_all

text \<open>The moves at the lock of \<open>f\<close> itself.\<close>

lemma rw_inv_at_lock:
  assumes inv: "rw_inv f (L, ths)" and t: "tstep L (ths i) = Some (L', p)"
    and c: "(\<exists>c a. ths i = WaitRW (OpCell f c) a) \<or> (\<exists>a. ths i = WaitRW (OpFile f) a) \<or>
      ths i = EvalRW (OpUnlockFile f) \<or> (\<exists>c. ths i = Unl75 f c)"
  shows "rw_inv f (L', ths(i := p))"
proof -
  note I = rw_invD [OF inv]
  note fin = finite_readers [OF I(1), of f]
  have "reads_file f (ths i) \<or> writes_file f (ths i) \<or> (\<exists>b. waits_at (ths i) = Some (f, b))" using c by auto
  then obtain a where a: "FileRWLockMap L f = Some a"
    using rw_invD_None [OF inv] by (cases "FileRWLockMap L f") auto
  note N = rw_invD_Some [OF inv a]
  have wa: "b = a" if "ths i = WaitRW op b" "op_file op = f" for op b using N(5) [of i b] that by simp
  from c show ?thesis
  proof (elim disjE exE)
    fix c b assume "ths i = WaitRW (OpCell f c) b"
    then have r: "ths i = WaitRW (OpCell f c) a" using wa by simp
    with t have p: "p = Cell60 f c" "L' = L\<lparr>rw_readers := (rw_readers L)(a := Suc (rw_readers L a))\<rparr>" "\<not> rw_writer L a"
      by (auto split: if_splits)
    have k: "card {j. reads_file f ((ths(i := p)) j)} = Suc (rw_readers L a)"
      unfolding N(1) by (rule card_upd_add [where P = "reads_file f", OF fin]) (simp_all add: r p)
    have w: "\<not> writes_file f ((ths(i := p)) j)" for j using N(2) p(1,3) by simp
    show ?thesis
      by (rule rw_inv_words [OF inv a trans [OF p(2) locks_upd_idle(1)] k [symmetric]]) (use w p(1,3) in simp_all)
  next
    fix b assume "ths i = WaitRW (OpFile f) b"
    then have w: "ths i = WaitRW (OpFile f) a" using wa by simp
    with t have p: "p = InFile f" "L' = L\<lparr>rw_writer := (rw_writer L)(a := True)\<rparr>" "\<not> rw_writer L a" "rw_readers L a = 0"
      by (auto split: if_splits)
    have k: "card {j. reads_file f ((ths(i := p)) j)} = rw_readers L a"
      unfolding N(1) by (rule card_upd_same [where P = "reads_file f"]) (simp add: w p)
    have u: "writes_file f ((ths(i := p)) j) = (j = i)" for j using N(2) p(1,3) by simp
    show ?thesis
      by (rule rw_inv_words [OF inv a trans [OF p(2) locks_upd_idle(2)] k [symmetric]]) (unfold u, use p(1,4) in simp_all)
  next
    assume uw: "ths i = EvalRW (OpUnlockFile f)"
    have h: "rw_writer L a" using N(2) uw by (metis writes_file.simps(7))
    with uw t a have p: "p = Idle" "L' = L\<lparr>rw_writer := (rw_writer L)(a := False)\<rparr>" by auto
    have k: "card {j. reads_file f ((ths(i := p)) j)} = rw_readers L a"
      unfolding N(1) by (rule card_upd_same [where P = "reads_file f"]) (simp add: uw p)
    have u: "\<not> writes_file f ((ths(i := p)) j)" for j using N(4) [of i j] uw p(1) by auto
    show ?thesis
      by (rule rw_inv_words [OF inv a trans [OF p(2) locks_upd_idle(2)] k [symmetric]]) (use u p(1) in simp_all)
  next
    fix c assume ur: "ths i = Unl75 f c"
    have "i \<in> {j. reads_file f (ths j)}" using ur by simp
    then have pos: "0 < rw_readers L a" using N(1) fin card_gt_0_iff by fastforce
    with ur t a have p: "p = Idle" "L' = L\<lparr>rw_readers := (rw_readers L)(a := rw_readers L a - 1)\<rparr>" by auto
    have k: "card {j. reads_file f ((ths(i := p)) j)} = rw_readers L a - 1"
      unfolding N(1) by (rule card_upd_del [where P = "reads_file f", OF fin]) (simp_all add: ur p)
    have nw: "\<not> rw_writer L a" using N(3) pos by linarith
    have u: "\<not> writes_file f ((ths(i := p)) j)" for j using N(2) nw p(1) by simp
    show ?thesis
      by (rule rw_inv_words [OF inv a trans [OF p(2) locks_upd_idle(1)] k [symmetric]]) (use u nw p(1) in simp_all)
  qed
qed

definition at_lock :: "string \<Rightarrow> pc \<Rightarrow> bool" where
  "at_lock f q \<longleftrightarrow> (\<exists>c a. q = WaitRW (OpCell f c) a) \<or> (\<exists>a. q = WaitRW (OpFile f) a) \<or>
     q = EvalRW (OpUnlockFile f) \<or> (\<exists>c. q = Unl75 f c)"

lemma tstep_class:
  assumes "tstep L q = Some (L', p)" "\<not> at_lock f q"
  shows "reads_file f p = reads_file f q" "writes_file f p = writes_file f q"
    and "deletes_file f p \<Longrightarrow> deletes_file f q"
    and "waits_at p = Some (g, b) \<Longrightarrow> FileRWLockMap L g = Some b"
  using assms by (cases q; auto simp: at_lock_def split: if_splits option.splits lock_op.splits)+

lemma tstep_maps:
  assumes "tstep L q = Some (L', p)" "\<not> deletes_file f q"
    "FileRWLockMap L f = None \<Longrightarrow> \<forall>op. q = Add32 op \<longrightarrow> op_file op \<noteq> f"
  shows "FileRWLockMap L' f = FileRWLockMap L f" "next_addr L \<le> next_addr L'"
    and "FileRWLockMap L' g = Some b \<Longrightarrow> FileRWLockMap L g = Some b \<or> b = next_addr L \<and> b < next_addr L'"
  using assms by (cases q; auto split: if_splits option.splits lock_op.splits)+

lemma tstep_words:
  assumes "tstep L q = Some (L', p)" "\<not> at_lock f q" "rw_readers L' b \<noteq> rw_readers L b \<or> rw_writer L' b \<noteq> rw_writer L b"
  shows "\<exists>g. g \<noteq> f \<and> (waits_at q = Some (g, b) \<or> FileRWLockMap L g = Some b)"
  using assms by (cases q; auto simp: at_lock_def split: if_splits option.splits lock_op.splits)

lemma rw_inv_move:
  assumes inv: "rw_inv f (L, ths)" and t: "tstep L (ths i) = Some (L', p)"
  shows "rw_inv f (L', ths(i := p))"
proof (cases "at_lock f (ths i)")
  case True
  then show ?thesis using rw_inv_at_lock [OF inv t] by (simp add: at_lock_def)
next
  case out: False
  note I = rw_invD [OF inv]
  show ?thesis
  proof (cases "FileRWLockMap L f = None \<and> (\<exists>op. ths i = Add32 op \<and> op_file op = f)")
    case True
    then obtain op where op: "ths i = Add32 op" "op_file op = f" "FileRWLockMap L f = None" by blast
    have "\<not> writes_file f (Add32 op)" using rw_invD_None(2) [OF inv op(3), of i] op(1) by simp
    with op t show ?thesis by (intro rw_inv_create [OF inv op(3)]) auto
  next
    case False
    note c = tstep_class [OF t out] and m = tstep_maps [OF t I(5)]
    have w: "b < next_addr L \<and> FileRWLockMap L f \<noteq> Some b"
      if ch: "rw_readers L' b \<noteq> rw_readers L b \<or> rw_writer L' b \<noteq> rw_writer L b" for b
    proof -
      obtain g where g: "g \<noteq> f" "waits_at (ths i) = Some (g, b) \<or> FileRWLockMap L g = Some b"
        using tstep_words [OF t out ch] by blast
      with I(3) [of g b] I(4) [of i g b] rw_invD_Some(6,7) [OF inv _ g(1)] show ?thesis by blast
    qed
    show ?thesis
    proof (rule rw_inv_stutter [OF inv _ _ _ w])
      show "\<not> deletes_file f p" using c(3) I(5) by blast
    qed (use False m c in blast)+
  qed
qed

lemma rw_inv_start:
  assumes "rw_inv f (L, ths)" "ths i = Idle" "op \<noteq> OpDel f" "op \<noteq> OpUnlockFile (op_file op)"
  shows "rw_inv f (L, ths(i := Enter op))"
  by (rule rw_inv_stutter [OF assms(1)]) (use assms in auto)

text \<open>Nobody deletes the locks of \<open>f\<close>.\<close>

definition no_delete :: "string \<Rightarrow> lock_op \<Rightarrow> bool" where
  "no_delete f op \<longleftrightarrow> op \<noteq> OpDel f"

lemma rw_inv_reach:
  assumes "lock_reach (no_delete f) s s'" "rw_inv f s"
  shows "rw_inv f s'"
  using assms unfolding lock_reach_def
proof (induction rule: rtranclp_induct)
  case (step y z)
  from step(2) show ?case
  proof cases
    case (Start ths i op L)
    then show ?thesis using rw_inv_start [of f L ths i op] step(3,4) by (auto simp: no_delete_def)
  next
    case (Move L ths i L' p)
    then show ?thesis using rw_inv_move [of f L ths i L' p] step(3,4) by simp
  qed
qed

lemma file_lock_excludes:
  assumes "rw_inv f (L, ths)" "writes_file f (ths i)"
  shows "\<not> reads_file f (ths j)" "writes_file f (ths j) \<Longrightarrow> i = j"
proof -
  obtain a where a: "FileRWLockMap L f = Some a" using rw_invD_None(2) [OF assms(1)] assms(2) by (cases "FileRWLockMap L f") auto
  note N = rw_invD_Some [OF assms(1) a]
  have "rw_readers L a = 0" using N(2,3) assms(2) by blast
  then have "card {i. reads_file f (ths i)} = 0" using N(1) by simp
  then show "\<not> reads_file f (ths j)" using finite_readers [OF rw_invD(1) [OF assms(1)], of f] by simp
  show "writes_file f (ths j) \<Longrightarrow> i = j" using N(4) assms(2) by blast
qed

subsection \<open>The mutex of a cell\<close>

text \<open>A goroutine that holds the mutex of the cell, or is about to give it back.\<close>

definition holds_cell :: "string \<Rightarrow> string \<Rightarrow> pc \<Rightarrow> bool" where
  "holds_cell f c p \<longleftrightarrow> p = InCell f c \<or> p = Unl74 f c"

definition creates_cell :: "string \<Rightarrow> string \<Rightarrow> pc \<Rightarrow> bool" where
  "creates_cell f c p \<longleftrightarrow> p \<in> {Cell63 f c, Cell64 f c, Cell65 f c, Cell66 f c}"

definition cell_inv :: "string \<Rightarrow> string \<Rightarrow> nat \<Rightarrow> lock_conf \<Rightarrow> bool" where
  "cell_inv f c m s \<longleftrightarrow> (case s of (L, ths) \<Rightarrow>
     cell_mutex L f c = Some m \<and>
     (\<forall>g d b. cell_mutex L g d = Some b \<longrightarrow> b < next_addr L \<and> ((g, d) \<noteq> (f, c) \<longrightarrow> b \<noteq> m)) \<and>
     (\<forall>i g d b. ths i = WaitCell g d b \<longrightarrow> b < next_addr L \<and> (b = m \<longleftrightarrow> (g, d) = (f, c))) \<and>
     (\<forall>i. \<not> deletes_file f (ths i) \<and> \<not> creates_cell f c (ths i)) \<and>
     (mu_locked L m \<longleftrightarrow> (\<exists>i. holds_cell f c (ths i))) \<and>
     (\<forall>i j. holds_cell f c (ths i) \<and> holds_cell f c (ths j) \<longrightarrow> i = j))"

lemma cell_invD:
  assumes "cell_inv f c m (L, ths)"
  shows "cell_mutex L f c = Some m" "cell_mutex L g d = Some b \<Longrightarrow> b < next_addr L"
    and "cell_mutex L g d = Some b \<Longrightarrow> (g, d) \<noteq> (f, c) \<Longrightarrow> b \<noteq> m"
    and "ths i = WaitCell g d b \<Longrightarrow> b < next_addr L" "ths i = WaitCell g d b \<Longrightarrow> b = m \<longleftrightarrow> (g, d) = (f, c)"
    and "\<not> deletes_file f (ths i)" "\<not> creates_cell f c (ths i)"
    and "mu_locked L m \<longleftrightarrow> (\<exists>i. holds_cell f c (ths i))" "holds_cell f c (ths i) \<Longrightarrow> holds_cell f c (ths j) \<Longrightarrow> i = j"
  using assms by (auto simp: cell_inv_def)

lemma cell_invI:
  assumes "cell_mutex L f c = Some m" "\<And>g d b. cell_mutex L g d = Some b \<Longrightarrow> b < next_addr L"
    "\<And>g d b. cell_mutex L g d = Some b \<Longrightarrow> (g, d) \<noteq> (f, c) \<Longrightarrow> b \<noteq> m"
    "\<And>i g d b. ths i = WaitCell g d b \<Longrightarrow> b < next_addr L" "\<And>i g d b. ths i = WaitCell g d b \<Longrightarrow> b = m \<longleftrightarrow> (g, d) = (f, c)"
    "\<And>i. \<not> deletes_file f (ths i)" "\<And>i. \<not> creates_cell f c (ths i)"
    "mu_locked L m \<longleftrightarrow> (\<exists>i. holds_cell f c (ths i))" "\<And>i j. holds_cell f c (ths i) \<Longrightarrow> holds_cell f c (ths j) \<Longrightarrow> i = j"
  shows "cell_inv f c m (L, ths)"
  unfolding cell_inv_def prod.case using assms by blast

lemma tstep_mutexes:
  assumes "tstep L q = Some (L', p)" "\<not> deletes_file f q" "\<not> creates_cell f c q"
  shows "cell_mutex L f c = Some m \<Longrightarrow> cell_mutex L' f c = Some m" "next_addr L \<le> next_addr L'"
    and "cell_mutex L' g d = Some b \<Longrightarrow> cell_mutex L g d = Some b \<or> b = next_addr L \<and> b < next_addr L'"
  using assms
  by (cases q; auto simp: cell_mutex_def creates_cell_def bind_eq_Some_conv split: if_splits option.splits lock_op.splits)+

lemma tstep_waits_cell:
  assumes "tstep L q = Some (L', WaitCell g d b)"
  shows "cell_mutex L g d = Some b"
  using assms by (cases q) (auto split: if_splits option.splits lock_op.splits)

lemma tstep_other_cell:
  assumes "tstep L q = Some (L', p)" "\<not> creates_cell f c q" "cell_mutex L f c = Some m" "mu_locked L m \<or> q \<noteq> Unl74 f c"
  shows "deletes_file f p \<Longrightarrow> deletes_file f q" "\<not> creates_cell f c p"
    and "\<forall>b. q \<noteq> WaitCell f c b \<Longrightarrow> q \<noteq> Unl74 f c \<Longrightarrow> holds_cell f c p = holds_cell f c q"
    and "mu_locked L' a \<noteq> mu_locked L a \<Longrightarrow> \<exists>g d. q = WaitCell g d a \<or> q = Unl74 g d \<and> cell_mutex L g d = Some a"
  using assms
  by (cases q; auto simp: creates_cell_def holds_cell_def split: if_splits option.splits lock_op.splits)+

lemma cell_inv_move:
  assumes inv: "cell_inv f c m (L, ths)" and t: "tstep L (ths i) = Some (L', p)"
  shows "cell_inv f c m (L', ths(i := p))"
proof -
  note I = cell_invD [OF inv]
  let ?t = "ths(i := p)"
  have lk: "mu_locked L m \<or> ths i \<noteq> Unl74 f c" using I(8) by (metis holds_cell_def)
  note M = tstep_mutexes [OF t I(6,7)] and O = tstep_other_cell [OF t I(7) I(1) lk]
  have held: "(mu_locked L' m \<longleftrightarrow> (\<exists>j. holds_cell f c (?t j))) \<and> (\<forall>j k. holds_cell f c (?t j) \<and> holds_cell f c (?t k) \<longrightarrow> j = k)"
  proof (cases "\<exists>b. ths i = WaitCell f c b")
    case True
    then have q: "ths i = WaitCell f c m" using I(5) [of i f c] by auto
    with t have p: "p = InCell f c" "L' = L\<lparr>mu_locked := (mu_locked L)(m := True)\<rparr>" "\<not> mu_locked L m"
      by (auto split: if_splits)
    have "holds_cell f c (?t j) = (j = i)" for j using I(8) p(1,3) by (auto simp: holds_cell_def)
    then show ?thesis by (simp add: p(2))
  next
    case nw: False
    show ?thesis
    proof (cases "ths i = Unl74 f c")
      case True
      with t I(1) lk have p: "p = Unl75 f c" "L' = L\<lparr>mu_locked := (mu_locked L)(m := False)\<rparr>" by auto
      have "\<not> holds_cell f c (?t j)" for j using I(9) [of i j] True p(1) by (auto simp: holds_cell_def)
      then show ?thesis by (simp add: p(2))
    next
      case False
      have "holds_cell f c p = holds_cell f c (ths i)" using O(3) nw False by blast
      then have h: "holds_cell f c (?t j) = holds_cell f c (ths j)" for j by simp
      have "mu_locked L' m = mu_locked L m"
      proof (rule ccontr)
        assume "\<not> ?thesis"
        then obtain g d where "ths i = WaitCell g d m \<or> ths i = Unl74 g d \<and> cell_mutex L g d = Some m" using O(4) by blast
        with I(3) [of g d m] I(5) [of i g d m] nw False show False by auto
      qed
      then show ?thesis using I(8,9) by (simp only: h) blast
    qed
  qed
  show ?thesis
  proof (rule cell_invI)
    show "cell_mutex L' f c = Some m" using M(1) I(1) by blast
    show "b < next_addr L'" if "cell_mutex L' g d = Some b" for g d b using M(3) [OF that] M(2) I(2) [of g d b] by auto
    show "b \<noteq> m" if "cell_mutex L' g d = Some b" "(g, d) \<noteq> (f, c)" for g d b
      using M(3) [OF that(1)] I(3) [OF _ that(2)] I(2) [OF I(1)] by auto
    show "b < next_addr L'" if "?t j = WaitCell g d b" for j g d b
    proof (cases "j = i")
      case True
      then have "cell_mutex L g d = Some b" using that t tstep_waits_cell [of L "ths i" L' g d b] by simp
      then show ?thesis using I(2) M(2) by (meson order_less_le_trans)
    next
      case False
      then show ?thesis using that I(4) [of j g d b] M(2) by simp
    qed
    show "b = m \<longleftrightarrow> (g, d) = (f, c)" if "?t j = WaitCell g d b" for j g d b
    proof (cases "j = i")
      case True
      then have "cell_mutex L g d = Some b" using that t tstep_waits_cell [of L "ths i" L' g d b] by simp
      then show ?thesis using I(1) I(3) [of g d b] by auto
    next
      case False
      then show ?thesis using that I(5) [of j g d b] by simp
    qed
    show "\<not> deletes_file f (?t j)" "\<not> creates_cell f c (?t j)" for j using O(1,2) I(6,7) by auto
  qed (use held in blast)+
qed

lemma cell_inv_start:
  assumes inv: "cell_inv f c m (L, ths)" "ths i = Idle" "op \<noteq> OpDel f"
  shows "cell_inv f c m (L, ths(i := Enter op))"
proof -
  have "holds_cell f c ((ths(i := Enter op)) j) = holds_cell f c (ths j)" for j
    using assms(2) by (simp add: holds_cell_def)
  with inv show ?thesis unfolding cell_inv_def prod.case
    by (simp only:) (auto simp: creates_cell_def)
qed

lemma cell_inv_reach:
  assumes "lock_reach (no_delete f) s s'" "cell_inv f c m s"
  shows "cell_inv f c m s'"
  using assms unfolding lock_reach_def
proof (induction rule: rtranclp_induct)
  case (step y z)
  from step(2) show ?case
  proof cases
    case (Start ths i op L)
    then show ?thesis using cell_inv_start [of f c m L ths i op] step(3,4) by (auto simp: no_delete_def)
  next
    case (Move L ths i L' p)
    then show ?thesis using cell_inv_move [of f c m L ths i L' p] step(3,4) by simp
  qed
qed

subsection \<open>Calls of one goroutine\<close>

text \<open>
  The whole call when no other goroutine moves: \<open>None\<close> when it blocks for ever. Every call takes fewer
  than sixteen statements (\<open>drive_more\<close>).
\<close>

fun at_rest :: "pc \<Rightarrow> bool" where
  "at_rest Idle = True"
| "at_rest (InCell _ _) = True"
| "at_rest (InFile _) = True"
| "at_rest (Crashed _) = True"
| "at_rest (Fatal _) = True"
| "at_rest _ = False"

fun drive :: "nat \<Rightarrow> locks \<Rightarrow> pc \<Rightarrow> (locks \<times> pc) option" where
  "drive 0 L p = (if at_rest p then Some (L, p) else None)"
| "drive (Suc n) L p =
     (if at_rest p then Some (L, p)
      else case tstep L p of None \<Rightarrow> None | Some (L', p') \<Rightarrow> drive n L' p')"

definition call :: "locks \<Rightarrow> pc \<Rightarrow> (locks \<times> pc) option" where
  "call L p = drive 16 L p"

definition AddFileLock :: "locks \<Rightarrow> string \<Rightarrow> (locks \<times> pc) option" where
  "AddFileLock L filename = call L (Enter (OpAdd filename))"

definition DeleteFileLock :: "locks \<Rightarrow> string \<Rightarrow> (locks \<times> pc) option" where
  "DeleteFileLock L filename = call L (Enter (OpDel filename))"

definition LockCell :: "locks \<Rightarrow> string \<Rightarrow> u32 \<Rightarrow> u32 \<Rightarrow> (locks \<times> pc) option" where
  "LockCell L filename row column = call L (Enter (OpCell filename (cell_name row column)))"

definition UnlockCell :: "locks \<Rightarrow> string \<Rightarrow> u32 \<Rightarrow> u32 \<Rightarrow> (locks \<times> pc) option" where
  "UnlockCell L filename row column = call L (Unl74 filename (cell_name row column))"

definition META_ROW :: u32 where "META_ROW = NOT 0"

definition META_COL :: u32 where "META_COL = NOT 0"

definition LockMeta :: "locks \<Rightarrow> string \<Rightarrow> (locks \<times> pc) option" where
  "LockMeta L filename = LockCell L filename META_ROW META_COL"

definition UnlockMeta :: "locks \<Rightarrow> string \<Rightarrow> (locks \<times> pc) option" where
  "UnlockMeta L filename = UnlockCell L filename META_ROW META_COL"

definition LockFile :: "locks \<Rightarrow> string \<Rightarrow> (locks \<times> pc) option" where
  "LockFile L filename = call L (Enter (OpFile filename))"

definition UnlockFile :: "locks \<Rightarrow> string \<Rightarrow> (locks \<times> pc) option" where
  "UnlockFile L filename = call L (Enter (OpUnlockFile filename))"

fun pc_rank :: "pc \<Rightarrow> nat" where
  "pc_rank (Enter _) = 14"
| "pc_rank (Add27 _) = 13"
| "pc_rank (Add28 _) = 12"
| "pc_rank (Add32 _) = 11"
| "pc_rank (Add35 _) = 10"
| "pc_rank (EvalRW _) = 9"
| "pc_rank (WaitRW _ _) = 8"
| "pc_rank (Cell60 _ _) = 7"
| "pc_rank (Cell63 _ _) = 6"
| "pc_rank (Cell64 _ _) = 5"
| "pc_rank (Cell65 _ _) = 4"
| "pc_rank (Cell66 _ _) = 3"
| "pc_rank (WaitCell _ _ _) = 2"
| "pc_rank (Unl74 _ _) = 2"
| "pc_rank (Unl75 _ _) = 1"
| "pc_rank (Del42 _) = 4"
| "pc_rank (Del43 _) = 3"
| "pc_rank (Del46 _) = 2"
| "pc_rank (Del49 _) = 1"
| "pc_rank _ = 0"

lemma tstep_rank: "tstep L p = Some (L', p') \<Longrightarrow> \<not> at_rest p \<Longrightarrow> pc_rank p' < pc_rank p"
  by (cases p) (auto split: if_splits option.splits lock_op.splits)

lemma drive_more: "pc_rank p \<le> n \<Longrightarrow> drive (n + k) L p = drive n L p"
proof (induction n arbitrary: L p)
  case 0
  then have "at_rest p" by (cases p) auto
  then show ?case by (cases k) auto
next
  case (Suc n)
  then show ?case using tstep_rank [of L p] by (fastforce split: option.splits)
qed

text \<open>No lock is held, and every mutex belongs to one cell or file.\<close>

definition quiet :: "locks \<Rightarrow> bool" where
  "quiet L \<longleftrightarrow> \<not> FileLock L \<and> (\<forall>a. \<not> mu_locked L a \<and> rw_readers L a = 0 \<and> \<not> rw_writer L a) \<and>
     (\<forall>f a. FileRWLockMap L f = Some a \<longrightarrow> a < next_addr L \<and> FileLockMap L f \<noteq> None) \<and>
     (\<forall>f c a. cell_mutex L f c = Some a \<longrightarrow> a < next_addr L) \<and>
     (\<forall>f g a. FileRWLockMap L f = Some a \<and> FileRWLockMap L g = Some a \<longrightarrow> f = g) \<and>
     (\<forall>f g c d a. cell_mutex L f c = Some a \<and> cell_mutex L g d = Some a \<longrightarrow> f = g \<and> c = d)"

lemma quiet_init: "quiet init_locks"
  by (simp add: quiet_def init_locks_def cell_mutex_def)

text \<open>The locks with a file and a cell registered.\<close>

definition reg_file :: "locks \<Rightarrow> string \<Rightarrow> locks" where
  "reg_file L f =
     (if FileRWLockMap L f \<noteq> None then L
      else L\<lparr>FileLockMap := (case FileLockMap L f of None \<Rightarrow> (FileLockMap L)(f \<mapsto> Map.empty) | Some _ \<Rightarrow> FileLockMap L),
             FileRWLockMap := (FileRWLockMap L)(f \<mapsto> next_addr L), next_addr := Suc (next_addr L)\<rparr>)"

definition reg_cell :: "locks \<Rightarrow> string \<Rightarrow> string \<Rightarrow> locks" where
  "reg_cell L f c =
     (if cell_mutex L f c \<noteq> None then L
      else L\<lparr>FileLockMap := (FileLockMap L)(f \<mapsto> (the (FileLockMap L f))(c \<mapsto> next_addr L)), next_addr := Suc (next_addr L)\<rparr>)"

lemma quietD:
  assumes "quiet L"
  shows "\<not> FileLock L" "\<not> mu_locked L a" "rw_readers L a = 0" "\<not> rw_writer L a"
    and "FileRWLockMap L f = Some a \<Longrightarrow> a < next_addr L" "FileRWLockMap L f = Some a \<Longrightarrow> FileLockMap L f \<noteq> None"
    and "cell_mutex L f c = Some a \<Longrightarrow> a < next_addr L"
    and "FileRWLockMap L f = Some a \<Longrightarrow> FileRWLockMap L g = Some a \<Longrightarrow> f = g"
    and "cell_mutex L f c = Some a \<Longrightarrow> cell_mutex L g d = Some a \<Longrightarrow> f = g \<and> c = d"
  using assms unfolding quiet_def by blast+

lemma cell_mutex_reg_file: "cell_mutex (reg_file L f) g d = cell_mutex L g d"
  by (auto simp: reg_file_def cell_mutex_def split: option.splits)

lemma reg_file_maps:
  assumes "quiet L"
  shows "FileRWLockMap (reg_file L f) f \<noteq> None" "FileLockMap (reg_file L f) f \<noteq> None"
    and "FileRWLockMap L f = Some a \<Longrightarrow> reg_file L f = L"
  using quietD(6) [OF assms, of f] by (cases "FileRWLockMap L f"; force simp: reg_file_def split: option.splits)+

lemma quiet_reg_file:
  assumes "quiet L"
  shows "quiet (reg_file L f)"
proof (cases "FileRWLockMap L f")
  case None
  let ?L = "reg_file L f"
  note Q = quietD [OF assms]
  have e: "FileRWLockMap ?L = (FileRWLockMap L)(f \<mapsto> next_addr L)" "next_addr ?L = Suc (next_addr L)"
    "FileLock ?L = FileLock L" "mu_locked ?L = mu_locked L" "rw_readers ?L = rw_readers L" "rw_writer ?L = rw_writer L"
    "\<And>g. FileLockMap L g \<noteq> None \<or> g = f \<Longrightarrow> FileLockMap ?L g \<noteq> None"
    using None by (auto simp: reg_file_def split: option.splits)
  have lt: "FileRWLockMap L g \<noteq> Some (next_addr L)" for g using Q(5) [of g "next_addr L"] by auto
  show ?thesis unfolding quiet_def cell_mutex_reg_file e
  proof (intro conjI allI impI)
    fix g a assume a: "((FileRWLockMap L)(f \<mapsto> next_addr L)) g = Some a"
    then show "a < Suc (next_addr L)" using Q(5) [of g a] by (auto split: if_splits)
    show "FileLockMap ?L g \<noteq> None" using a Q(6) [of g a] e(7) by (auto split: if_splits)
  next
    fix g h a assume "((FileRWLockMap L)(f \<mapsto> next_addr L)) g = Some a \<and> ((FileRWLockMap L)(f \<mapsto> next_addr L)) h = Some a"
    then show "g = h" using lt Q(8) [of g a h] by (auto split: if_splits)
  next
    fix g d a assume "cell_mutex L g d = Some a" then show "a < Suc (next_addr L)" using Q(7) [of g d a] by simp
  qed (use Q in blast)+
qed (use assms in \<open>simp add: reg_file_def\<close>)

lemma cell_mutex_reg_cell:
  "FileLockMap L f \<noteq> None \<Longrightarrow> cell_mutex (reg_cell L f c) g d =
     (if (g, d) = (f, c) \<and> cell_mutex L f c = None then Some (next_addr L) else cell_mutex L g d)"
  by (auto simp: reg_cell_def cell_mutex_def)

lemma quiet_reg_cell:
  assumes "quiet L" "FileLockMap L f \<noteq> None"
  shows "quiet (reg_cell L f c)"
proof (cases "cell_mutex L f c")
  case None
  let ?L = "reg_cell L f c"
  note Q = quietD [OF assms(1)]
  have e: "FileRWLockMap ?L = FileRWLockMap L" "next_addr ?L = Suc (next_addr L)"
    "FileLock ?L = FileLock L" "mu_locked ?L = mu_locked L" "rw_readers ?L = rw_readers L" "rw_writer ?L = rw_writer L"
    "\<And>g. FileLockMap L g \<noteq> None \<Longrightarrow> FileLockMap ?L g \<noteq> None"
    using None by (auto simp: reg_cell_def)
  have lt: "cell_mutex L g d \<noteq> Some (next_addr L)" for g d using Q(7) [of g d "next_addr L"] by auto
  show ?thesis unfolding quiet_def cell_mutex_reg_cell [OF assms(2)] e
  proof (intro conjI allI impI)
    fix g d a assume "(if (g, d) = (f, c) \<and> cell_mutex L f c = None then Some (next_addr L) else cell_mutex L g d) = Some a"
    then show "a < Suc (next_addr L)" using Q(7) [of g d a] by (auto split: if_splits)
  next
    fix g h d e' a
    assume "(if (g, d) = (f, c) \<and> cell_mutex L f c = None then Some (next_addr L) else cell_mutex L g d) = Some a \<and>
      (if (h, e') = (f, c) \<and> cell_mutex L f c = None then Some (next_addr L) else cell_mutex L h e') = Some a"
    then show "g = h" "d = e'" using lt Q(9) [of g d a h e'] by (auto split: if_splits)
  next
    fix g a assume "FileRWLockMap L g = Some a"
    then show "a < Suc (next_addr L)" "FileLockMap ?L g \<noteq> None" using Q(5,6) [of g a] e(7) by auto
  qed (use Q in blast)+
qed (use assms in \<open>simp add: reg_cell_def\<close>)

definition held_cell :: "locks \<Rightarrow> nat \<Rightarrow> nat \<Rightarrow> locks" where
  "held_cell L a m = L\<lparr>rw_readers := (rw_readers L)(a := 1), mu_locked := (mu_locked L)(m := True)\<rparr>"

lemma drive_upto: "drive n L p = r \<Longrightarrow> r \<noteq> None \<Longrightarrow> n \<le> m \<Longrightarrow> drive m L p = r"
proof (induction n arbitrary: L p m)
  case 0
  then show ?case by (cases m) (auto split: if_splits)
next
  case (Suc n)
  then obtain k where "m = Suc k" "n \<le> k" by (cases m) auto
  with Suc show ?case by (auto split: option.splits if_splits)
qed

lemma drive_step: "\<not> at_rest p \<Longrightarrow> tstep L p = Some (L', p') \<Longrightarrow> drive (Suc n) L p = drive n L' p'"
  by simp

lemma drive_enter:
  assumes "quiet L" "op = OpCell f c \<or> op = OpFile f"
  shows "FileRWLockMap L f = None \<Longrightarrow> drive (Suc (Suc (Suc (Suc (Suc n))))) L (Enter op) = drive n (reg_file L f) (EvalRW op)"
    and "FileRWLockMap L f \<noteq> None \<Longrightarrow> drive (Suc n) L (Enter op) = drive n (reg_file L f) (EvalRW op)"
proof -
  assume N: "FileRWLockMap L f = None"
  let ?M = "case FileLockMap L f of None \<Rightarrow> (FileLockMap L)(f \<mapsto> Map.empty) | Some _ \<Rightarrow> FileLockMap L"
  let ?L1 = "L\<lparr>FileLock := True\<rparr>"
  let ?L2 = "L\<lparr>FileLock := True, FileLockMap := ?M\<rparr>" and ?L3 = "(reg_file L f)\<lparr>FileLock := True\<rparr>"
  have o: "op_file op = f" using assms(2) by auto
  have fl: "\<not> FileLock L" using quietD(1) [OF assms(1)] .
  have s1: "tstep L (Enter op) = Some (L, Add27 op)" using N assms(2) by (elim disjE) simp_all
  have s2: "tstep L (Add27 op) = Some (?L1, Add28 op)" using fl by simp
  have s3: "tstep ?L1 (Add28 op) = Some (?L2, Add32 op)" using o by (simp split: option.splits)
  have s4: "tstep ?L2 (Add32 op) = Some (?L3, Add35 op)" using N o by (simp add: reg_file_def)
  have "FileLock (reg_file L f) = False" using fl by (simp add: reg_file_def)
  then have "reg_file L f\<lparr>FileLock := False\<rparr> = reg_file L f" by simp
  then have s5: "tstep ?L3 (Add35 op) = Some (reg_file L f, EvalRW op)" using assms(2) by (elim disjE) simp_all
  show "drive (Suc (Suc (Suc (Suc (Suc n))))) L (Enter op) = drive n (reg_file L f) (EvalRW op)"
    by (simp only: drive_step [OF _ s1] drive_step [OF _ s2] drive_step [OF _ s3] drive_step [OF _ s4] drive_step [OF _ s5]
      at_rest.simps not_False_eq_True)
next
  assume N: "FileRWLockMap L f \<noteq> None"
  then have s1: "tstep L (Enter op) = Some (L, EvalRW op)" using assms(2) by (elim disjE) simp_all
  have "reg_file L f = L" using N by (simp add: reg_file_def)
  then show "drive (Suc n) L (Enter op) = drive n (reg_file L f) (EvalRW op)"
    by (simp only: drive_step [OF _ s1] at_rest.simps not_False_eq_True)
qed

lemma call_enter:
  assumes "quiet L" "op = OpCell f c \<or> op = OpFile f"
  shows "\<exists>n. 10 \<le> n \<and> call L (Enter op) = drive n (reg_file L f) (EvalRW op)"
proof (cases "FileRWLockMap L f = None")
  case True
  show ?thesis unfolding call_def using drive_enter(1) [OF assms True, of 11] by (intro exI [of _ 11]) simp
next
  case False
  show ?thesis unfolding call_def using drive_enter(2) [OF assms False, of 15] by (intro exI [of _ 15]) simp
qed

lemma drive_rest: "at_rest p \<Longrightarrow> drive n L p = Some (L, p)"
  by (cases n) auto

lemma drive_eval_cell:
  assumes "FileRWLockMap L f = Some a" "\<not> rw_writer L a" "rw_readers L a = 0"
  shows "drive (Suc (Suc n)) L (EvalRW (OpCell f c)) = drive n (L\<lparr>rw_readers := (rw_readers L)(a := 1)\<rparr>) (Cell60 f c)"
  using assms by simp

lemma drive_cell_old:
  assumes "cell_mutex L f c = Some m" "\<not> mu_locked L m"
  shows "drive (Suc (Suc n)) L (Cell60 f c) = Some (L\<lparr>mu_locked := (mu_locked L)(m := True)\<rparr>, InCell f c)"
  using assms by (simp add: drive_rest)

lemma drive_cell_new:
  assumes "cell_mutex L f c = None" "FileLockMap L f = Some mp" "\<not> FileLock L" "\<not> mu_locked L (next_addr L)"
  shows "drive (Suc (Suc (Suc (Suc (Suc (Suc n)))))) L (Cell60 f c) =
    Some ((reg_cell L f c)\<lparr>mu_locked := (mu_locked L)(next_addr L := True)\<rparr>, InCell f c)"
proof -
  let ?L = "L\<lparr>FileLockMap := (FileLockMap L)(f \<mapsto> mp(c \<mapsto> next_addr L)), next_addr := Suc (next_addr L)\<rparr>"
  have L: "?L = reg_cell L f c" using assms(1,2) by (simp add: reg_cell_def)
  have u: "(?L\<lparr>FileLock := True\<rparr>)\<lparr>FileLock := False\<rparr> = ?L" using assms(3) by simp
  have m: "cell_mutex ?L f c = Some (next_addr L)" by (simp add: cell_mutex_def)
  have s: "tstep L (Cell60 f c) = Some (L, Cell63 f c)" "tstep L (Cell63 f c) = Some (L\<lparr>FileLock := True\<rparr>, Cell64 f c)"
    "tstep (L\<lparr>FileLock := True\<rparr>) (Cell64 f c) = Some (?L\<lparr>FileLock := True\<rparr>, Cell65 f c)"
    "tstep (?L\<lparr>FileLock := True\<rparr>) (Cell65 f c) = Some (?L, Cell66 f c)"
    "tstep ?L (Cell66 f c) = Some (?L, WaitCell f c (next_addr L))"
    "tstep ?L (WaitCell f c (next_addr L)) = Some (?L\<lparr>mu_locked := (mu_locked L)(next_addr L := True)\<rparr>, InCell f c)"
    using assms m u by (simp_all del: fun_upd_apply)
  show ?thesis unfolding L [symmetric]
    by (simp only: drive_step [OF _ s(1)] drive_step [OF _ s(2)] drive_step [OF _ s(3)] drive_step [OF _ s(4)]
      drive_step [OF _ s(5)] drive_step [OF _ s(6)] drive_rest at_rest.simps not_False_eq_True)
qed

lemma call_cell:
  assumes "quiet L"
  shows "\<exists>L' a m. call L (Enter (OpCell f c)) = Some (held_cell L' a m, InCell f c) \<and> quiet L' \<and>
    FileRWLockMap L' f = Some a \<and> cell_mutex L' f c = Some m"
proof -
  let ?F = "reg_file L f" and ?L = "reg_cell (reg_file L f) f c"
  have q: "quiet ?F" "quiet ?L" using quiet_reg_file [OF assms] quiet_reg_cell reg_file_maps(2) [OF assms] by auto
  obtain a mp where a: "FileRWLockMap ?F f = Some a" "FileLockMap ?F f = Some mp"
    using reg_file_maps [OF assms, of f] by auto
  obtain n where n: "10 \<le> n" "call L (Enter (OpCell f c)) = drive n ?F (EvalRW (OpCell f c))"
    using call_enter [OF assms, of "OpCell f c" f c] by auto
  note Q = quietD(1-4) [OF q(1)]
  let ?G = "?F\<lparr>rw_readers := (rw_readers ?F)(a := 1)\<rparr>"
  obtain k where "n = 8 + k" using n(1) le_Suc_ex [of 8 n] by auto
  then have "n = Suc (Suc (Suc (Suc (Suc (Suc (Suc (Suc k)))))))" by simp
  then have s: "call L (Enter (OpCell f c)) = drive (Suc (Suc (Suc (Suc (Suc (Suc k)))))) ?G (Cell60 f c)"
    using n(2) drive_eval_cell [OF a(1) Q(4,3)] by simp
  have aL: "FileRWLockMap ?L f = Some a" using a by (simp add: reg_cell_def)
  show ?thesis
  proof (cases "cell_mutex ?F f c")
    case None
    have "cell_mutex ?G f c = None" "FileLockMap ?G f = Some mp" "\<not> FileLock ?G" "\<not> mu_locked ?G (next_addr ?G)"
      using None a Q by (simp_all add: cell_mutex_def)
    from drive_cell_new [OF this, of k] s have
      "call L (Enter (OpCell f c)) = Some ((reg_cell ?G f c)\<lparr>mu_locked := (mu_locked ?G)(next_addr ?G := True)\<rparr>, InCell f c)"
      by simp
    moreover have "(reg_cell ?G f c)\<lparr>mu_locked := (mu_locked ?G)(next_addr ?G := True)\<rparr> = held_cell ?L a (next_addr ?F)"
      by (simp add: held_cell_def reg_cell_def cell_mutex_def)
    moreover have "cell_mutex ?L f c = Some (next_addr ?F)" using None a by (simp add: cell_mutex_reg_cell)
    ultimately show ?thesis using q(2) aL by auto
  next
    case (Some m)
    have "cell_mutex ?G f c = Some m" "\<not> mu_locked ?G m" using Some Q by (simp_all add: cell_mutex_def)
    from drive_cell_old [OF this, of "Suc (Suc (Suc (Suc k)))"] s have
      "call L (Enter (OpCell f c)) = Some (?G\<lparr>mu_locked := (mu_locked ?G)(m := True)\<rparr>, InCell f c)" by simp
    moreover have "?G\<lparr>mu_locked := (mu_locked ?G)(m := True)\<rparr> = held_cell ?L a m" using Some by (simp add: held_cell_def reg_cell_def)
    moreover have "cell_mutex ?L f c = Some m" using Some by (simp add: reg_cell_def)
    ultimately show ?thesis using q(2) aL by auto
  qed
qed

lemma call_unlock_cell:
  assumes "quiet L" "FileRWLockMap L f = Some a" "cell_mutex L f c = Some m"
  shows "call (held_cell L a m) (Unl74 f c) = Some (L, Idle)"
proof -
  note Q = quietD(2,3) [OF assms(1)]
  have m: "cell_mutex (held_cell L a m) f c = Some m" using assms(3) by (simp add: held_cell_def cell_mutex_def)
  have e: "(held_cell L a m)\<lparr>mu_locked := (mu_locked (held_cell L a m))(m := False)\<rparr> = L\<lparr>rw_readers := (rw_readers L)(a := 1)\<rparr>"
    using Q by (simp add: held_cell_def fun_upd_idem)
  have r: "L\<lparr>rw_readers := (rw_readers L)(a := 0)\<rparr> = L" using Q(2) [of a] by (simp add: fun_upd_idem)
  have "drive 2 (held_cell L a m) (Unl74 f c) = Some (L, Idle)"
    using m assms(2) e r by (simp add: numeral_eq_Suc) (simp add: held_cell_def)
  then show ?thesis unfolding call_def by (rule drive_upto) simp_all
qed

definition held_file :: "locks \<Rightarrow> nat \<Rightarrow> locks" where
  "held_file L a = L\<lparr>rw_writer := (rw_writer L)(a := True)\<rparr>"

lemma call_file:
  assumes "quiet L"
  shows "\<exists>L' a. call L (Enter (OpFile f)) = Some (held_file L' a, InFile f) \<and> quiet L' \<and> FileRWLockMap L' f = Some a"
proof -
  let ?F = "reg_file L f"
  note q = quiet_reg_file [OF assms, of f]
  obtain a where a: "FileRWLockMap ?F f = Some a" using reg_file_maps(1) [OF assms, of f] by auto
  obtain n where n: "10 \<le> n" "call L (Enter (OpFile f)) = drive n ?F (EvalRW (OpFile f))"
    using call_enter [OF assms, of "OpFile f" f] by auto
  note Q = quietD(3,4) [OF q]
  obtain k where k: "n = Suc (Suc k)" using n(1) le_Suc_ex [of 2 n] by auto
  have s1: "tstep ?F (EvalRW (OpFile f)) = Some (?F, WaitRW (OpFile f) a)" using a by simp
  have s2: "tstep ?F (WaitRW (OpFile f) a) = Some (held_file ?F a, InFile f)" using Q by (simp add: held_file_def)
  have "call L (Enter (OpFile f)) = Some (held_file ?F a, InFile f)"
    unfolding n(2) k by (simp only: drive_step [OF _ s1] drive_step [OF _ s2] drive_rest at_rest.simps not_False_eq_True)
  with q a show ?thesis by blast
qed

lemma call_unlock_file:
  assumes "quiet L" "FileRWLockMap L f = Some a"
  shows "call (held_file L a) (Enter (OpUnlockFile f)) = Some (L, Idle)"
proof -
  let ?H = "held_file L a"
  have "L\<lparr>rw_writer := (rw_writer L)(a := False)\<rparr> = L" using quietD(4) [OF assms(1), of a] by (simp add: fun_upd_idem)
  then have s2: "tstep ?H (EvalRW (OpUnlockFile f)) = Some (L, Idle)" using assms(2) by (simp add: held_file_def)
  have s1: "tstep ?H (Enter (OpUnlockFile f)) = Some (?H, EvalRW (OpUnlockFile f))" using assms(2) by (simp add: held_file_def)
  have "drive (Suc (Suc 14)) ?H (Enter (OpUnlockFile f)) = Some (L, Idle)"
    by (simp only: drive_step [OF _ s1] drive_step [OF _ s2] drive_rest at_rest.simps not_False_eq_True)
  then show ?thesis by (simp add: call_def)
qed

lemma call_add:
  assumes "quiet L"
  shows "\<exists>L'. call L (Enter (OpAdd f)) = Some (L', Idle) \<and> quiet L'"
proof -
  let ?op = "OpAdd f" and ?L3 = "(reg_file L f)\<lparr>FileLock := True\<rparr>"
  let ?M = "case FileLockMap L f of None \<Rightarrow> (FileLockMap L)(f \<mapsto> Map.empty) | Some _ \<Rightarrow> FileLockMap L"
  let ?L1 = "L\<lparr>FileLock := True\<rparr>" and ?L2 = "L\<lparr>FileLock := True, FileLockMap := ?M\<rparr>"
  have fl: "\<not> FileLock L" using quietD(1) [OF assms] .
  have m: "?M = FileLockMap L" if "FileRWLockMap L f \<noteq> None" using quietD(6) [OF assms, of f] that by auto
  have s1: "tstep L (Enter ?op) = Some (L, Add27 ?op)" by simp
  have s2: "tstep L (Add27 ?op) = Some (?L1, Add28 ?op)" using fl by simp
  have s3: "tstep ?L1 (Add28 ?op) = Some (?L2, Add32 ?op)" by (simp split: option.splits)
  have s4: "tstep ?L2 (Add32 ?op) = Some (?L3, Add35 ?op)"
    using m by (cases "FileRWLockMap L f") (simp_all add: reg_file_def)
  have "FileLock (reg_file L f) = False" using fl by (simp add: reg_file_def)
  then have "reg_file L f\<lparr>FileLock := False\<rparr> = reg_file L f" by simp
  then have s5: "tstep ?L3 (Add35 ?op) = Some (reg_file L f, Idle)" by simp
  have "drive (Suc (Suc (Suc (Suc (Suc 11))))) L (Enter ?op) = Some (reg_file L f, Idle)"
    by (simp only: drive_step [OF _ s1] drive_step [OF _ s2] drive_step [OF _ s3] drive_step [OF _ s4] drive_step [OF _ s5]
      drive_rest at_rest.simps not_False_eq_True)
  then show ?thesis using quiet_reg_file [OF assms] by (simp add: call_def)
qed

lemma call_delete:
  assumes "quiet L"
  shows "\<exists>L'. call L (Enter (OpDel f)) = Some (L', Idle) \<and> quiet L' \<and> FileRWLockMap L' f = None"
proof -
  note Q = quietD [OF assms]
  let ?L1 = "L\<lparr>FileLock := True\<rparr>"
  let ?L2 = "L\<lparr>FileLock := True, FileLockMap := (FileLockMap L)(f := None)\<rparr>"
  let ?L3 = "L\<lparr>FileLock := True, FileLockMap := (FileLockMap L)(f := None), FileRWLockMap := (FileRWLockMap L)(f := None)\<rparr>"
  let ?L = "L\<lparr>FileLockMap := (FileLockMap L)(f := None), FileRWLockMap := (FileRWLockMap L)(f := None)\<rparr>"
  have s: "tstep L (Enter (OpDel f)) = Some (L, Del42 f)" "tstep L (Del42 f) = Some (?L1, Del43 f)"
    "tstep ?L1 (Del43 f) = Some (?L2, Del46 f)" "tstep ?L2 (Del46 f) = Some (?L3, Del49 f)"
    "tstep ?L3 (Del49 f) = Some (?L, Idle)" using Q(1) by simp_all
  have "drive (Suc (Suc (Suc (Suc (Suc 11))))) L (Enter (OpDel f)) = Some (?L, Idle)"
    by (simp only: drive_step [OF _ s(1)] drive_step [OF _ s(2)] drive_step [OF _ s(3)] drive_step [OF _ s(4)] drive_step [OF _ s(5)]
      drive_rest at_rest.simps not_False_eq_True)
  moreover have cm: "cell_mutex ?L g d = Some a \<Longrightarrow> cell_mutex L g d = Some a" for g d a
    by (auto simp: cell_mutex_def split: if_splits)
  moreover have "quiet ?L" unfolding quiet_def
  proof (intro conjI allI impI)
    fix g a assume "FileRWLockMap ?L g = Some a"
    then show "a < next_addr ?L" "FileLockMap ?L g \<noteq> None" using Q(5,6) [of g a] by (auto split: if_splits)
  next
    fix g c a assume "cell_mutex ?L g c = Some a" then show "a < next_addr ?L" using Q(7) [OF cm] by simp
  next
    fix g h a assume "FileRWLockMap ?L g = Some a \<and> FileRWLockMap ?L h = Some a"
    then show "g = h" using Q(8) [of g a h] by (auto split: if_splits)
  next
    fix g h c d a assume "cell_mutex ?L g c = Some a \<and> cell_mutex ?L h d = Some a"
    then show "g = h" "c = d" using Q(9) [OF cm cm] by blast+
  qed (use Q in auto)
  ultimately show ?thesis by (intro exI [of _ ?L]) (simp add: call_def)
qed

subsection \<open>Executable schedules\<close>

text \<open>
  A schedule names the goroutine that moves, with the call it starts when it is idle. Goroutines beyond
  the list are idle.
\<close>

definition pcs :: "pc list \<Rightarrow> nat \<Rightarrow> pc" where
  "pcs ps i = (if i < length ps then ps ! i else Idle)"

fun is_fatal :: "pc \<Rightarrow> bool" where
  "is_fatal (Fatal _) = True"
| "is_fatal _ = False"

fun run_move :: "locks \<times> pc list \<Rightarrow> nat \<times> lock_op option \<Rightarrow> (locks \<times> pc list) option" where
  "run_move (L, ps) (i, start) =
     (if length ps \<le> i \<or> list_ex is_fatal ps then None
      else case start of
        Some op \<Rightarrow> if ps ! i = Idle \<and> op \<noteq> OpUnlockFile (op_file op) then Some (L, ps[i := Enter op]) else None
      | None \<Rightarrow> (case tstep L (ps ! i) of None \<Rightarrow> None | Some (L', p) \<Rightarrow> Some (L', ps[i := p])))"

fun run_moves :: "locks \<times> pc list \<Rightarrow> (nat \<times> lock_op option) list \<Rightarrow> (locks \<times> pc list) option" where
  "run_moves s [] = Some s"
| "run_moves s (m # ms) = Option.bind (run_move s m) (\<lambda>s'. run_moves s' ms)"

lemma pcs_upd: "i < length ps \<Longrightarrow> pcs (ps[i := p]) = (pcs ps)(i := p)"
  by (auto simp: pcs_def fun_eq_iff)

lemma pcs_alive: "\<not> list_ex is_fatal ps \<Longrightarrow> alive (pcs ps)"
  by (auto simp: alive_def pcs_def list_ex_iff) (metis is_fatal.simps(1) nth_mem)

lemma run_move_step:
  assumes "run_move (L, ps) (i, start) = Some (L', ps')" "\<And>op. start = Some op \<Longrightarrow> allowed op"
  shows "lock_step allowed (L, pcs ps) (L', pcs ps')"
proof (cases start)
  case None
  with assms(1) obtain p where p: "tstep L (ps ! i) = Some (L', p)" "ps' = ps[i := p]" "i < length ps" "\<not> list_ex is_fatal ps"
    by (auto split: if_splits option.splits)
  then show ?thesis using lock_step.Move [of L "pcs ps" i L' p] pcs_alive by (simp add: pcs_upd) (simp add: pcs_def)
next
  case (Some op)
  with assms(1) have p: "ps ! i = Idle" "op \<noteq> OpUnlockFile (op_file op)" "L' = L" "ps' = ps[i := Enter op]"
    "i < length ps" "\<not> list_ex is_fatal ps"
    by (auto split: if_splits)
  then show ?thesis using lock_step.Start [of "pcs ps" i allowed op L] pcs_alive assms(2) [OF Some]
    by (simp add: pcs_upd) (simp add: pcs_def)
qed

lemma run_moves_reach:
  assumes "run_moves (L, ps) ms = Some (L', ps')" "\<And>i op. (i, Some op) \<in> set ms \<Longrightarrow> allowed op"
  shows "lock_reach allowed (L, pcs ps) (L', pcs ps')"
  using assms
proof (induction ms arbitrary: L ps)
  case (Cons m ms)
  obtain i start where m: "m = (i, start)" by fastforce
  from Cons(2) obtain L1 ps1 where 1: "run_move (L, ps) (i, start) = Some (L1, ps1)" "run_moves (L1, ps1) ms = Some (L', ps')"
    by (auto simp: m bind_eq_Some_conv simp del: run_move.simps)
  have "lock_step allowed (L, pcs ps) (L1, pcs ps1)" by (rule run_move_step [OF 1(1)]) (use Cons(3) m in auto)
  moreover have "lock_reach allowed (L1, pcs ps1) (L', pcs ps')" by (rule Cons(1) [OF 1(2)]) (use Cons(3) in auto)
  ultimately show ?case by (simp add: lock_reach_def)
qed (simp add: lock_reach_def)

lemma pcs_idle: "(L, pcs (replicate n Idle)) = idle_conf L"
  by (auto simp: pcs_def idle_conf_def)

subsection \<open>What the locks guarantee\<close>

lemma quiet_cell_inv:
  assumes "quiet L" "cell_mutex L f c = Some m"
  shows "cell_inv f c m (idle_conf L)"
  unfolding idle_conf_def
  by (rule cell_invI) (use quietD [OF assms(1)] assms(2) in \<open>auto simp: creates_cell_def holds_cell_def\<close>)

text \<open>C11:
  Whatever goroutines call \<open>LockCell\<close>, \<open>LockFile\<close>, \<open>AddFileLock\<close> and the unlock functions, in every
  interleaving from the start of the server, a goroutine that holds the file \<open>f\<close> holds it alone: no
  other goroutine holds a cell of \<open>f\<close> and none holds \<open>f\<close> itself, as long as nobody calls
  \<open>DeleteFileLock(f)\<close>.
\<close>

theorem file_lock_exclusive:
  assumes "lock_reach (no_delete f) (idle_conf init_locks) (L, ths)" "ths i = InFile f"
  shows "ths j \<noteq> InCell f c \<and> (ths j = InFile f \<longrightarrow> j = i)"
proof -
  have inv: "rw_inv f (L, ths)" by (rule rw_inv_reach [OF assms(1) rw_inv_init])
  have w: "writes_file f (ths i)" by (simp add: assms(2))
  show ?thesis using file_lock_excludes [OF inv w, of j] by (metis reads_file.simps(7) writes_file.simps(1))
qed

text \<open>Goroutine 0 takes the file and goroutine 1 stops before its read lock.\<close>

definition file_first :: "(nat \<times> lock_op option) list" where
  "file_first = (0, Some (OpFile ''a'')) # replicate 7 (0, None) @ (1, Some (OpCell ''a'' ''0-0'')) # replicate 2 (1, None)"

definition file_first_pcs :: "pc list" where
  "file_first_pcs = [InFile ''a'', WaitRW (OpCell ''a'' ''0-0'') 0]"

lemma file_first_run: "map_option snd (run_moves (init_locks, [Idle, Idle]) file_first) = Some file_first_pcs"
  by (simp add: file_first_def file_first_pcs_def init_locks_def numeral_eq_Suc cell_mutex_def)

lemma file_first_reach: "\<exists>L. lock_reach (no_delete ''a'') (idle_conf init_locks) (L, pcs file_first_pcs)"
proof -
  obtain L where "run_moves (init_locks, replicate 2 Idle) file_first = Some (L, file_first_pcs)"
    using file_first_run by (auto simp: numeral_eq_Suc)
  then have "lock_reach (no_delete ''a'') (init_locks, pcs (replicate 2 Idle)) (L, pcs file_first_pcs)"
    by (rule run_moves_reach) (auto simp: file_first_def no_delete_def)
  then show ?thesis by (auto simp: pcs_idle)
qed

theorem file_lock_exclusive_witness:
  "\<exists>L. lock_reach (no_delete ''a'') (idle_conf init_locks) (L, pcs file_first_pcs) \<and>
     pcs file_first_pcs 0 = InFile ''a'' \<and> pcs file_first_pcs 1 \<noteq> InCell ''a'' ''0-0'' \<and> pcs file_first_pcs 1 \<noteq> InFile ''a''"
proof -
  obtain L where L: "lock_reach (no_delete ''a'') (idle_conf init_locks) (L, pcs file_first_pcs)"
    using file_first_reach by blast
  have "pcs file_first_pcs 0 = InFile ''a''" by (simp add: pcs_def file_first_pcs_def)
  with L show ?thesis using file_lock_exclusive [OF L, of 0 1 "''0-0''"] by auto
qed

text \<open>C19:
  Once the mutex of a cell is registered (and \<open>DeleteFileLock\<close> is not called for its file), at most one
  goroutine at a time is between \<open>LockCell\<close> and \<open>UnlockCell\<close> of that cell, in every interleaving that
  starts with no lock held.
\<close>

theorem cell_lock_exclusive:
  assumes "quiet L\<^sub>0" "cell_mutex L\<^sub>0 f c \<noteq> None"
    and "lock_reach (no_delete f) (idle_conf L\<^sub>0) (L, ths)" "ths i = InCell f c" "ths j = InCell f c"
  shows "i = j"
proof -
  obtain m where m: "cell_mutex L\<^sub>0 f c = Some m" using assms(2) by blast
  have "cell_inv f c m (L, ths)" by (rule cell_inv_reach [OF assms(3) quiet_cell_inv [OF assms(1) m]])
  then show ?thesis by (rule cell_invD(9)) (simp_all add: assms(4,5) holds_cell_def)
qed

definition one_cell :: locks where
  "one_cell = reg_cell (reg_file init_locks ''a'') ''a'' ''0-0''"

definition cell_twice :: "(nat \<times> lock_op option) list" where
  "cell_twice = (0, Some (OpCell ''a'' ''0-0'')) # replicate 5 (0, None) @ (1, Some (OpCell ''a'' ''0-0'')) # replicate 4 (1, None)"

definition cell_twice_pcs :: "pc list" where
  "cell_twice_pcs = [InCell ''a'' ''0-0'', WaitCell ''a'' ''0-0'' 1]"

lemma quiet_one_cell: "quiet one_cell"
  unfolding one_cell_def by (rule quiet_reg_cell [OF quiet_reg_file [OF quiet_init] reg_file_maps(2) [OF quiet_init]])

lemma cell_twice_run: "map_option snd (run_moves (one_cell, [Idle, Idle]) cell_twice) = Some cell_twice_pcs"
  by (simp add: cell_twice_def cell_twice_pcs_def one_cell_def reg_cell_def reg_file_def init_locks_def numeral_eq_Suc cell_mutex_def)

lemma cell_twice_reach: "\<exists>L. lock_reach (no_delete ''a'') (idle_conf one_cell) (L, pcs cell_twice_pcs)"
proof -
  obtain L where "run_moves (one_cell, replicate 2 Idle) cell_twice = Some (L, cell_twice_pcs)"
    using cell_twice_run by (auto simp: numeral_eq_Suc)
  then have "lock_reach (no_delete ''a'') (one_cell, pcs (replicate 2 Idle)) (L, pcs cell_twice_pcs)"
    by (rule run_moves_reach) (auto simp: cell_twice_def no_delete_def)
  then show ?thesis by (auto simp: pcs_idle)
qed

theorem cell_lock_exclusive_witness:
  "\<exists>L. lock_reach (no_delete ''a'') (idle_conf one_cell) (L, pcs cell_twice_pcs) \<and>
     pcs cell_twice_pcs 0 = InCell ''a'' ''0-0'' \<and> pcs cell_twice_pcs 1 \<noteq> InCell ''a'' ''0-0''"
proof -
  obtain L where L: "lock_reach (no_delete ''a'') (idle_conf one_cell) (L, pcs cell_twice_pcs)"
    using cell_twice_reach by blast
  have m: "cell_mutex one_cell ''a'' ''0-0'' \<noteq> None"
    by (simp add: one_cell_def reg_cell_def reg_file_def init_locks_def cell_mutex_def)
  have "pcs cell_twice_pcs 0 = InCell ''a'' ''0-0''" by (simp add: pcs_def cell_twice_pcs_def)
  with L show ?thesis using cell_lock_exclusive [OF quiet_one_cell m L, of 0 1] by auto
qed

definition race :: "string \<Rightarrow> string \<Rightarrow> (nat \<times> lock_op option) list" where
  "race f c = (0, Some (OpCell f c)) # replicate 8 (0, None) @ (1, Some (OpCell f c)) # replicate 4 (1, None) @
     replicate 5 (0, None) @ replicate 5 (1, None)"

definition race_end :: "(nat \<times> lock_op option) list" where
  "race_end = [(0, None), (0, None), (1, None), (1, None)]"

lemma race_run:
  "\<exists>L L'. run_moves (init_locks, [Idle, Idle]) (race f c) = Some (L, [InCell f c, InCell f c]) \<and>
     run_moves (L, [InCell f c, InCell f c]) race_end = Some (L', [Unl75 f c, Fatal (Unl74 f c)])"
  by (simp add: race_def race_end_def init_locks_def numeral_eq_Suc cell_mutex_def)

text \<open>C20:
  The mutex of a cell is created without a second look under the global lock (\<open>lock.go:60-66\<close>). When
  two goroutines lock the same cell for the first time, both can pass: each stores its own mutex, the
  second overwrites the first, and both are inside the cell. Their two unlocks then go to the same
  mutex and the second ends the process. This holds for every file and cell of a server that has just
  started, with only \<open>LockCell\<close> and \<open>UnlockCell\<close> of that one cell in use.
\<close>

theorem first_lock_of_a_cell_races:
  "\<exists>L ths L' ths'.
     lock_reach (\<lambda>op. op = OpCell f c) (idle_conf init_locks) (L, ths) \<and>
     ths 0 = InCell f c \<and> ths 1 = InCell f c \<and>
     lock_reach (\<lambda>op. op = OpCell f c) (L, ths) (L', ths') \<and> ths' 1 = Fatal (Unl74 f c)"
proof -
  let ?in = "[InCell f c, InCell f c]" and ?fin = "[Unl75 f c, Fatal (Unl74 f c)]" and ?ok = "\<lambda>op. op = OpCell f c"
  obtain L L' where r: "run_moves (init_locks, replicate 2 Idle) (race f c) = Some (L, ?in)" "run_moves (L, ?in) race_end = Some (L', ?fin)"
    using race_run [of f c] by (auto simp: numeral_eq_Suc)
  have "lock_reach ?ok (init_locks, pcs (replicate 2 Idle)) (L, pcs ?in)" by (rule run_moves_reach [OF r(1)]) (auto simp: race_def)
  moreover have "lock_reach ?ok (L, pcs ?in) (L', pcs ?fin)" by (rule run_moves_reach [OF r(2)]) (auto simp: race_end_def)
  moreover have "pcs ?in 0 = InCell f c" "pcs ?in 1 = InCell f c" "pcs ?fin 1 = Fatal (Unl74 f c)" by (simp_all add: pcs_def)
  ultimately show ?thesis unfolding pcs_idle by blast
qed

end
