(* ===== verification/Spec2Isabelle.thy ===== *)
theory Spec2Isabelle
  imports Failover SystemProps LinEvents MrSchedule BeModelProps BeLock
begin

text \<open>
  A verification library for the cloud-computing labs.

  SheetFS (\<open>code/lab5 gDoc/sheetfs\<close>) is a small distributed file system for spreadsheets. DataNodes
  store chunks; each group is a primary that journals to Kafka and secondaries that apply the journal.
\<close>

end
